(* ===== verification/Prelude.thy ===== *)
theory Prelude
  imports Main "HOL-Library.Word" "HOL-Library.Finite_Map" "HOL-Library.List_Lexorder"
    "HOL-Library.Product_Lexorder"
begin

text \<open>
  Shared vocabulary of the development: the machine types of the Rust sources, the result and
  option plumbing (\<open>ok_or\<close>, \<open>map_err\<close>), little-endian integer encodings, and the ordered
  dump/reload of the standard-library maps. A \<open>BTreeMap\<close> or \<open>HashMap\<close> is a finite map
  \<open>('k, 'v) fmap\<close>: its size is the cardinality of its domain and a \<open>BTreeMap\<close> iterates in
  increasing key order, which is \<open>sorted_list_of_fmap\<close>. Byte arrays are lists of bytes, ordered
  lexicographically like Rust arrays and tuples.

  The locales state the two interfaces most components rely on: a value codec whose decoder
  undoes its encoder, and a prefix codec whose decoder also hands back the unread input, with
  the repetition of a prefix codec proved correct once.
\<close>

named_theorems crypto_len \<open>lengths of the outputs of the cryptographic helpers\<close>
named_theorems map_size \<open>sizes of the standard-library maps\<close>

type_synonym u8 = "8 word"
type_synonym u16 = "16 word"
type_synonym u32 = "32 word"
type_synonym u64 = "64 word"
type_synonym bytes = "8 word list"

text \<open>A Rust byte-string literal \<open>b"..."\<close> or the bytes of an ASCII string.\<close>

definition byte_lit :: "string \<Rightarrow> bytes" where
  "byte_lit s = map (\<lambda>c. word_of_nat (of_char c)) s"

text \<open>\<open>Option::ok_or\<close> and \<open>Result::map_err\<close>.\<close>

definition ok_or :: "'a option \<Rightarrow> 'e \<Rightarrow> 'e + 'a" where
  "ok_or x e = (case x of None \<Rightarrow> Inl e | Some a \<Rightarrow> Inr a)"

definition map_err :: "('e \<Rightarrow> 'f) \<Rightarrow> 'e + 'a \<Rightarrow> 'f + 'a" where
  "map_err f r = (case r of Inl e \<Rightarrow> Inl (f e) | Inr a \<Rightarrow> Inr a)"

definition is_ok :: "'e + 'a \<Rightarrow> bool" where
  "is_ok r = (case r of Inl e \<Rightarrow> False | Inr a \<Rightarrow> True)"

definition saturating_sub :: "'n::len word \<Rightarrow> 'n word \<Rightarrow> 'n word" where
  "saturating_sub x y = (if x < y then 0 else x - y)"

text \<open>Little-endian encodings (\<open>to_le_bytes\<close>, \<open>from_le_bytes\<close>).\<close>

primrec le_digits :: "nat \<Rightarrow> nat \<Rightarrow> bytes" where
  "le_digits 0 x = []"
| "le_digits (Suc k) x = word_of_nat x # le_digits k (x div 256)"

primrec le_value :: "bytes \<Rightarrow> nat" where
  "le_value [] = 0"
| "le_value (b # bs) = unat b + 256 * le_value bs"

definition u32_to_le_bytes :: "u32 \<Rightarrow> bytes" where
  "u32_to_le_bytes w = le_digits 4 (unat w)"

definition u32_from_le_bytes :: "bytes \<Rightarrow> u32" where
  "u32_from_le_bytes bs = word_of_nat (le_value bs)"

definition u64_to_le_bytes :: "u64 \<Rightarrow> bytes" where
  "u64_to_le_bytes w = le_digits 8 (unat w)"

definition usize_as_u32 :: "nat \<Rightarrow> u32" where
  "usize_as_u32 k = word_of_nat k"

text \<open>Decimal rendering (\<open>format!("{}", n)\<close>).\<close>

definition digit_char :: "nat \<Rightarrow> char" where
  "digit_char d = char_of (48 + d)"

fun show_nat :: "nat \<Rightarrow> string" where
  "show_nat n = (if n < 10 then [digit_char n] else show_nat (n div 10) @ [digit_char (n mod 10)])"

declare show_nat.simps [simp del]

text \<open>Collecting an iterator of pairs into a map: a later pair replaces an earlier one.\<close>

definition fm_collect :: "('k \<times> 'v) list \<Rightarrow> ('k, 'v) fmap" where
  "fm_collect xs = fold (\<lambda>(k, v) m. fmupd k v m) xs fmempty"

abbreviation fm_len :: "('k, 'v) fmap \<Rightarrow> nat" where
  "fm_len m \<equiv> fcard (fmdom m)"

section \<open>Results and options\<close>

lemma ok_or_simps [simp]:
  "ok_or None e = Inl e" "ok_or (Some a) e = Inr a"
  by (simp_all add: ok_or_def)

lemma ok_or_Inr [simp]: "ok_or x e = Inr a \<longleftrightarrow> x = Some a"
  by (cases x) auto

lemma ok_or_Inl [simp]: "ok_or x e = Inl f \<longleftrightarrow> x = None \<and> e = f"
  by (cases x) auto

lemma map_err_simps [simp]:
  "map_err f (Inl e) = Inl (f e)" "map_err f (Inr a) = Inr a"
  by (simp_all add: map_err_def)

lemma map_err_Inr [simp]: "map_err f r = Inr a \<longleftrightarrow> r = Inr a"
  by (cases r) auto

lemma is_ok_simps [simp]: "\<not> is_ok (Inl e)" "is_ok (Inr a)"
  by (simp_all add: is_ok_def)

lemma is_ok_iff: "is_ok r \<longleftrightarrow> (\<exists>a. r = Inr a)"
  by (cases r) auto

section \<open>Machine words\<close>

lemma byte_lit_append [simp]: "byte_lit (s @ t) = byte_lit s @ byte_lit t"
  by (simp add: byte_lit_def)

lemma length_byte_lit [simp]: "length (byte_lit s) = length s"
  by (simp add: byte_lit_def)

lemma unat_Suc_less: "unat (n + 1) = Suc (unat n)" if "n < (m :: 'n::len word)"
proof -
  have "unat n + 1 < 2 ^ LENGTH('n)"
  proof -
    have "unat n < unat m" using that by (simp add: word_less_nat_alt)
    moreover have "unat m < 2 ^ LENGTH('n)" by (rule unsigned_less)
    ultimately show ?thesis by linarith
  qed
  then show ?thesis by (simp add: unat_word_ariths)
qed

lemma unat_u32_of_nat: "k < 2 ^ 32 \<Longrightarrow> unat (word_of_nat k :: u32) = k"
  by (simp add: unat_of_nat)

lemma unat_saturating_sub: "unat (saturating_sub x y) = unat x - unat y"
  by (auto simp: saturating_sub_def word_less_nat_alt unat_sub_if' word_le_nat_alt)

section \<open>Little-endian integers\<close>

lemma length_le_digits [simp]: "length (le_digits k x) = k"
  by (induction k arbitrary: x) auto

lemma unat_byte_of_nat: "unat (word_of_nat x :: u8) = x mod 256"
  by (simp add: unat_of_nat)

lemma le_value_digits: "le_value (le_digits k x) = x mod 256 ^ k"
proof (induction k arbitrary: x)
  case 0
  then show ?case by simp
next
  case (Suc k)
  have "le_value (le_digits (Suc k) x) = x mod 256 + 256 * (x div 256 mod 256 ^ k)"
    by (simp add: unat_byte_of_nat Suc.IH)
  also have "\<dots> = x mod (256 * 256 ^ k)"
    by (simp add: mod_mult2_eq)
  finally show ?case by simp
qed

lemma length_u32_to_le_bytes [simp]: "length (u32_to_le_bytes w) = 4"
  by (simp add: u32_to_le_bytes_def)

lemma u32_le_roundtrip [simp]: "u32_from_le_bytes (u32_to_le_bytes w) = w"
proof -
  have "unat w < 256 ^ 4" using unsigned_less [where 'a = nat, of w] by simp
  then show ?thesis
    by (simp add: u32_from_le_bytes_def u32_to_le_bytes_def le_value_digits)
qed

lemma length_u64_to_le_bytes [simp]: "length (u64_to_le_bytes w) = 8"
  by (simp add: u64_to_le_bytes_def)

lemma u64_to_le_bytes_inj: "u64_to_le_bytes v = u64_to_le_bytes w \<Longrightarrow> v = w"
proof -
  assume "u64_to_le_bytes v = u64_to_le_bytes w"
  then have "unat v mod 256 ^ 8 = unat w mod 256 ^ 8"
    using le_value_digits [of 8 "unat v"] le_value_digits [of 8 "unat w"]
    by (simp add: u64_to_le_bytes_def)
  moreover have "unat v < 256 ^ 8" "unat w < 256 ^ 8"
    using unsigned_less [where 'a = nat, of v] unsigned_less [where 'a = nat, of w] by simp_all
  ultimately have "unat v = unat w" by simp
  then show ?thesis by (simp add: word_unat_eq_iff)
qed

lemma unat_usize_as_u32: "k < 2 ^ 32 \<Longrightarrow> unat (usize_as_u32 k) = k"
  by (simp add: usize_as_u32_def unat_of_nat take_bit_nat_eq_self)

section \<open>Standard-library maps\<close>

lemma fold_fmupd_lookup:
  "fmlookup (fold (\<lambda>(k, v) m. fmupd k v m) xs m) = fmlookup m ++ map_of (rev xs)"
proof (induction xs arbitrary: m)
  case Nil
  then show ?case by simp
next
  case (Cons x xs)
  then show ?case
    by (cases x) (simp add: fun_eq_iff map_add_def split: option.split)
qed

lemma fmlookup_fm_collect: "fmlookup (fm_collect xs) = map_of (rev xs)"
  by (simp add: fm_collect_def fold_fmupd_lookup fmempty.rep_eq map_add_def
      fun_eq_iff split: option.split)

lemma map_of_rev_distinct: "distinct (map fst xs) \<Longrightarrow> map_of (rev xs) = map_of xs"
  by (rule map_of_inject_set [THEN iffD2]) (simp_all add: rev_map [symmetric])

lemma distinct_sorted_list_of_fmap: "distinct (map fst (sorted_list_of_fmap m))"
  by (simp add: sorted_list_of_fmap_def o_def sorted_list_of_fset.rep_eq)

lemma map_of_sorted_list_of_fmap: "map_of (sorted_list_of_fmap m) = fmlookup m"
proof
  fix k
  show "map_of (sorted_list_of_fmap m) k = fmlookup m k"
    by (auto simp: sorted_list_of_fmap_def map_of_map_restrict restrict_map_def
        fmdom_notD sorted_list_of_fset_simps dest: fmdom_notI)
qed

text \<open>Dumping a map in key order and collecting it again gives the map back.\<close>

lemma fm_collect_sorted [simp]: "fm_collect (sorted_list_of_fmap m) = m"
proof (rule fmap_ext)
  fix k
  have "map_of (rev (sorted_list_of_fmap m)) = map_of (sorted_list_of_fmap m)"
    using distinct_sorted_list_of_fmap by (rule map_of_rev_distinct)
  then show "fmlookup (fm_collect (sorted_list_of_fmap m)) k = fmlookup m k"
    by (simp add: fmlookup_fm_collect map_of_sorted_list_of_fmap)
qed

lemma fcard_fempty [simp]: "fcard {||} = 0"
  by (simp add: fcard.rep_eq)

lemma fm_len_upd_le [map_size]: "fm_len (fmupd k v m) \<le> Suc (fm_len m)"
  by (simp add: fcard_finsert_if)

lemma fm_len_upd_new [map_size]: "fmlookup m k = None \<Longrightarrow> fm_len (fmupd k v m) = Suc (fm_len m)"
  by (simp add: fcard_finsert_if fmlookup_dom_iff)

lemma fm_len_drop [map_size]: "fmlookup m k = Some v \<Longrightarrow> fm_len (fmdrop k m) = fm_len m - 1"
  by (simp add: fcard_fminus_fsingleton_if fmlookup_dom_iff)

section \<open>Lists\<close>

lemma distinct_map_remove1: "distinct (map f xs) \<Longrightarrow> distinct (map f (remove1 x xs))"
  by (auto simp: distinct_map inj_on_diff)

section \<open>Codecs\<close>

text \<open>The interface of an encoder and its decoder on the values satisfying \<open>ok\<close>.\<close>

locale codec =
  fixes enc :: "'a \<Rightarrow> bytes"
    and dec :: "bytes \<Rightarrow> 'a option"
    and ok :: "'a \<Rightarrow> bool"
  assumes dec_enc: "ok x \<Longrightarrow> dec (enc x) = Some x"
begin

lemma enc_inj: "ok x \<Longrightarrow> ok y \<Longrightarrow> enc x = enc y \<Longrightarrow> x = y"
  using dec_enc by (metis option.inject)

end

text \<open>
  The interface of a decoder that reads one value off the front of its input and returns the
  unread rest. Reading \<open>k\<close> values in a row undoes the concatenation of their encodings.
\<close>

primrec read_many :: "(bytes \<Rightarrow> ('a \<times> bytes) option) \<Rightarrow> nat \<Rightarrow> bytes \<Rightarrow> ('a list \<times> bytes) option" where
  "read_many rd 0 bs = Some ([], bs)"
| "read_many rd (Suc k) bs =
     (case rd bs of None \<Rightarrow> None
      | Some (x, rest) \<Rightarrow> (case read_many rd k rest of None \<Rightarrow> None
          | Some (xs, rest') \<Rightarrow> Some (x # xs, rest')))"

locale prefix_codec =
  fixes enc :: "'a \<Rightarrow> bytes"
    and rd :: "bytes \<Rightarrow> ('a \<times> bytes) option"
    and ok :: "'a \<Rightarrow> bool"
  assumes rd_enc: "ok x \<Longrightarrow> rd (enc x @ rest) = Some (x, rest)"
begin

lemma read_many_concat:
  "list_all ok xs \<Longrightarrow> read_many rd (length xs) (concat (map enc xs) @ rest) = Some (xs, rest)"
  by (induction xs) (simp_all add: rd_enc)

lemma enc_prefix_free: "ok x \<Longrightarrow> ok y \<Longrightarrow> enc x @ xs = enc y @ ys \<Longrightarrow> x = y \<and> xs = ys"
  by (metis rd_enc option.inject prod.inject)

end

text \<open>A prefix codec gives a codec: decode and require that nothing is left over.\<close>

sublocale prefix_codec \<subseteq> whole: codec enc
  "\<lambda>bs. case rd bs of Some (x, []) \<Rightarrow> Some x | _ \<Rightarrow> None" ok
proof unfold_locales
  fix x
  assume "ok x"
  then have "rd (enc x @ []) = Some (x, [])" by (rule rd_enc)
  then show "(case rd (enc x) of Some (x, []) \<Rightarrow> Some x | _ \<Rightarrow> None) = Some x" by simp
qed

end
