(* ===== verification/Primitives.thy ===== *)
theory Primitives
  imports Prelude
begin

text \<open>
  The third-party primitives the sources call, as parameters of the model. None of this code is in
  the repository: \<open>hkdf\<close>, \<open>hmac\<close>, \<open>sha2\<close>, \<open>chacha20poly1305\<close>, \<open>x25519-dalek\<close>,
  \<open>ed25519-dalek\<close>, \<open>ml-kem\<close>, and \<open>bincode\<close> through \<open>serde\<close>. A value of the record
  \<open>crypto\<close> supplies one function per library entry point; secret keys are represented by their
  byte encoding (\<open>StaticSecret\<close>, \<open>SigningKey\<close> and the ML-KEM decapsulation key all convert
  to and from bytes), and every draw from the operating-system generator is an argument of the
  function that makes it. A value of \<open>'a serde\<close> is one serialisable type's \<open>bincode\<close>
  encoder and decoder.

  What the sources rely on is stated as one named predicate per library; the theorems that need
  it assume it by name. \<open>demo_crypto\<close> is a concrete, executable instance satisfying all of
  them, used where a theorem is applied to a concrete input. It offers no security.
\<close>

record crypto =
  hkdf_sha256 :: "bytes \<Rightarrow> bytes \<Rightarrow> bytes \<Rightarrow> nat \<Rightarrow> bytes"
    \<comment> \<open>salt, input key material, info, output length\<close>
  hmac_sha256 :: "bytes \<Rightarrow> bytes \<Rightarrow> bytes"
  sha256 :: "bytes \<Rightarrow> bytes"
  sha512 :: "bytes \<Rightarrow> bytes"
  xchacha_encrypt :: "bytes \<Rightarrow> bytes \<Rightarrow> bytes \<Rightarrow> bytes \<Rightarrow> bytes"
    \<comment> \<open>key, nonce, message, associated data\<close>
  xchacha_decrypt :: "bytes \<Rightarrow> bytes \<Rightarrow> bytes \<Rightarrow> bytes \<Rightarrow> bytes option"
  x25519_public :: "bytes \<Rightarrow> bytes"
  x25519_dh :: "bytes \<Rightarrow> bytes \<Rightarrow> bytes"
  ed25519_public :: "bytes \<Rightarrow> bytes"
  ed25519_sign :: "bytes \<Rightarrow> bytes \<Rightarrow> bytes"
  ed25519_key_ok :: "bytes \<Rightarrow> bool"
    \<comment> \<open>whether \<open>VerifyingKey::from_bytes\<close> accepts the encoding\<close>
  ed25519_verify :: "bytes \<Rightarrow> bytes \<Rightarrow> bytes \<Rightarrow> bool"
  mlkem_dk_len :: nat
    \<comment> \<open>length of an encoded decapsulation key\<close>
  mlkem_generate :: "bytes \<Rightarrow> bytes"
    \<comment> \<open>decapsulation key from the generator's output\<close>
  mlkem_ek :: "bytes \<Rightarrow> bytes"
    \<comment> \<open>encapsulation key of a decapsulation key\<close>
  mlkem_encapsulate :: "bytes \<Rightarrow> bytes \<Rightarrow> (bytes \<times> bytes) option"
    \<comment> \<open>encapsulation key, random bytes; ciphertext and shared secret\<close>
  mlkem_decapsulate :: "bytes \<Rightarrow> bytes \<Rightarrow> bytes option"

record 'a serde =
  ser :: "'a \<Rightarrow> bytes"
  de :: "bytes \<Rightarrow> string + 'a"

section \<open>Named hypotheses on the libraries\<close>

text \<open>\<open>bincode\<close>: decoding what was encoded gives the value back.\<close>

definition serde_ok :: "'a serde \<Rightarrow> bool" where
  "serde_ok S \<longleftrightarrow> (\<forall>x. de S (ser S x) = Inr x)"

text \<open>XChaCha20-Poly1305: opening a sealed message under the same key, nonce and data returns it.\<close>

definition aead_ok :: "'c crypto_scheme \<Rightarrow> bool" where
  "aead_ok C \<longleftrightarrow> (\<forall>k n m a. xchacha_decrypt C k n (xchacha_encrypt C k n m a) a = Some m)"

text \<open>A sealed message is 16 bytes (the Poly1305 tag) longer than its plaintext.\<close>

definition aead_tag_len :: "'c crypto_scheme \<Rightarrow> bool" where
  "aead_tag_len C \<longleftrightarrow> (\<forall>k n m a. length (xchacha_encrypt C k n m a) = length m + 16)"

text \<open>X25519: both ends of an exchange compute the same 32-byte secret.\<close>

definition dh_ok :: "'c crypto_scheme \<Rightarrow> bool" where
  "dh_ok C \<longleftrightarrow> (\<forall>a b. x25519_dh C a (x25519_public C b) = x25519_dh C b (x25519_public C a))"

definition dh_len :: "'c crypto_scheme \<Rightarrow> bool" where
  "dh_len C \<longleftrightarrow> (\<forall>a. length (x25519_public C a) = 32)"

text \<open>Ed25519: a derived public key is well formed, 32 bytes, and verifies its owner's signatures,
  which are 64 bytes.\<close>

definition sig_ok :: "'c crypto_scheme \<Rightarrow> bool" where
  "sig_ok C \<longleftrightarrow>
     (\<forall>sk. ed25519_key_ok C (ed25519_public C sk)) \<and>
     (\<forall>sk m. ed25519_verify C (ed25519_public C sk) m (ed25519_sign C sk m)) \<and>
     (\<forall>sk m. length (ed25519_sign C sk m) = 64) \<and>
     (\<forall>sk. length (ed25519_public C sk) = 32)"

text \<open>ML-KEM-1024: keys and ciphertexts have the standard's lengths, and decapsulating what was
  encapsulated to a key pair gives the shared secret.\<close>

definition kem_ok :: "'c crypto_scheme \<Rightarrow> bool" where
  "kem_ok C \<longleftrightarrow>
     (\<forall>seed. length (mlkem_generate C seed) = mlkem_dk_len C) \<and>
     (\<forall>dk. length dk = mlkem_dk_len C \<longrightarrow> length (mlkem_ek C dk) = 1568) \<and>
     (\<forall>dk r. length dk = mlkem_dk_len C \<longrightarrow>
        (\<exists>ct ss. mlkem_encapsulate C (mlkem_ek C dk) r = Some (ct, ss) \<and>
           length ct = 1568 \<and> mlkem_decapsulate C dk ct = Some ss))"

text \<open>Output lengths of the hashes.\<close>

definition hash_len :: "'c crypto_scheme \<Rightarrow> bool" where
  "hash_len C \<longleftrightarrow>
     (\<forall>s i f k. length (hkdf_sha256 C s i f k) = k) \<and>
     (\<forall>k m. length (hmac_sha256 C k m) = 32) \<and>
     (\<forall>m. length (sha256 C m) = 32) \<and>
     (\<forall>m. length (sha512 C m) = 64)"

section \<open>A concrete instance\<close>

definition pad_to :: "nat \<Rightarrow> bytes \<Rightarrow> bytes" where
  "pad_to k bs = take k (bs @ replicate k 0)"

definition demo_tag :: "bytes \<Rightarrow> bytes \<Rightarrow> bytes \<Rightarrow> bytes" where
  "demo_tag k m a = map2 (+) (pad_to 16 k) (map2 (+) (pad_to 16 m) (pad_to 16 a))"

definition demo_crypto :: crypto where
  "demo_crypto = \<lparr>
     hkdf_sha256 = (\<lambda>s i f k. pad_to k (i @ s @ f)),
     hmac_sha256 = (\<lambda>k m. map2 (+) (pad_to 32 k) (replicate 32 (sum_list m))),
     sha256 = pad_to 32,
     sha512 = pad_to 64,
     xchacha_encrypt = (\<lambda>k n m a. demo_tag k m a @ m),
     xchacha_decrypt = (\<lambda>k n c a. if take 16 c = demo_tag k (drop 16 c) a then Some (drop 16 c) else None),
     x25519_public = pad_to 32,
     x25519_dh = (\<lambda>a b. map2 (+) (pad_to 32 a) (pad_to 32 b)),
     ed25519_public = pad_to 32,
     ed25519_sign = (\<lambda>sk m. pad_to 32 sk @ pad_to 32 m),
     ed25519_key_ok = (\<lambda>vk. length vk = 32),
     ed25519_verify = (\<lambda>vk m s. s = vk @ pad_to 32 m),
     mlkem_dk_len = 3168,
     mlkem_generate = pad_to 3168,
     mlkem_ek = pad_to 1568,
     mlkem_encapsulate = (\<lambda>ek r. Some (pad_to 1568 r, pad_to 32 r)),
     mlkem_decapsulate = (\<lambda>dk c. Some (pad_to 32 c))
   \<rparr>"

section \<open>Consequences\<close>

lemma serde_okD [simp]: "serde_ok S \<Longrightarrow> de S (ser S x) = Inr x"
  by (simp add: serde_ok_def)

lemma serde_ok_inj: "serde_ok S \<Longrightarrow> ser S x = ser S y \<Longrightarrow> x = y"
  by (metis serde_okD sum.inject(2))

lemma length_pad_to [simp]: "length (pad_to k bs) = k"
  by (simp add: pad_to_def)

lemma pad_to_idem [simp]: "pad_to k (pad_to k bs) = pad_to k bs"
  by (simp add: pad_to_def)

lemma map2_add_commute: "map2 (+) xs ys = map2 (+) ys (xs :: bytes)"
proof (induction xs arbitrary: ys)
  case Nil
  then show ?case by simp
next
  case (Cons x xs)
  then show ?case by (cases ys) (simp_all add: add.commute)
qed

lemma pad_to_pad_to_le: "k \<le> j \<Longrightarrow> pad_to k (pad_to j bs) = pad_to k bs"
  by (simp add: pad_to_def min_def)

lemma demo_aead_ok: "aead_ok demo_crypto"
  by (simp add: aead_ok_def demo_crypto_def demo_tag_def)

lemma demo_aead_tag_len: "aead_tag_len demo_crypto"
  by (simp add: aead_tag_len_def demo_crypto_def demo_tag_def)

lemma demo_dh_ok: "dh_ok demo_crypto"
  by (simp add: dh_ok_def demo_crypto_def map2_add_commute)

lemma demo_dh_len: "dh_len demo_crypto"
  by (simp add: dh_len_def demo_crypto_def)

lemma demo_sig_ok: "sig_ok demo_crypto"
  by (simp add: sig_ok_def demo_crypto_def)

lemma demo_kem_ok: "kem_ok demo_crypto"
  by (simp add: kem_ok_def demo_crypto_def pad_to_pad_to_le)

lemma demo_hash_len: "hash_len demo_crypto"
  by (simp add: hash_len_def demo_crypto_def)

lemmas demo_laws = demo_aead_ok demo_aead_tag_len demo_dh_ok demo_dh_len demo_sig_ok demo_kem_ok
  demo_hash_len

end
