(* ===== verification/Format.thy ===== *)
theory Format
  imports Primitives
begin

text \<open>
  A concrete byte format in the style of \<^verbatim>\<open>bincode\<close>, built from combinators: it instantiates the
  \<open>serde\<close> parameters of the model, so that every theorem assuming \<open>serde_ok\<close> applies to an actual
  encoder. Counts are written in unary, so that the format is total on lists of any length.
\<close>

record 'a fmt =
  put :: "'a \<Rightarrow> bytes"
  get :: "bytes \<Rightarrow> ('a \<times> bytes) option"

definition fmt_ok :: "'a fmt \<Rightarrow> bool" where
  "fmt_ok F \<longleftrightarrow> (\<forall>x rest. get F (put F x @ rest) = Some (x, rest))"

definition fmt_u8 :: "u8 fmt" where
  "fmt_u8 = \<lparr>put = (\<lambda>x. [x]), get = (\<lambda>bs. case bs of [] \<Rightarrow> None | b # r \<Rightarrow> Some (b, r))\<rparr>"

definition fmt_u32 :: "u32 fmt" where
  "fmt_u32 = \<lparr>put = u32_to_le_bytes,
     get = (\<lambda>bs. if length bs < 4 then None else Some (u32_from_le_bytes (take 4 bs), drop 4 bs))\<rparr>"

definition fmt_pair :: "'a fmt \<Rightarrow> 'b fmt \<Rightarrow> ('a \<times> 'b) fmt" where
  "fmt_pair F G = \<lparr>put = (\<lambda>x. put F (fst x) @ put G (snd x)),
     get = (\<lambda>bs. case get F bs of None \<Rightarrow> None
       | Some (x, r) \<Rightarrow> (case get G r of None \<Rightarrow> None | Some (y, r') \<Rightarrow> Some ((x, y), r')))\<rparr>"

definition fmt_list :: "'a fmt \<Rightarrow> 'a list fmt" where
  "fmt_list F = \<lparr>put = (\<lambda>xs. replicate (length xs) 1 @ [0] @ concat (map (put F) xs)),
     get = (\<lambda>bs. let k = length (takeWhile (\<lambda>b. b = 1) bs) in read_many (get F) k (drop (Suc k) bs))\<rparr>"

definition fmt_sum :: "'a fmt \<Rightarrow> 'b fmt \<Rightarrow> ('a + 'b) fmt" where
  "fmt_sum F G = \<lparr>put = (\<lambda>x. case x of Inl a \<Rightarrow> 0 # put F a | Inr b \<Rightarrow> 1 # put G b),
     get = (\<lambda>bs. case bs of [] \<Rightarrow> None
       | t # r \<Rightarrow> if t = 0 then map_option (apfst Inl) (get F r) else map_option (apfst Inr) (get G r))\<rparr>"

definition fmt_unit :: "unit fmt" where
  "fmt_unit = \<lparr>put = (\<lambda>_. []), get = (\<lambda>bs. Some ((), bs))\<rparr>"

text \<open>The format of a type given by its components.\<close>

definition fmt_via :: "('b \<Rightarrow> 'a) \<Rightarrow> ('a \<Rightarrow> 'b) \<Rightarrow> 'a fmt \<Rightarrow> 'b fmt" where
  "fmt_via to from F = \<lparr>put = (\<lambda>x. put F (to x)), get = (\<lambda>bs. map_option (apfst from) (get F bs))\<rparr>"

definition fmt_option :: "'a fmt \<Rightarrow> 'a option fmt" where
  "fmt_option F = fmt_via (\<lambda>x. case x of None \<Rightarrow> Inl () | Some a \<Rightarrow> Inr a)
     (\<lambda>y. case y of Inl _ \<Rightarrow> None | Inr a \<Rightarrow> Some a) (fmt_sum fmt_unit F)"

definition fmt_bytes :: "bytes fmt" where
  "fmt_bytes = fmt_list fmt_u8"

definition serde_of :: "'a fmt \<Rightarrow> 'a serde" where
  "serde_of F = \<lparr>ser = put F,
     de = (\<lambda>bs. case get F bs of None \<Rightarrow> Inl ''malformed'' | Some (x, _) \<Rightarrow> Inr x)\<rparr>"

section \<open>The formats are correct\<close>

named_theorems fmt_laws

lemma fmt_okD: "fmt_ok F \<Longrightarrow> get F (put F x @ rest) = Some (x, rest)"
  by (simp add: fmt_ok_def)

lemma fmt_u8_ok [fmt_laws]: "fmt_ok fmt_u8"
  by (simp add: fmt_ok_def fmt_u8_def)

lemma fmt_unit_ok [fmt_laws]: "fmt_ok fmt_unit"
  by (simp add: fmt_ok_def fmt_unit_def)

lemma fmt_u32_ok [fmt_laws]: "fmt_ok fmt_u32"
  by (simp add: fmt_ok_def fmt_u32_def)

lemma fmt_pair_ok [fmt_laws]: "fmt_ok F \<Longrightarrow> fmt_ok G \<Longrightarrow> fmt_ok (fmt_pair F G)"
  by (simp add: fmt_ok_def fmt_pair_def)

lemma fmt_sum_ok [fmt_laws]: "fmt_ok F \<Longrightarrow> fmt_ok G \<Longrightarrow> fmt_ok (fmt_sum F G)"
  by (simp add: fmt_ok_def fmt_sum_def split: sum.split)

lemma fmt_via_ok [fmt_laws]: "fmt_ok F \<Longrightarrow> (\<And>x. from (to x) = x) \<Longrightarrow> fmt_ok (fmt_via to from F)"
  by (simp add: fmt_ok_def fmt_via_def)

lemma fmt_option_ok [fmt_laws]: "fmt_ok F \<Longrightarrow> fmt_ok (fmt_option F)"
  unfolding fmt_option_def by (intro fmt_laws) (simp_all split: option.split)

lemma fmt_list_ok [fmt_laws]:
  assumes "fmt_ok F"
  shows "fmt_ok (fmt_list F)"
proof -
  have many: "read_many (get F) (length xs) (concat (map (put F) xs) @ rest) = Some (xs, rest)" for xs rest
    by (induction xs) (simp_all add: fmt_okD [OF assms])
  have "takeWhile (\<lambda>b. b = 1) (replicate k 1 @ 0 # ys) = replicate k (1 :: u8)" for k ys
    by (induction k) simp_all
  then show ?thesis
    by (simp add: fmt_ok_def fmt_list_def Let_def many)
qed

lemma fmt_bytes_ok [fmt_laws]: "fmt_ok fmt_bytes"
  unfolding fmt_bytes_def by (intro fmt_laws)

lemma serde_of_ok: "fmt_ok F \<Longrightarrow> serde_ok (serde_of F)"
  using fmt_okD [of F _ "[]"] by (simp add: serde_ok_def serde_of_def)

section \<open>Sizes\<close>

named_theorems fmt_size

lemma fmt_size_base [fmt_size]:
  "length (put fmt_u8 b) = 1" "length (put fmt_u32 w) = 4" "length (put fmt_unit u) = 0"
  "length (put (fmt_pair F G) p) = length (put F (fst p)) + length (put G (snd p))"
  "length (put (fmt_via to from F) x) = length (put F (to x))"
  "length (put (fmt_list F) xs) = length xs + 1 + sum_list (map (\<lambda>x. length (put F x)) xs)"
  "length (put (fmt_sum F G) y) = 1 + (case y of Inl a \<Rightarrow> length (put F a) | Inr b \<Rightarrow> length (put G b))"
  by (simp_all add: fmt_u8_def fmt_u32_def fmt_unit_def fmt_pair_def fmt_via_def fmt_list_def fmt_sum_def
      length_concat o_def split: sum.split)

lemma fmt_size_option [fmt_size]:
  "length (put (fmt_option F) x) = 1 + (case x of None \<Rightarrow> 0 | Some a \<Rightarrow> length (put F a))"
  by (simp add: fmt_option_def fmt_size_base split: option.split)

lemma fmt_size_bytes [fmt_size]: "length (put fmt_bytes bs) = 2 * length bs + 1"
  by (simp add: fmt_bytes_def fmt_size_base sum_list_triv)

end
