(* ===== verification/Wire.thy ===== *)
theory Wire
  imports Format
begin

text \<open>
  The error type of \<^verbatim>\<open>core/src/error.rs\<close> and the wire types of \<^verbatim>\<open>core/src/wire.rs\<close>: prekey
  bundles, ratchet and handshake headers, and the two kinds of message, with the versioned
  encoding of messages. The \<open>bincode\<close> encoders of the individual types are parameters.
\<close>

datatype error =
    BadSignature
  | MalformedKey
  | Decrypt
  | UnknownPrekey
  | Wire string
  | UnexpectedMessage

definition PROTOCOL_VERSION :: u8 where
  "PROTOCOL_VERSION = 1"

type_synonym one_time_prekey_publics = "(u32 \<times> bytes) list"

record prekey_bundle =
  pb_identity_ed :: bytes
  pb_identity_dh :: bytes
  pb_identity_dh_sig :: bytes
  pb_signed_prekey :: bytes
  pb_signed_prekey_id :: u32
  pb_signed_prekey_sig :: bytes
  pb_kyber_prekey :: bytes
  pb_kyber_prekey_id :: u32
  pb_kyber_prekey_sig :: bytes
  pb_one_time_prekey :: "bytes option"
  pb_one_time_prekey_id :: "u32 option"

record ratchet_header =
  rh_dh_pub :: bytes
  rh_pn :: u32
  rh_n :: u32

record handshake_header =
  hh_identity_ed :: bytes
  hh_identity_dh :: bytes
  hh_ephemeral_dh :: bytes
  hh_signed_prekey_id :: u32
  hh_one_time_prekey_id :: "u32 option"
  hh_kyber_prekey_id :: u32
  hh_kyber_ciphertext :: bytes

datatype message =
    PreKey handshake_header ratchet_header bytes
  | Normal ratchet_header bytes

fun message_header :: "message \<Rightarrow> ratchet_header" where
  "message_header (PreKey hs h ct) = h"
| "message_header (Normal h ct) = h"

definition message_encode :: "message serde \<Rightarrow> message \<Rightarrow> bytes" where
  "message_encode S m = PROTOCOL_VERSION # ser S m"

definition message_decode :: "message serde \<Rightarrow> bytes \<Rightarrow> error + message" where
  "message_decode S bs =
     (case bs of
        [] \<Rightarrow> Inl (Wire ''empty message'')
      | version # body \<Rightarrow>
          if version \<noteq> PROTOCOL_VERSION then Inl (Wire (''unsupported version '' @ show_nat (unat version)))
          else map_err Wire (de S body))"

definition bundle_encode :: "prekey_bundle serde \<Rightarrow> prekey_bundle \<Rightarrow> bytes" where
  "bundle_encode S b = ser S b"

definition bundle_decode :: "prekey_bundle serde \<Rightarrow> bytes \<Rightarrow> error + prekey_bundle" where
  "bundle_decode S bs = map_err Wire (de S bs)"

section \<open>Encoding and decoding\<close>

lemma message_decode_encode [simp]: "serde_ok S \<Longrightarrow> message_decode S (message_encode S m) = Inr m"
  by (simp add: message_decode_def message_encode_def)

lemma bundle_decode_encode [simp]: "serde_ok S \<Longrightarrow> bundle_decode S (bundle_encode S b) = Inr b"
  by (simp add: bundle_decode_def bundle_encode_def)

lemma message_decode_Inr:
  "message_decode S bs = Inr m \<longleftrightarrow> (\<exists>body. bs = PROTOCOL_VERSION # body \<and> de S body = Inr m)"
  by (cases bs) (auto simp: message_decode_def)

end
