(* ===== verification/Kdf.thy ===== *)
theory Kdf
  imports Wire
begin

text \<open>
  The key schedule of \<^verbatim>\<open>core/src/kdf.rs\<close>: the root and chain key derivations of the ratchet, the
  AEAD helpers that derive a (key, nonce) pair from one message key, and the handshake's root
  derivation. Zeroisation of spent buffers has no observable value and leaves no trace here.
\<close>

definition kdf_rk :: "'c crypto_scheme \<Rightarrow> bytes \<Rightarrow> bytes \<Rightarrow> bytes \<times> bytes" where
  "kdf_rk C root_key dh_output =
     (let okm = hkdf_sha256 C root_key dh_output (byte_lit ''ClarityRootKDF-v1'') 64
      in (take 32 okm, drop 32 okm))"

definition hmac_one :: "'c crypto_scheme \<Rightarrow> bytes \<Rightarrow> bytes \<Rightarrow> bytes" where
  "hmac_one C key input = hmac_sha256 C key input"

definition kdf_ck :: "'c crypto_scheme \<Rightarrow> bytes \<Rightarrow> bytes \<times> bytes" where
  "kdf_ck C chain_key =
     (let message_key = hmac_one C chain_key [0x01];
          next_chain = hmac_one C chain_key [0x02]
      in (next_chain, message_key))"

definition derive_message_material :: "'c crypto_scheme \<Rightarrow> bytes \<Rightarrow> bytes \<times> bytes" where
  "derive_message_material C message_key =
     (let okm = hkdf_sha256 C (replicate 32 0) message_key (byte_lit ''ClarityMsgKey-v1'') 56
      in (take 32 okm, drop 32 okm))"

definition aead_seal :: "'c crypto_scheme \<Rightarrow> bytes \<Rightarrow> bytes \<Rightarrow> bytes \<Rightarrow> bytes" where
  "aead_seal C message_key plaintext associated_data =
     (let (key, nonce) = derive_message_material C message_key
      in xchacha_encrypt C key nonce plaintext associated_data)"

definition aead_open :: "'c crypto_scheme \<Rightarrow> bytes \<Rightarrow> bytes \<Rightarrow> bytes \<Rightarrow> error + bytes" where
  "aead_open C message_key ciphertext associated_data =
     (let (key, nonce) = derive_message_material C message_key
      in ok_or (xchacha_decrypt C key nonce ciphertext associated_data) Decrypt)"

definition kdf_root_from_ikm :: "'c crypto_scheme \<Rightarrow> bytes \<Rightarrow> bytes" where
  "kdf_root_from_ikm C ikm =
     hkdf_sha256 C (byte_lit ''Clarity-PQXDH-salt-v1'') ikm (byte_lit ''Clarity-PQXDH-root-v1'') 32"

text \<open>The chain seen as a whole: the chain key and the message key after \<open>i\<close> steps.\<close>

primrec chain_at :: "'c crypto_scheme \<Rightarrow> bytes \<Rightarrow> nat \<Rightarrow> bytes" where
  "chain_at C ck 0 = ck"
| "chain_at C ck (Suc i) = fst (kdf_ck C (chain_at C ck i))"

definition mk_at :: "'c crypto_scheme \<Rightarrow> bytes \<Rightarrow> nat \<Rightarrow> bytes" where
  "mk_at C ck i = snd (kdf_ck C (chain_at C ck i))"

section \<open>Sealing and opening\<close>

lemma aead_open_seal [simp]: "aead_ok C \<Longrightarrow> aead_open C k (aead_seal C k m a) a = Inr m"
  by (simp add: aead_open_def aead_seal_def aead_ok_def split: prod.split)

lemma aead_open_Inl: "aead_open C k c a = Inl e \<Longrightarrow> e = Decrypt"
  by (simp add: aead_open_def split: prod.splits)

lemma length_aead_seal [crypto_len]:
  "aead_tag_len C \<Longrightarrow> length (aead_seal C k m a) = length m + 16"
  by (simp add: aead_seal_def aead_tag_len_def split: prod.split)

lemma length_kdf_rk [crypto_len]:
  "hash_len C \<Longrightarrow> length (fst (kdf_rk C r d)) = 32 \<and> length (snd (kdf_rk C r d)) = 32"
  by (simp add: kdf_rk_def hash_len_def Let_def)

lemma length_kdf_ck [crypto_len]:
  "hash_len C \<Longrightarrow> length (fst (kdf_ck C ck)) = 32 \<and> length (snd (kdf_ck C ck)) = 32"
  by (simp add: kdf_ck_def hmac_one_def hash_len_def Let_def)

section \<open>Chains\<close>

declare chain_at.simps(2) [simp del]

lemma kdf_ck_chain: "kdf_ck C (chain_at C ck i) = (chain_at C ck (Suc i), mk_at C ck i)"
  by (simp add: mk_at_def chain_at.simps)

lemma chain_at_add: "chain_at C (chain_at C ck i) j = chain_at C ck (i + j)"
  by (induction j) (simp_all add: chain_at.simps)

lemma mk_at_add: "mk_at C (chain_at C ck i) j = mk_at C ck (i + j)"
  by (simp add: mk_at_def chain_at_add)

end
