(* ===== verification/Ratchet.thy ===== *)
theory Ratchet
  imports Kdf
begin

text \<open>
  The Double Ratchet of \<^verbatim>\<open>core/src/ratchet.rs\<close>. A \<open>double_ratchet\<close> is the Rust struct field by
  field. Methods taking \<open>&mut self\<close> return the new state also when they return an error, since
  the mutation made before an early return stays. Message counters are \<open>u32\<close> and wrap, as in
  the release profile. The secret a Diffie-Hellman step draws is the argument \<open>new_self\<close>.
\<close>

definition MAX_SKIP :: u32 where
  "MAX_SKIP = 1000"

definition MAX_SKIPPED_CACHE :: nat where
  "MAX_SKIPPED_CACHE = 4000"

record double_ratchet =
  root_key :: bytes
  dh_self :: bytes
  dh_self_pub :: bytes
  dh_remote :: "bytes option"
  chain_send :: "bytes option"
  chain_recv :: "bytes option"
  n_send :: u32
  n_recv :: u32
  pn :: u32
  skipped :: "(bytes \<times> u32, bytes) fmap"

definition dh :: "'c crypto_scheme \<Rightarrow> bytes \<Rightarrow> bytes \<Rightarrow> bytes" where
  "dh C secret their_pub = x25519_dh C secret their_pub"

definition associated_data :: "ratchet_header serde \<Rightarrow> bytes \<Rightarrow> ratchet_header \<Rightarrow> bytes" where
  "associated_data S prefix header = prefix @ ser S header"

definition init_initiator :: "'c crypto_scheme \<Rightarrow> bytes \<Rightarrow> bytes \<Rightarrow> bytes \<Rightarrow> double_ratchet" where
  "init_initiator C new_self root remote_dh_pub =
     (let (rk, cs) = kdf_rk C root (dh C new_self remote_dh_pub)
      in \<lparr>root_key = rk, dh_self = new_self, dh_self_pub = x25519_public C new_self,
          dh_remote = Some remote_dh_pub, chain_send = Some cs, chain_recv = None,
          n_send = 0, n_recv = 0, pn = 0, skipped = fmempty\<rparr>)"

definition init_responder :: "'c crypto_scheme \<Rightarrow> bytes \<Rightarrow> bytes \<Rightarrow> double_ratchet" where
  "init_responder C root own_secret =
     \<lparr>root_key = root, dh_self = own_secret, dh_self_pub = x25519_public C own_secret,
      dh_remote = None, chain_send = None, chain_recv = None,
      n_send = 0, n_recv = 0, pn = 0, skipped = fmempty\<rparr>"

definition ratchet_encrypt :: "'c crypto_scheme \<Rightarrow> ratchet_header serde \<Rightarrow> double_ratchet
    \<Rightarrow> bytes \<Rightarrow> bytes \<Rightarrow> (error + ratchet_header \<times> bytes) \<times> double_ratchet" where
  "ratchet_encrypt C S st plaintext ad_prefix =
     (case chain_send st of
        None \<Rightarrow> (Inl UnexpectedMessage, st)
      | Some ck \<Rightarrow>
          let (next_ck, mk) = kdf_ck C ck;
              header = \<lparr>rh_dh_pub = dh_self_pub st, rh_pn = pn st, rh_n = n_send st\<rparr>;
              st' = st\<lparr>chain_send := Some next_ck, n_send := n_send st + 1\<rparr>;
              ad = associated_data S ad_prefix header
          in (Inr (header, aead_seal C mk plaintext ad), st'))"

text \<open>
  The loop of \<open>skip_message_keys\<close>. It returns the chain key it reached, or the error, together
  with the counter and the cache as they stand at that point.
\<close>

function skip_loop :: "'c crypto_scheme \<Rightarrow> bytes \<Rightarrow> u32 \<Rightarrow> bytes \<Rightarrow> u32
    \<Rightarrow> (bytes \<times> u32, bytes) fmap \<Rightarrow> (error + bytes) \<times> u32 \<times> (bytes \<times> u32, bytes) fmap" where
  "skip_loop C remote until ck nr sk =
     (if nr < until then
        let (next_ck, mk) = kdf_ck C ck in
        if fm_len sk \<ge> MAX_SKIPPED_CACHE then (Inl Decrypt, nr, sk)
        else skip_loop C remote until next_ck (nr + 1) (fmupd (remote, nr) mk sk)
      else (Inr ck, nr, sk))"
  by pat_completeness auto
termination
  by (relation "measure (\<lambda>(C, remote, until, ck, nr, sk). unat until - unat nr)")
    (auto simp: unat_Suc_less word_less_nat_alt)

declare skip_loop.simps [simp del]

definition skip_message_keys :: "'c crypto_scheme \<Rightarrow> double_ratchet \<Rightarrow> u32
    \<Rightarrow> (error + unit) \<times> double_ratchet" where
  "skip_message_keys C st until =
     (case chain_recv st of
        None \<Rightarrow> (Inr (), st)
      | Some ck \<Rightarrow>
          if until < n_recv st then (Inr (), st)
          else if until - n_recv st > MAX_SKIP then (Inl Decrypt, st)
          else (case dh_remote st of
             None \<Rightarrow> (Inl Decrypt, st)
           | Some remote \<Rightarrow>
               (case skip_loop C remote until ck (n_recv st) (skipped st) of
                  (Inl e, nr, sk) \<Rightarrow> (Inl e, st\<lparr>n_recv := nr, skipped := sk\<rparr>)
                | (Inr ck', nr, sk) \<Rightarrow>
                    (Inr (), st\<lparr>n_recv := nr, skipped := sk, chain_recv := Some ck'\<rparr>))))"

definition dh_ratchet :: "'c crypto_scheme \<Rightarrow> bytes \<Rightarrow> double_ratchet \<Rightarrow> bytes \<Rightarrow> double_ratchet" where
  "dh_ratchet C new_self st remote_pub =
     (let (rk1, cr) = kdf_rk C (root_key st) (dh C (dh_self st) remote_pub);
          (rk2, cs) = kdf_rk C rk1 (dh C new_self remote_pub)
      in st\<lparr>pn := n_send st, n_send := 0, n_recv := 0, dh_remote := Some remote_pub,
            chain_recv := Some cr, dh_self_pub := x25519_public C new_self, dh_self := new_self,
            root_key := rk2, chain_send := Some cs\<rparr>)"

text \<open>Step 2 of \<open>decrypt\<close>: the Diffie-Hellman step on a new remote key.\<close>

definition ratchet_turn :: "'c crypto_scheme \<Rightarrow> bytes \<Rightarrow> double_ratchet \<Rightarrow> ratchet_header
    \<Rightarrow> (error + unit) \<times> double_ratchet" where
  "ratchet_turn C new_self st header =
     (if dh_remote st \<noteq> Some (rh_dh_pub header) then
        (case skip_message_keys C st (rh_pn header) of
           (Inl e, st') \<Rightarrow> (Inl e, st')
         | (Inr _, st') \<Rightarrow> (Inr (), dh_ratchet C new_self st' (rh_dh_pub header)))
      else (Inr (), st))"

text \<open>Step 3 of \<open>decrypt\<close>: skip within the current chain, then use its next key.\<close>

definition ratchet_advance :: "'c crypto_scheme \<Rightarrow> double_ratchet \<Rightarrow> ratchet_header \<Rightarrow> bytes \<Rightarrow> bytes
    \<Rightarrow> (error + bytes) \<times> double_ratchet" where
  "ratchet_advance C st header ciphertext ad =
     (case skip_message_keys C st (rh_n header) of
        (Inl e, st') \<Rightarrow> (Inl e, st')
      | (Inr _, st') \<Rightarrow>
          (case chain_recv st' of
             None \<Rightarrow> (Inl Decrypt, st')
           | Some ck \<Rightarrow>
               let (next_ck, mk) = kdf_ck C ck in
               (aead_open C mk ciphertext ad,
                st'\<lparr>chain_recv := Some next_ck, n_recv := n_recv st' + 1\<rparr>)))"

definition ratchet_decrypt :: "'c crypto_scheme \<Rightarrow> ratchet_header serde \<Rightarrow> bytes \<Rightarrow> double_ratchet
    \<Rightarrow> ratchet_header \<Rightarrow> bytes \<Rightarrow> bytes \<Rightarrow> (error + bytes) \<times> double_ratchet" where
  "ratchet_decrypt C S new_self st header ciphertext ad_prefix =
     (let ad = associated_data S ad_prefix header;
          key = (rh_dh_pub header, rh_n header)
      in case fmlookup (skipped st) key of
           Some mk \<Rightarrow> (aead_open C mk ciphertext ad, st\<lparr>skipped := fmdrop key (skipped st)\<rparr>)
         | None \<Rightarrow>
             (case ratchet_turn C new_self st header of
                (Inl e, st') \<Rightarrow> (Inl e, st')
              | (Inr _, st') \<Rightarrow> ratchet_advance C st' header ciphertext ad))"

record stored_ratchet =
  sr_root_key :: bytes
  sr_dh_self :: bytes
  sr_dh_self_pub :: bytes
  sr_dh_remote :: "bytes option"
  sr_chain_send :: "bytes option"
  sr_chain_recv :: "bytes option"
  sr_n_send :: u32
  sr_n_recv :: u32
  sr_pn :: u32
  sr_skipped :: "((bytes \<times> u32) \<times> bytes) list"

definition ratchet_serialize :: "stored_ratchet serde \<Rightarrow> double_ratchet \<Rightarrow> bytes" where
  "ratchet_serialize S st =
     ser S \<lparr>sr_root_key = root_key st, sr_dh_self = dh_self st, sr_dh_self_pub = dh_self_pub st,
            sr_dh_remote = dh_remote st, sr_chain_send = chain_send st,
            sr_chain_recv = chain_recv st, sr_n_send = n_send st, sr_n_recv = n_recv st,
            sr_pn = pn st, sr_skipped = sorted_list_of_fmap (skipped st)\<rparr>"

definition ratchet_deserialize :: "stored_ratchet serde \<Rightarrow> bytes \<Rightarrow> error + double_ratchet" where
  "ratchet_deserialize S bs =
     (case de S bs of
        Inl e \<Rightarrow> Inl (Wire e)
      | Inr s \<Rightarrow> Inr \<lparr>root_key = sr_root_key s, dh_self = sr_dh_self s,
            dh_self_pub = sr_dh_self_pub s, dh_remote = sr_dh_remote s,
            chain_send = sr_chain_send s, chain_recv = sr_chain_recv s, n_send = sr_n_send s,
            n_recv = sr_n_recv s, pn = sr_pn s, skipped = fm_collect (sr_skipped s)\<rparr>)"

text \<open>The cache after \<open>k\<close> iterations of the skip loop that never met the cap.\<close>

primrec cache_keys :: "'c crypto_scheme \<Rightarrow> bytes \<Rightarrow> nat \<Rightarrow> bytes \<Rightarrow> u32
    \<Rightarrow> (bytes \<times> u32, bytes) fmap \<Rightarrow> (bytes \<times> u32, bytes) fmap" where
  "cache_keys C remote 0 ck nr sk = sk"
| "cache_keys C remote (Suc k) ck nr sk =
     cache_keys C remote k (fst (kdf_ck C ck)) (nr + 1) (fmupd (remote, nr) (snd (kdf_ck C ck)) sk)"

text \<open>Whether skipping from \<open>n_recv\<close> to \<open>until\<close> stays within both limits.\<close>

definition skip_fits :: "double_ratchet \<Rightarrow> u32 \<Rightarrow> bool" where
  "skip_fits st until \<longleftrightarrow>
     unat until - unat (n_recv st) \<le> unat MAX_SKIP \<and>
     fm_len (skipped st) + (unat until - unat (n_recv st)) \<le> MAX_SKIPPED_CACHE"

text \<open>A receiving end with an empty cache, for concrete runs.\<close>

definition demo_receiver :: double_ratchet where
  "demo_receiver = \<lparr>root_key = [1], dh_self = [2], dh_self_pub = pad_to 32 [2], dh_remote = Some [3],
     chain_send = Some [4], chain_recv = Some (chain_at demo_crypto [1] 2), n_send = 0, n_recv = 2, pn = 0, skipped = fmempty\<rparr>"

text \<open>Decrypting messages one after the other; each comes with the secret a ratchet step would draw.\<close>

primrec decrypt_all :: "'c crypto_scheme \<Rightarrow> ratchet_header serde \<Rightarrow> bytes \<Rightarrow> double_ratchet
    \<Rightarrow> (bytes \<times> ratchet_header \<times> bytes) list \<Rightarrow> (error + bytes) list" where
  "decrypt_all C S pfx st [] = []"
| "decrypt_all C S pfx st (m # ms) =
     (let (r, st') = ratchet_decrypt C S (fst m) st (fst (snd m)) (snd (snd m)) pfx
      in r # decrypt_all C S pfx st' ms)"

definition demo_header :: "u32 \<Rightarrow> ratchet_header" where
  "demo_header i = \<lparr>rh_dh_pub = [3], rh_pn = 0, rh_n = i\<rparr>"

definition demo_header_serde :: "ratchet_header serde" where
  "demo_header_serde = \<lparr>ser = (\<lambda>h. rh_dh_pub h @ u32_to_le_bytes (rh_n h)), de = (\<lambda>_. Inl [])\<rparr>"

text \<open>What the peer sends as message \<open>i\<close> of the chain \<open>demo_receiver\<close> receives on.\<close>

definition demo_message :: "nat \<Rightarrow> bytes \<times> ratchet_header \<times> bytes" where
  "demo_message i = ([9], demo_header (word_of_nat i),
     aead_seal demo_crypto (mk_at demo_crypto [1] i) [7]
       (associated_data demo_header_serde [] (demo_header (word_of_nat i))))"

text \<open>A concrete format for stored ratchets.\<close>

definition stored_ratchet_fmt :: "stored_ratchet fmt" where
  "stored_ratchet_fmt = fmt_via
     (\<lambda>s. (sr_root_key s, sr_dh_self s, sr_dh_self_pub s, sr_dh_remote s, sr_chain_send s,
           sr_chain_recv s, sr_n_send s, sr_n_recv s, sr_pn s, sr_skipped s))
     (\<lambda>(a, b, c, d, e, f, g, h, i, j). \<lparr>sr_root_key = a, sr_dh_self = b, sr_dh_self_pub = c,
        sr_dh_remote = d, sr_chain_send = e, sr_chain_recv = f, sr_n_send = g, sr_n_recv = h,
        sr_pn = i, sr_skipped = j\<rparr>)
     (fmt_pair fmt_bytes (fmt_pair fmt_bytes (fmt_pair fmt_bytes (fmt_pair (fmt_option fmt_bytes)
       (fmt_pair (fmt_option fmt_bytes) (fmt_pair (fmt_option fmt_bytes) (fmt_pair fmt_u32
         (fmt_pair fmt_u32 (fmt_pair fmt_u32
           (fmt_list (fmt_pair (fmt_pair fmt_bytes fmt_u32) fmt_bytes)))))))))))"

section \<open>The skip loop\<close>

lemma skip_loop_done: "\<not> nr < until \<Longrightarrow> skip_loop C remote until ck nr sk = (Inr ck, nr, sk)"
  by (simp add: skip_loop.simps)

lemma skip_loop_eq:
  "nr \<le> until \<Longrightarrow> k = unat until - unat nr \<Longrightarrow> fm_len sk + k \<le> MAX_SKIPPED_CACHE \<Longrightarrow>
   skip_loop C remote until ck nr sk = (Inr (chain_at C ck k), until, cache_keys C remote k ck nr sk)"
proof (induction k arbitrary: ck nr sk)
  case 0
  then have "nr = until" by (simp add: word_le_nat_alt word_unat_eq_iff)
  then show ?case by (simp add: skip_loop_done)
next
  case (Suc k)
  then have lt: "nr < until" by (simp add: word_less_nat_alt)
  let ?sk = "fmupd (remote, nr) (snd (kdf_ck C ck)) sk"
  have step: "nr + 1 \<le> until" "k = unat until - unat (nr + 1)"
    using Suc.prems(2) lt by (simp_all add: unat_Suc_less word_le_nat_alt word_less_nat_alt)
  have cap: "fm_len ?sk + k \<le> MAX_SKIPPED_CACHE"
    using Suc.prems(3) fm_len_upd_le [of "(remote, nr)" "snd (kdf_ck C ck)" sk] by linarith
  have "skip_loop C remote until ck nr sk = skip_loop C remote until (fst (kdf_ck C ck)) (nr + 1) ?sk"
    using lt Suc.prems(3) by (subst skip_loop.simps) (simp add: Let_def split: prod.split)
  also have "\<dots> = (Inr (chain_at C (fst (kdf_ck C ck)) k), until,
      cache_keys C remote k (fst (kdf_ck C ck)) (nr + 1) ?sk)"
    using step cap by (rule Suc.IH)
  finally show ?case
    using chain_at_add [of C ck "Suc 0" k] by (simp add: chain_at.simps)
qed

lemma fmlookup_cache_keys:
  "unat nr + k < 2 ^ 32 \<Longrightarrow>
   fmlookup (cache_keys C remote k ck nr sk) (q, j) =
     (if q = remote \<and> unat nr \<le> unat j \<and> unat j < unat nr + k
      then Some (mk_at C ck (unat j - unat nr)) else fmlookup sk (q, j))"
proof (induction k arbitrary: ck nr sk)
  case 0
  then show ?case by auto
next
  case (Suc k)
  have s: "unat (nr + 1) = Suc (unat nr)"
    using Suc.prems by (simp add: unat_word_ariths)
  have IH: "fmlookup (cache_keys C remote (Suc k) ck nr sk) (q, j) =
     (if q = remote \<and> Suc (unat nr) \<le> unat j \<and> unat j < Suc (unat nr) + k
      then Some (mk_at C (fst (kdf_ck C ck)) (unat j - Suc (unat nr)))
      else fmlookup (fmupd (remote, nr) (snd (kdf_ck C ck)) sk) (q, j))"
    using Suc.IH [of "nr + 1"] Suc.prems s by simp
  have mk: "Suc (unat nr) \<le> unat j \<Longrightarrow>
      mk_at C (fst (kdf_ck C ck)) (unat j - Suc (unat nr)) = mk_at C ck (unat j - unat nr)"
    using mk_at_add [of C ck "Suc 0" "unat j - Suc (unat nr)"]
    by (simp add: Suc_diff_Suc chain_at.simps)
  show ?case
    unfolding IH using mk by (auto simp: mk_at_def word_unat_eq_iff)
qed

lemma fm_len_cache_keys [map_size]: "fm_len (cache_keys C remote k ck nr sk) \<le> fm_len sk + k"
proof (induction k arbitrary: ck nr sk)
  case 0
  then show ?case by simp
next
  case (Suc k)
  show ?case
    using Suc.IH [of "fst (kdf_ck C ck)" "nr + 1" "fmupd (remote, nr) (snd (kdf_ck C ck)) sk"]
      fm_len_upd_le [of "(remote, nr)" "snd (kdf_ck C ck)" sk] by simp
qed

section \<open>Skipping message keys\<close>

lemma skip_no_chain: "chain_recv st = None \<Longrightarrow> skip_message_keys C st until = (Inr (), st)"
  by (simp add: skip_message_keys_def)

lemma skip_behind: "until < n_recv st \<Longrightarrow> skip_message_keys C st until = (Inr (), st)"
  by (simp add: skip_message_keys_def split: option.split)

lemma skip_forward:
  assumes "chain_recv st = Some ck" "dh_remote st = Some remote"
    and "n_recv st \<le> until" "skip_fits st until"
  defines "k \<equiv> unat until - unat (n_recv st)"
  shows "skip_message_keys C st until =
    (Inr (), st\<lparr>n_recv := until, skipped := cache_keys C remote k ck (n_recv st) (skipped st),
                chain_recv := Some (chain_at C ck k)\<rparr>)"
proof -
  have "unat (until - n_recv st) = k"
    using assms(3) by (simp add: k_def unat_sub word_le_nat_alt)
  then have "\<not> MAX_SKIP < until - n_recv st"
    using assms(4) by (simp add: skip_fits_def k_def word_less_nat_alt)
  moreover have "skip_loop C remote until ck (n_recv st) (skipped st) =
      (Inr (chain_at C ck k), until, cache_keys C remote k ck (n_recv st) (skipped st))"
    using assms(3,4) by (intro skip_loop_eq) (auto simp: k_def skip_fits_def)
  ultimately show ?thesis
    using assms(1-3) by (simp add: skip_message_keys_def not_less [symmetric])
qed

lemma skip_too_far:
  "chain_recv st = Some ck \<Longrightarrow> n_recv st \<le> until \<Longrightarrow> until - n_recv st > MAX_SKIP \<Longrightarrow>
   skip_message_keys C st until = (Inl Decrypt, st)"
  by (simp add: skip_message_keys_def)

lemma fm_len_cache_keys_new:
  "unat nr + k < 2 ^ 32 \<Longrightarrow> (\<And>j. unat nr \<le> unat j \<Longrightarrow> fmlookup sk (remote, j) = None) \<Longrightarrow>
   fm_len (cache_keys C remote k ck nr sk) = fm_len sk + k"
proof (induction k arbitrary: ck nr sk)
  case 0
  then show ?case by simp
next
  case (Suc k)
  have s: "unat (nr + 1) = Suc (unat nr)" using Suc.prems(1) by (simp add: unat_word_ariths)
  let ?sk = "fmupd (remote, nr) (snd (kdf_ck C ck)) sk"
  have len: "fm_len ?sk = Suc (fm_len sk)" using Suc.prems(2) by (intro fm_len_upd_new) simp
  have "fmlookup ?sk (remote, j) = None" if "unat (nr + 1) \<le> unat j" for j
    using Suc.prems(2) [of j] that s by auto
  then have "fm_len (cache_keys C remote k (fst (kdf_ck C ck)) (nr + 1) ?sk) = fm_len ?sk + k"
    using Suc.prems(1) s by (intro Suc.IH) auto
  then show ?case using len by simp
qed

text \<open>The loop on a cache that fills up: it stops after \<open>k\<close> insertions.\<close>

lemma skip_loop_full:
  "unat nr + k < unat until \<Longrightarrow> fm_len sk + k = MAX_SKIPPED_CACHE \<Longrightarrow>
   (\<And>j. unat nr \<le> unat j \<Longrightarrow> fmlookup sk (remote, j) = None) \<Longrightarrow>
   skip_loop C remote until ck nr sk = (Inl Decrypt, nr + word_of_nat k, cache_keys C remote k ck nr sk)"
proof (induction k arbitrary: ck nr sk)
  case 0
  then have "nr < until" by (simp add: word_less_nat_alt)
  then show ?case using 0 by (subst skip_loop.simps) (simp add: Let_def split: prod.split)
next
  case (Suc k)
  have lt: "nr < until" using Suc.prems(1) by (simp add: word_less_nat_alt)
  then have s: "unat (nr + 1) = Suc (unat nr)" by (rule unat_Suc_less)
  let ?sk = "fmupd (remote, nr) (snd (kdf_ck C ck)) sk"
  have len: "fm_len ?sk = Suc (fm_len sk)" using Suc.prems(3) by (intro fm_len_upd_new) simp
  have new: "fmlookup ?sk (remote, j) = None" if "unat (nr + 1) \<le> unat j" for j
    using Suc.prems(3) [of j] that s by auto
  have "skip_loop C remote until ck nr sk = skip_loop C remote until (fst (kdf_ck C ck)) (nr + 1) ?sk"
    using lt Suc.prems(2) by (subst skip_loop.simps) (simp add: Let_def split: prod.split)
  also have "\<dots> = (Inl Decrypt, nr + 1 + word_of_nat k, cache_keys C remote k (fst (kdf_ck C ck)) (nr + 1) ?sk)"
    using Suc.prems(1,2) s len new by (intro Suc.IH) auto
  finally show ?case by (simp add: add.assoc)
qed

section \<open>The cache stays bounded\<close>

lemma skip_loop_bounded:
  "fm_len sk \<le> MAX_SKIPPED_CACHE \<Longrightarrow> skip_loop C remote until ck nr sk = (r, nr', sk') \<Longrightarrow>
   fm_len sk' \<le> MAX_SKIPPED_CACHE"
proof (induction C remote until ck nr sk rule: skip_loop.induct)
  case (1 C remote until ck nr sk)
  show ?case
  proof (cases "nr < until \<and> fm_len sk < MAX_SKIPPED_CACHE")
    case True
    have "fm_len (fmupd (remote, nr) (snd (kdf_ck C ck)) sk) \<le> MAX_SKIPPED_CACHE"
      using True fm_len_upd_le [of "(remote, nr)" "snd (kdf_ck C ck)" sk] by linarith
    moreover have "skip_loop C remote until (fst (kdf_ck C ck)) (nr + 1)
        (fmupd (remote, nr) (snd (kdf_ck C ck)) sk) = (r, nr', sk')"
      using True 1(3) by (subst (asm) skip_loop.simps) (simp add: Let_def split: prod.splits)
    ultimately show ?thesis using True by (intro 1(1)) auto
  next
    case False
    then show ?thesis
      using 1(2,3) by (subst (asm) skip_loop.simps) (auto simp: Let_def split: prod.splits if_splits)
  qed
qed

lemma skip_message_keys_bounded:
  assumes "fm_len (skipped st) \<le> MAX_SKIPPED_CACHE" "skip_message_keys C st until = (r, st')"
  shows "fm_len (skipped st') \<le> MAX_SKIPPED_CACHE"
  using assms skip_loop_bounded [OF assms(1), where C = C]
  by (auto simp: skip_message_keys_def split: option.splits if_splits prod.splits sum.splits)

lemma skipped_dh_ratchet [simp]: "skipped (dh_ratchet C new st q) = skipped st"
  by (simp add: dh_ratchet_def Let_def split: prod.split)

lemma ratchet_turn_bounded:
  assumes "fm_len (skipped st) \<le> MAX_SKIPPED_CACHE" "ratchet_turn C new st h = (r, st')"
  shows "fm_len (skipped st') \<le> MAX_SKIPPED_CACHE"
  using assms skip_message_keys_bounded [OF assms(1), where C = C]
  by (auto simp: ratchet_turn_def split: if_splits prod.splits sum.splits)

lemma ratchet_advance_bounded:
  assumes "fm_len (skipped st) \<le> MAX_SKIPPED_CACHE" "ratchet_advance C st h ct ad = (r, st')"
  shows "fm_len (skipped st') \<le> MAX_SKIPPED_CACHE"
  using assms skip_message_keys_bounded [OF assms(1), where C = C]
  by (auto simp: ratchet_advance_def Let_def split: option.splits prod.splits sum.splits)

section \<open>Receiving behind the chain\<close>

lemma all_less_two: "(\<forall>t<Suc (Suc 0). P t) \<longleftrightarrow> P 0 \<and> P (Suc 0)"
  by (simp add: All_less_Suc conj_commute)

lemma decrypt_behind:
  assumes "chain_recv st = Some (chain_at C ck i)" "rh_n h < n_recv st"
    and "dh_remote st = Some (rh_dh_pub h)" "fmlookup (skipped st) (rh_dh_pub h, rh_n h) = None"
  shows "ratchet_decrypt C S new st h ct pfx =
      (aead_open C (mk_at C ck i) ct (associated_data S pfx h),
       st\<lparr>chain_recv := Some (chain_at C ck (Suc i)), n_recv := n_recv st + 1\<rparr>)"
  using assms skip_behind [OF assms(2), where C = C]
  by (simp add: ratchet_decrypt_def ratchet_turn_def ratchet_advance_def kdf_ck_chain)

lemma decrypt_all_behind:
  assumes "chain_recv st = Some (chain_at C ck (Suc i))" "unat (n_recv st) = Suc i" "dh_remote st = Some q"
    and "\<forall>j. fmlookup (skipped st) (q, j) = None" "Suc i + length ms < 2 ^ 32"
    and "\<forall>t<length ms. rh_dh_pub (fst (snd (ms ! t))) = q \<and> rh_n (fst (snd (ms ! t))) = word_of_nat (i + t)"
  shows "\<forall>t<length ms. decrypt_all C S pfx st ms ! t =
    aead_open C (mk_at C ck (Suc (i + t))) (snd (snd (ms ! t))) (associated_data S pfx (fst (snd (ms ! t))))"
  using assms
proof (induction ms arbitrary: st i)
  case Nil
  then show ?case by simp
next
  case (Cons m ms)
  let ?st = "st\<lparr>chain_recv := Some (chain_at C ck (Suc (Suc i))), n_recv := n_recv st + 1\<rparr>"
  have h: "rh_dh_pub (fst (snd m)) = q" "rh_n (fst (snd m)) = word_of_nat i"
    using Cons.prems(6) by fastforce+
  have "unat (rh_n (fst (snd m))) = i" using Cons.prems(5) h(2) by (simp add: unat_u32_of_nat)
  then have lt: "rh_n (fst (snd m)) < n_recv st" using Cons.prems(2) by (simp add: word_less_nat_alt)
  have D: "ratchet_decrypt C S (fst m) st (fst (snd m)) (snd (snd m)) pfx =
      (aead_open C (mk_at C ck (Suc i)) (snd (snd m)) (associated_data S pfx (fst (snd m))), ?st)"
    using Cons.prems(1,3,4) h lt by (intro decrypt_behind) auto
  have "\<forall>t<length ms. decrypt_all C S pfx ?st ms ! t =
    aead_open C (mk_at C ck (Suc (Suc i + t))) (snd (snd (ms ! t))) (associated_data S pfx (fst (snd (ms ! t))))"
  proof (rule Cons.IH)
    show "\<forall>t<length ms. rh_dh_pub (fst (snd (ms ! t))) = q \<and> rh_n (fst (snd (ms ! t))) = word_of_nat (Suc i + t)"
      using Cons.prems(6) by fastforce
  qed (use Cons.prems in \<open>simp_all add: unat_word_ariths\<close>)
  then show ?case using D by (auto simp: nth_Cons split: nat.split)
qed

lemma stored_ratchet_fmt_ok: "fmt_ok stored_ratchet_fmt"
  unfolding stored_ratchet_fmt_def by (intro fmt_laws) simp

section \<open>Properties\<close>

text \<open>
  C7: decryption never grows the cache of skipped message keys past \<open>MAX_SKIPPED_CACHE\<close>, whatever
  the header and ciphertext say and whether or not it succeeds.
\<close>

theorem decrypt_cache_bounded:
  assumes "fm_len (skipped st) \<le> MAX_SKIPPED_CACHE"
  shows "fm_len (skipped (snd (ratchet_decrypt C S new st h ct pfx))) \<le> MAX_SKIPPED_CACHE"
proof (cases "fmlookup (skipped st) (rh_dh_pub h, rh_n h)")
  case None
  obtain r st1 where turn: "ratchet_turn C new st h = (r, st1)" by fastforce
  have b: "fm_len (skipped st1) \<le> MAX_SKIPPED_CACHE" by (rule ratchet_turn_bounded [OF assms turn])
  obtain r' st2 where adv: "ratchet_advance C st1 h ct (associated_data S pfx h) = (r', st2)" by fastforce
  show ?thesis
    using None turn b adv ratchet_advance_bounded [OF b adv]
    by (cases r) (simp_all add: ratchet_decrypt_def Let_def)
next
  case (Some mk)
  then show ?thesis
    using assms fm_len_drop [OF Some] by (simp add: ratchet_decrypt_def Let_def)
qed

theorem decrypt_cache_bounded_witness:
  "fm_len (skipped (snd (ratchet_decrypt demo_crypto demo_header_serde [9] demo_receiver
     (demo_header 500) [7] []))) \<le> MAX_SKIPPED_CACHE"
  by (rule decrypt_cache_bounded) (simp add: demo_receiver_def MAX_SKIPPED_CACHE_def)





text \<open>
  Skipping runs into the cache cap after \<open>room\<close> keys: the call fails with \<open>Decrypt\<close>, but
  \<open>n_recv\<close> has moved on by \<open>room\<close> while \<open>chain_recv\<close> still holds the chain key of the old index, so
  the counter and the chain key of the receiver no longer belong together.
\<close>

lemma skip_full_desynchronises:
  assumes "chain_recv st = Some ck" "dh_remote st = Some q" "n_recv st \<le> until" "until - n_recv st \<le> MAX_SKIP"
    and "fm_len (skipped st) + room = MAX_SKIPPED_CACHE" "unat (n_recv st) + room < unat until"
    and "\<forall>j. fmlookup (skipped st) (q, j) = None"
  shows "skip_message_keys C st until = (Inl Decrypt, st\<lparr>n_recv := n_recv st + word_of_nat room,
      skipped := cache_keys C q room ck (n_recv st) (skipped st)\<rparr>)"
  using assms skip_loop_full [OF assms(6,5), of q C ck]
  by (simp add: skip_message_keys_def not_less [symmetric])

text \<open>
  Writing a ratchet to bytes and reading it back gives the same ratchet, cached keys included.
\<close>

lemma ratchet_roundtrip:
  "serde_ok S \<Longrightarrow> ratchet_deserialize S (ratchet_serialize S st) = Inr st"
  by (simp add: ratchet_deserialize_def ratchet_serialize_def)

end
