(* ===== verification/Conversation.thy ===== *)
theory Conversation
  imports Ratchet
begin

text \<open>
  Two ends of the Double Ratchet and the network between them, as a step relation: either end may
  encrypt at any time, and the network delivers any packet in flight, in any order, or loses it.
  The invariant ties both ends to one sequence of ratchet keys: the end at epoch \<open>e\<close> holds the
  secret of ratchet key \<open>e\<close> and sends on the chain of epoch \<open>e\<close>, receives on the chain of
  epoch \<open>e - 1\<close>, and the two ends are always exactly one epoch apart. Every packet in flight has
  a message key its receiver can still derive or has cached.
\<close>

record packet =
  pk_header :: ratchet_header
  pk_ct :: bytes
  pk_plain :: bytes

record conv =
  alice :: double_ratchet
  bob :: double_ratchet
  to_alice :: "packet list"
  to_bob :: "packet list"
  used :: "bytes list"
  sent :: nat

text \<open>Whether delivering a packet with this header stays within both skip limits.\<close>

definition limits_ok :: "double_ratchet \<Rightarrow> ratchet_header \<Rightarrow> bool" where
  "limits_ok st h \<longleftrightarrow>
     (if dh_remote st = Some (rh_dh_pub h) then skip_fits st (rh_n h)
      else let g = (if chain_recv st = None then 0 else unat (rh_pn h) - unat (n_recv st))
           in g \<le> unat MAX_SKIP \<and> unat (rh_n h) \<le> unat MAX_SKIP \<and>
              fm_len (skipped st) + g + unat (rh_n h) \<le> MAX_SKIPPED_CACHE)"

definition deliverable :: "double_ratchet \<Rightarrow> ratchet_header \<Rightarrow> bool" where
  "deliverable st h \<longleftrightarrow> fmlookup (skipped st) (rh_dh_pub h, rh_n h) \<noteq> None \<or> limits_ok st h"

definition can_count :: "double_ratchet \<Rightarrow> bool" where
  "can_count st \<longleftrightarrow> unat (n_send st) + 1 < 2 ^ 32"

definition start_conv :: "'c crypto_scheme \<Rightarrow> bytes \<Rightarrow> bytes \<Rightarrow> bytes \<Rightarrow> conv" where
  "start_conv C root k0 k1 =
     \<lparr>alice = init_initiator C k1 root (x25519_public C k0), bob = init_responder C root k0,
      to_alice = [], to_bob = [], used = [x25519_public C k0, x25519_public C k1], sent = 0\<rparr>"

inductive conv_step :: "'c crypto_scheme \<Rightarrow> ratchet_header serde \<Rightarrow> bytes \<Rightarrow> conv \<Rightarrow> conv \<Rightarrow> bool"
  for C S pfx where
  alice_sends: "ratchet_encrypt C S (alice s) pt pfx = (Inr (h, ct), st') \<Longrightarrow> can_count (alice s) \<Longrightarrow>
     conv_step C S pfx s (s\<lparr>alice := st', sent := Suc (sent s),
       to_bob := to_bob s @ [\<lparr>pk_header = h, pk_ct = ct, pk_plain = pt\<rparr>]\<rparr>)"
| bob_sends: "ratchet_encrypt C S (bob s) pt pfx = (Inr (h, ct), st') \<Longrightarrow> can_count (bob s) \<Longrightarrow>
     conv_step C S pfx s (s\<lparr>bob := st', sent := Suc (sent s),
       to_alice := to_alice s @ [\<lparr>pk_header = h, pk_ct = ct, pk_plain = pt\<rparr>]\<rparr>)"
| alice_receives: "p \<in> set (to_alice s) \<Longrightarrow> deliverable (alice s) (pk_header p) \<Longrightarrow>
     x25519_public C new \<notin> set (used s) \<Longrightarrow>
     ratchet_decrypt C S new (alice s) (pk_header p) (pk_ct p) pfx = (r, st') \<Longrightarrow>
     conv_step C S pfx s (s\<lparr>alice := st', to_alice := remove1 p (to_alice s),
       used := dh_self_pub st' # used s\<rparr>)"
| bob_receives: "p \<in> set (to_bob s) \<Longrightarrow> deliverable (bob s) (pk_header p) \<Longrightarrow>
     x25519_public C new \<notin> set (used s) \<Longrightarrow>
     ratchet_decrypt C S new (bob s) (pk_header p) (pk_ct p) pfx = (r, st') \<Longrightarrow>
     conv_step C S pfx s (s\<lparr>bob := st', to_bob := remove1 p (to_bob s),
       used := dh_self_pub st' # used s\<rparr>)"
| lost_to_alice: "p \<in> set (to_alice s) \<Longrightarrow>
     conv_step C S pfx s (s\<lparr>to_alice := remove1 p (to_alice s)\<rparr>)"
| lost_to_bob: "p \<in> set (to_bob s) \<Longrightarrow>
     conv_step C S pfx s (s\<lparr>to_bob := remove1 p (to_bob s)\<rparr>)"

inductive conv_reach :: "'c crypto_scheme \<Rightarrow> ratchet_header serde \<Rightarrow> bytes \<Rightarrow> conv \<Rightarrow> conv \<Rightarrow> bool"
  for C S pfx s0 where
  start: "conv_reach C S pfx s0 s0"
| step: "conv_reach C S pfx s0 s \<Longrightarrow> conv_step C S pfx s s' \<Longrightarrow> conv_reach C S pfx s0 s'"

section \<open>The shared sequence of ratchet keys\<close>

text \<open>
  \<open>K e\<close> is the secret of ratchet key \<open>e\<close>: key 0 is the responder's signed prekey, odd keys are
  the initiator's, even keys the responder's. \<open>epoch e\<close> is the root key and the initial chain
  key of epoch \<open>e\<close>; \<open>cnt e\<close> is the number of messages sent in it so far.
\<close>

definition pubk :: "'c crypto_scheme \<Rightarrow> (nat \<Rightarrow> bytes) \<Rightarrow> nat \<Rightarrow> bytes" where
  "pubk C K e = x25519_public C (K e)"

primrec epoch :: "'c crypto_scheme \<Rightarrow> bytes \<Rightarrow> (nat \<Rightarrow> bytes) \<Rightarrow> nat \<Rightarrow> bytes \<times> bytes" where
  "epoch C root K 0 = (root, [])"
| "epoch C root K (Suc e) = kdf_rk C (fst (epoch C root K e)) (dh C (K (Suc e)) (pubk C K e))"

abbreviation seed :: "'c crypto_scheme \<Rightarrow> bytes \<Rightarrow> (nat \<Rightarrow> bytes) \<Rightarrow> nat \<Rightarrow> bytes" where
  "seed C root K e \<equiv> snd (epoch C root K e)"

definition party :: "'c crypto_scheme \<Rightarrow> bytes \<Rightarrow> (nat \<Rightarrow> bytes) \<Rightarrow> (nat \<Rightarrow> nat) \<Rightarrow> nat
    \<Rightarrow> double_ratchet \<Rightarrow> bool" where
  "party C root K cnt e st \<longleftrightarrow>
     dh_self st = K e \<and> dh_self_pub st = pubk C K e \<and> root_key st = fst (epoch C root K e) \<and>
     unat (n_send st) = cnt e \<and> unat (pn st) = cnt (e - 2) \<and>
     dh_remote st = (if e = 0 then None else Some (pubk C K (e - 1))) \<and>
     chain_send st = (if e = 0 then None else Some (chain_at C (seed C root K e) (cnt e))) \<and>
     chain_recv st = (if e \<le> 1 then None
       else Some (chain_at C (seed C root K (e - 1)) (unat (n_recv st)))) \<and>
     (1 < e \<longrightarrow> unat (n_recv st) \<le> cnt (e - 1))"

definition cache_sound :: "'c crypto_scheme \<Rightarrow> bytes \<Rightarrow> (nat \<Rightarrow> bytes) \<Rightarrow> (nat \<Rightarrow> nat) \<Rightarrow> nat
    \<Rightarrow> double_ratchet \<Rightarrow> bool" where
  "cache_sound C root K cnt e st \<longleftrightarrow>
     (\<forall>q j mk. fmlookup (skipped st) (q, j) = Some mk \<longrightarrow>
        (\<exists>x<e. q = pubk C K x \<and> mk = mk_at C (seed C root K x) (unat j) \<and> unat j < cnt x))"

definition avail :: "'c crypto_scheme \<Rightarrow> (nat \<Rightarrow> bytes) \<Rightarrow> nat \<Rightarrow> double_ratchet \<Rightarrow> nat \<Rightarrow> nat \<Rightarrow> bool" where
  "avail C K e st x i \<longleftrightarrow>
     x = Suc e \<or> (Suc x = e \<and> unat (n_recv st) \<le> i) \<or>
     fmlookup (skipped st) (pubk C K x, word_of_nat i) \<noteq> None"

definition sent_as :: "'c crypto_scheme \<Rightarrow> ratchet_header serde \<Rightarrow> bytes \<Rightarrow> bytes \<Rightarrow> (nat \<Rightarrow> bytes)
    \<Rightarrow> (nat \<Rightarrow> nat) \<Rightarrow> nat \<Rightarrow> nat \<Rightarrow> packet \<Rightarrow> bool" where
  "sent_as C S pfx root K cnt x i p \<longleftrightarrow>
     pk_header p = \<lparr>rh_dh_pub = pubk C K x, rh_pn = word_of_nat (cnt (x - 2)), rh_n = word_of_nat i\<rparr> \<and>
     pk_ct p = aead_seal C (mk_at C (seed C root K x) i) (pk_plain p)
       (associated_data S pfx (pk_header p))"

definition expected :: "'c crypto_scheme \<Rightarrow> ratchet_header serde \<Rightarrow> bytes \<Rightarrow> bytes \<Rightarrow> (nat \<Rightarrow> bytes)
    \<Rightarrow> (nat \<Rightarrow> nat) \<Rightarrow> nat \<Rightarrow> double_ratchet \<Rightarrow> nat \<Rightarrow> nat \<Rightarrow> packet \<Rightarrow> bool" where
  "expected C S pfx root K cnt e st x i p \<longleftrightarrow>
     0 < x \<and> x \<le> Suc e \<and> even x \<noteq> even e \<and> i < cnt x \<and>
     sent_as C S pfx root K cnt x i p \<and> avail C K e st x i"

definition inbound :: "'c crypto_scheme \<Rightarrow> ratchet_header serde \<Rightarrow> bytes \<Rightarrow> bytes \<Rightarrow> (nat \<Rightarrow> bytes)
    \<Rightarrow> (nat \<Rightarrow> nat) \<Rightarrow> nat \<Rightarrow> double_ratchet \<Rightarrow> packet list \<Rightarrow> bool" where
  "inbound C S pfx root K cnt e st ps \<longleftrightarrow>
     distinct (map pk_header ps) \<and>
     (\<forall>p\<in>set ps. \<exists>x i. expected C S pfx root K cnt e st x i p)"

text \<open>The bookkeeping both ends share.\<close>

definition ledger :: "'c crypto_scheme \<Rightarrow> (nat \<Rightarrow> bytes) \<Rightarrow> (nat \<Rightarrow> nat) \<Rightarrow> nat \<Rightarrow> nat \<Rightarrow> bytes list \<Rightarrow> nat
    \<Rightarrow> bool" where
  "ledger C K cnt a b us tot \<longleftrightarrow>
     (a = Suc b \<or> b = Suc a) \<and> inj_on (pubk C K) {..max a b} \<and>
     pubk C K ` {..max a b} \<subseteq> set us \<and> cnt 0 = 0 \<and> (\<forall>x>max a b. cnt x = 0) \<and>
     (\<forall>x. cnt x < 2 ^ 32) \<and> sum cnt {..max a b} = tot"

text \<open>One end's half of the invariant.\<close>

definition half :: "'c crypto_scheme \<Rightarrow> ratchet_header serde \<Rightarrow> bytes \<Rightarrow> bytes \<Rightarrow> (nat \<Rightarrow> bytes)
    \<Rightarrow> (nat \<Rightarrow> nat) \<Rightarrow> nat \<Rightarrow> double_ratchet \<Rightarrow> packet list \<Rightarrow> bool" where
  "half C S pfx root K cnt e st ps \<longleftrightarrow>
     party C root K cnt e st \<and> cache_sound C root K cnt e st \<and>
     inbound C S pfx root K cnt e st ps"

definition conv_inv :: "'c crypto_scheme \<Rightarrow> ratchet_header serde \<Rightarrow> bytes \<Rightarrow> bytes \<Rightarrow> (nat \<Rightarrow> bytes)
    \<Rightarrow> (nat \<Rightarrow> nat) \<Rightarrow> nat \<Rightarrow> nat \<Rightarrow> conv \<Rightarrow> bool" where
  "conv_inv C S pfx root K cnt a b s \<longleftrightarrow>
     ledger C K cnt a b (used s) (sent s) \<and>
     half C S pfx root K cnt a (alice s) (to_alice s) \<and>
     half C S pfx root K cnt b (bob s) (to_bob s)"

text \<open>The receiving end of epoch \<open>x + 1\<close> after skipping forward to message \<open>u\<close> of its chain.\<close>

definition skipped_to :: "'c crypto_scheme \<Rightarrow> bytes \<Rightarrow> (nat \<Rightarrow> bytes) \<Rightarrow> nat \<Rightarrow> u32 \<Rightarrow> double_ratchet
    \<Rightarrow> double_ratchet" where
  "skipped_to C root K x u st = st\<lparr>n_recv := u, chain_recv := Some (chain_at C (seed C root K x) (unat u)),
     skipped := cache_keys C (pubk C K x) (unat u - unat (n_recv st))
       (chain_at C (seed C root K x) (unat (n_recv st))) (n_recv st) (skipped st)\<rparr>"

text \<open>A concrete conversation: the responder's key is \<open>[1]\<close>, the initiator's first key \<open>[2]\<close>.\<close>

definition demo_conv :: conv where
  "demo_conv = start_conv demo_crypto [5] [1] [2]"

definition demo_packet :: "bytes \<Rightarrow> packet" where
  "demo_packet pt = (case ratchet_encrypt demo_crypto demo_header_serde (alice demo_conv) pt [6] of
     (Inr (h, ct), _) \<Rightarrow> \<lparr>pk_header = h, pk_ct = ct, pk_plain = pt\<rparr>
   | (Inl _, _) \<Rightarrow> \<lparr>pk_header = demo_header 0, pk_ct = [], pk_plain = []\<rparr>)"

definition demo_conv_sent :: "bytes \<Rightarrow> conv" where
  "demo_conv_sent pt = demo_conv\<lparr>
     alice := snd (ratchet_encrypt demo_crypto demo_header_serde (alice demo_conv) pt [6]),
     sent := 1, to_bob := [demo_packet pt]\<rparr>"

section \<open>Congruence in the ghost key sequence\<close>

lemma pubk_cong: "K x = K' x \<Longrightarrow> pubk C K x = pubk C K' x"
  by (simp add: pubk_def)

lemma epoch_cong: "(\<And>y. y \<le> x \<Longrightarrow> K y = K' y) \<Longrightarrow> epoch C root K x = epoch C root K' x"
  by (induction x) (simp_all add: pubk_def)

lemma epoch_upd: "x < m \<Longrightarrow> epoch C root (K(m := new)) x = epoch C root K x"
  by (rule epoch_cong) simp

lemma pubk_upd: "x \<noteq> m \<Longrightarrow> pubk C (K(m := new)) x = pubk C K x"
  by (simp add: pubk_def)

lemma party_upd: "e < m \<Longrightarrow> party C root (K(m := new)) cnt e st = party C root K cnt e st"
  by (simp add: party_def epoch_upd pubk_upd)

lemma cache_sound_upd:
  "e \<le> m \<Longrightarrow> cache_sound C root (K(m := new)) cnt e st = cache_sound C root K cnt e st"
  by (simp add: cache_sound_def epoch_upd pubk_upd cong: conj_cong)

lemma expected_upd: "x < m \<Longrightarrow>
  expected C S pfx root (K(m := new)) cnt e st x i p = expected C S pfx root K cnt e st x i p"
  by (simp add: expected_def sent_as_def avail_def epoch_upd pubk_upd)

lemma cache_sound_later:
  "cache_sound C root K cnt e st \<Longrightarrow> e \<le> f \<Longrightarrow> cache_sound C root K cnt f st"
  unfolding cache_sound_def by (meson order_less_le_trans)

section \<open>Packets and their keys\<close>

lemma ledger_cnt:
  assumes "ledger C K cnt a b us tot"
  shows "unat (word_of_nat (cnt x) :: u32) = cnt x" "i < cnt x \<Longrightarrow> unat (word_of_nat i :: u32) = i"
proof -
  have *: "cnt x < 2 ^ 32" using assms by (simp add: ledger_def)
  then show "unat (word_of_nat (cnt x) :: u32) = cnt x" by (rule unat_u32_of_nat)
  show "unat (word_of_nat i :: u32) = i" if "i < cnt x"
    using that * by (intro unat_u32_of_nat) simp
qed

lemma expected_le:
  assumes "ledger C K cnt a b us tot" "expected C S pfx root K cnt e st x i p"
  shows "x \<le> max a b"
proof (rule ccontr)
  assume "\<not> x \<le> max a b"
  then have "cnt x = 0" using assms(1) by (auto simp: ledger_def)
  then show False using assms(2) by (simp add: expected_def)
qed

lemma expected_n [simp]:
  assumes "ledger C K cnt a b us tot" "expected C S pfx root K cnt e st x i p"
  shows "unat (rh_n (pk_header p)) = i" "rh_dh_pub (pk_header p) = pubk C K x"
    "unat (rh_pn (pk_header p)) = cnt (x - 2)"
  using assms(2) ledger_cnt(1) [OF assms(1)] ledger_cnt(2) [OF assms(1), of i x]
  by (simp_all add: expected_def sent_as_def)

lemma expected_same_header:
  assumes L: "ledger C K cnt a b us tot"
    and p: "expected C S pfx root K cnt e st x i p" and q: "expected C S pfx root K cnt e st y j q"
    and eq: "pubk C K x = pubk C K y" "i = j"
  shows "pk_header p = pk_header q"
proof -
  have "x = y"
    using L eq(1) expected_le [OF L p] expected_le [OF L q]
    by (auto simp: ledger_def inj_on_def)
  then show ?thesis using p q eq(2) by (simp add: expected_def sent_as_def)
qed

lemma inbound_remove:
  assumes L: "ledger C K cnt a b us tot"
    and I: "inbound C S pfx root K cnt e st ps" and p: "p \<in> set ps"
    and xp: "expected C S pfx root K cnt e st x i p"
    and keep: "\<And>y j q. expected C S pfx root K cnt e st y j q \<Longrightarrow> (pubk C K y, j) \<noteq> (pubk C K x, i)
      \<Longrightarrow> expected C S pfx root K' cnt e' st' y j q"
  shows "inbound C S pfx root K' cnt e' st' (remove1 p ps)"
proof -
  have d: "distinct ps" using I by (simp add: inbound_def distinct_map)
  have d': "distinct (map pk_header (remove1 p ps))"
    using I by (simp add: inbound_def distinct_map_remove1)
  have "\<exists>y j. expected C S pfx root K' cnt e' st' y j q" if q: "q \<in> set (remove1 p ps)" for q
  proof -
    have "q \<in> set ps" "q \<noteq> p" using q d by auto
    then have "pk_header q \<noteq> pk_header p"
      using I p by (auto simp: inbound_def distinct_map inj_on_def)
    moreover obtain y j where yq: "expected C S pfx root K cnt e st y j q"
      using I \<open>q \<in> set ps\<close> by (auto simp: inbound_def)
    ultimately have "(pubk C K y, j) \<noteq> (pubk C K x, i)"
      using expected_same_header [OF L yq xp] by auto
    then show ?thesis using keep [OF yq] by blast
  qed
  then show ?thesis using d' by (simp add: inbound_def)
qed

lemma half_expected:
  assumes "half C S pfx root K cnt e st ps" "p \<in> set ps"
  obtains x i where "expected C S pfx root K cnt e st x i p"
  using assms unfolding half_def inbound_def by blast

lemma inbound_lost:
  "inbound C S pfx root K cnt e st ps \<Longrightarrow> inbound C S pfx root K cnt e st (remove1 p ps)"
  using notin_set_remove1 by (fastforce simp: inbound_def intro: distinct_map_remove1)

section \<open>Sending\<close>

lemma ledger_sym: "ledger C K cnt a b us tot = ledger C K cnt b a us tot"
  by (auto simp: ledger_def max.commute)

lemma ledger_send:
  assumes "ledger C K cnt a b us tot" "Suc (cnt a) < 2 ^ 32" "0 < a"
  shows "ledger C K (cnt(a := Suc (cnt a))) a b us (Suc tot)"
proof -
  have "sum (cnt(a := Suc (cnt a))) {..max a b} = Suc (sum cnt {..max a b})"
    by (simp add: sum.remove [of _ a])
  then show ?thesis using assms by (auto simp: ledger_def)
qed

lemma encrypt_party:
  assumes "party C root K cnt e st" "ratchet_encrypt C S st pt pfx = (Inr (h, ct), st')"
  shows "0 < e" "h = \<lparr>rh_dh_pub = pubk C K e, rh_pn = word_of_nat (cnt (e - 2)), rh_n = word_of_nat (cnt e)\<rparr>"
    "ct = aead_seal C (mk_at C (seed C root K e) (cnt e)) pt (associated_data S pfx h)"
    "st' = st\<lparr>chain_send := Some (chain_at C (seed C root K e) (Suc (cnt e))), n_send := n_send st + 1\<rparr>"
proof -
  show pos: "0 < e"
    using assms by (cases e) (auto simp: party_def ratchet_encrypt_def)
  have "cnt (e - 2) = unat (pn st)" "cnt e = unat (n_send st)"
    using assms(1) by (simp_all add: party_def)
  then have nat: "word_of_nat (cnt (e - 2)) = pn st" "word_of_nat (cnt e) = n_send st"
    by simp_all
  have cs: "chain_send st = Some (chain_at C (seed C root K e) (cnt e))"
    using assms(1) pos by (simp add: party_def)
  have pub: "dh_self_pub st = pubk C K e" using assms(1) by (simp add: party_def)
  show "h = \<lparr>rh_dh_pub = pubk C K e, rh_pn = word_of_nat (cnt (e - 2)), rh_n = word_of_nat (cnt e)\<rparr>"
    "ct = aead_seal C (mk_at C (seed C root K e) (cnt e)) pt (associated_data S pfx h)"
    "st' = st\<lparr>chain_send := Some (chain_at C (seed C root K e) (Suc (cnt e))), n_send := n_send st + 1\<rparr>"
    using assms(2) by (auto simp: ratchet_encrypt_def cs kdf_ck_chain Let_def nat pub)
qed

lemma expected_count:
  assumes "expected C S pfx root K cnt e st x i p" "x - 2 \<noteq> a"
    and "n_recv st' = n_recv st" "skipped st' = skipped st"
  shows "expected C S pfx root K (cnt(a := Suc (cnt a))) e st' x i p"
  using assms by (auto simp: expected_def sent_as_def avail_def)

lemma cache_sound_count:
  "cache_sound C root K cnt e st \<Longrightarrow> skipped st' = skipped st \<Longrightarrow>
   cache_sound C root K (cnt(a := Suc (cnt a))) e st'"
  by (fastforce simp: cache_sound_def)

lemma half_send_own:
  assumes H: "half C S pfx root K cnt e st ps" and enc: "ratchet_encrypt C S st pt pfx = (Inr (h, ct), st')"
    and room: "can_count st"
  shows "half C S pfx root K (cnt(e := Suc (cnt e))) e st' ps"
proof -
  have P: "party C root K cnt e st" using H by (simp add: half_def)
  note E = encrypt_party [OF P enc]
  have "unat (n_send st') = Suc (cnt e)"
    using room P by (simp add: E(4) can_count_def party_def unat_word_ariths)
  then have "party C root K (cnt(e := Suc (cnt e))) e st'"
    using P E(1) by (auto simp: party_def E(4))
  moreover have "cache_sound C root K (cnt(e := Suc (cnt e))) e st'"
    using H by (intro cache_sound_count [of C root K cnt e st]) (simp_all add: half_def E(4))
  moreover have "expected C S pfx root K (cnt(e := Suc (cnt e))) e st' x i p"
    if "expected C S pfx root K cnt e st x i p" for x i p
  proof (rule expected_count [OF that])
    show "x - 2 \<noteq> e" using that E(1) by (auto simp: expected_def)
  qed (simp_all add: E(4))
  then have "inbound C S pfx root K (cnt(e := Suc (cnt e))) e st' ps"
    using H by (auto simp: half_def inbound_def) blast
  ultimately show ?thesis by (simp add: half_def)
qed

lemma half_send_peer:
  assumes L: "ledger C K cnt e f us tot" and P: "party C root K cnt e st"
    and H: "half C S pfx root K cnt f g ps"
    and enc: "ratchet_encrypt C S st pt pfx = (Inr (h, ct), st')"
  shows "half C S pfx root K (cnt(e := Suc (cnt e))) f g (ps @ [\<lparr>pk_header = h, pk_ct = ct, pk_plain = pt\<rparr>])"
    (is "half C S pfx root K ?cnt f g (ps @ [?p])")
proof -
  note E = encrypt_party [OF P enc]
  have ef: "e = Suc f \<or> f = Suc e" using L by (simp add: ledger_def)
  have Pg: "party C root K cnt f g" using H by (simp add: half_def)
  have 1: "party C root K ?cnt f g"
    using Pg ef E(1) by (auto simp: party_def)
  have 2: "cache_sound C root K ?cnt f g"
    using H by (intro cache_sound_count [of C root K cnt f g]) (simp_all add: half_def)
  have old: "expected C S pfx root K ?cnt f g x i p" if X: "expected C S pfx root K cnt f g x i p" for x i p
  proof (rule expected_count [OF X])
    show "x - 2 \<noteq> e" using X expected_le [OF L X] ef E(1) by (auto simp: expected_def)
  qed simp_all
  have new: "expected C S pfx root K ?cnt f g e (cnt e) ?p"
    using ef E(1) Pg by (auto simp: expected_def sent_as_def E(2,3) avail_def party_def)
  have "pk_header q \<noteq> h" if "q \<in> set ps" for q
  proof
    assume eq: "pk_header q = h"
    obtain x i where X: "expected C S pfx root K cnt f g x i q"
      using H \<open>q \<in> set ps\<close> by (rule half_expected)
    have "pubk C K x = pubk C K e" "i = cnt e"
      using expected_n [OF L X] ledger_cnt(1) [OF L] by (simp_all add: eq E(2))
    moreover have "x = e"
      using L expected_le [OF L X] calculation(1) by (auto simp: ledger_def inj_on_def)
    ultimately show False using X by (simp add: expected_def)
  qed
  then have "distinct (map pk_header (ps @ [?p]))"
    using H by (auto simp: half_def inbound_def)
  moreover have "\<exists>x i. expected C S pfx root K ?cnt f g x i q" if "q \<in> set (ps @ [?p])" for q
    using that old new H by (auto simp: half_def inbound_def) blast+
  ultimately show ?thesis using 1 2 by (simp add: half_def inbound_def)
qed

section \<open>Receiving a packet whose key is cached\<close>

lemma decrypt_cached:
  "fmlookup (skipped st) (rh_dh_pub h, rh_n h) = Some mk \<Longrightarrow>
   ratchet_decrypt C S new st h ct pfx =
     (aead_open C mk ct (associated_data S pfx h),
      st\<lparr>skipped := fmdrop (rh_dh_pub h, rh_n h) (skipped st)\<rparr>)"
  by (simp add: ratchet_decrypt_def Let_def)

lemma half_recv_cached:
  assumes A: "aead_ok C" and L: "ledger C K cnt e f us tot" and H: "half C S pfx root K cnt e st ps"
    and p: "p \<in> set ps" and k: "fmlookup (skipped st) (rh_dh_pub (pk_header p), rh_n (pk_header p)) \<noteq> None"
    and dec: "ratchet_decrypt C S new st (pk_header p) (pk_ct p) pfx = (r, st')"
  shows "r = Inr (pk_plain p)" "half C S pfx root K cnt e st' (remove1 p ps)"
    "dh_self_pub st' = dh_self_pub st"
proof -
  obtain x i where X: "expected C S pfx root K cnt e st x i p"
    using H p by (rule half_expected)
  note N = expected_n [OF L X]
  obtain mk where mk: "fmlookup (skipped st) (pubk C K x, rh_n (pk_header p)) = Some mk"
    using k N(2) by auto
  have D: "r = aead_open C mk (pk_ct p) (associated_data S pfx (pk_header p))"
    "st' = st\<lparr>skipped := fmdrop (pubk C K x, rh_n (pk_header p)) (skipped st)\<rparr>"
    using dec decrypt_cached [of st "pk_header p" mk C S new "pk_ct p" pfx] mk N(2) by simp_all
  have CS: "cache_sound C root K cnt e st" using H by (simp add: half_def)
  then obtain y where y: "y < e" "pubk C K x = pubk C K y"
    "mk = mk_at C (seed C root K y) (unat (rh_n (pk_header p)))"
    using mk unfolding cache_sound_def by blast
  have "x = y"
    using L expected_le [OF L X] y(1,2) by (auto simp: ledger_def inj_on_def)
  then have "mk = mk_at C (seed C root K x) i" using y(3) N(1) by simp
  then show "r = Inr (pk_plain p)"
    using X A by (simp add: D(1) expected_def sent_as_def)
  have "inbound C S pfx root K cnt e st' (remove1 p ps)"
  proof (rule inbound_remove [OF L _ p X])
    show "inbound C S pfx root K cnt e st ps" using H by (simp add: half_def)
    fix z j q
    assume Z: "expected C S pfx root K cnt e st z j q" and ne: "(pubk C K z, j) \<noteq> (pubk C K x, i)"
    have "(pubk C K z, word_of_nat j) \<noteq> (pubk C K x, rh_n (pk_header p))"
      using ne expected_n(1) [OF L X] ledger_cnt(2) [OF L, of j z] Z
      by (auto simp: expected_def)
    then show "expected C S pfx root K cnt e st' z j q"
      using Z by (auto simp: expected_def avail_def D(2))
  qed
  moreover have "party C root K cnt e st'" using H by (simp add: half_def party_def D(2))
  moreover have "cache_sound C root K cnt e st'"
    using CS by (auto simp: cache_sound_def D(2) split: if_splits)
  ultimately show "half C S pfx root K cnt e st' (remove1 p ps)" by (simp add: half_def)
  show "dh_self_pub st' = dh_self_pub st" by (simp add: D(2))
qed

section \<open>Receiving on the current chain\<close>

text \<open>Filling the cache up to index \<open>m\<close> of the current chain keeps every other packet available.\<close>

lemma cache_sound_fill:
  assumes CS: "cache_sound C root K cnt e st" and x: "Suc x = e"
    and m: "m \<le> cnt x" "m < 2 ^ 32" "unat (n_recv st) \<le> m"
    and sk: "skipped st' = cache_keys C (pubk C K x) (m - unat (n_recv st))
      (chain_at C (seed C root K x) (unat (n_recv st))) (n_recv st) (skipped st)"
  shows "cache_sound C root K cnt e st'"
  unfolding cache_sound_def
proof (intro allI impI)
  fix q j mk
  assume look: "fmlookup (skipped st') (q, j) = Some mk"
  let ?nr = "unat (n_recv st)"
  have bound: "?nr + (m - ?nr) < 2 ^ 32" using m by simp
  show "\<exists>y<e. q = pubk C K y \<and> mk = mk_at C (seed C root K y) (unat j) \<and> unat j < cnt y"
  proof (cases "q = pubk C K x \<and> ?nr \<le> unat j \<and> unat j < ?nr + (m - ?nr)")
    case True
    then have "mk = mk_at C (seed C root K x) (unat j)"
      using look unfolding sk fmlookup_cache_keys [OF bound] by (simp add: mk_at_add)
    then show ?thesis using True x m by (intro exI [of _ x]) auto
  next
    case False
    then have "fmlookup (skipped st) (q, j) = Some mk"
      using look unfolding sk fmlookup_cache_keys [OF bound] by auto
    then show ?thesis using CS unfolding cache_sound_def by blast
  qed
qed

lemma fill_cached:
  assumes m: "m < 2 ^ 32" "unat (n_recv st) \<le> m" and j: "j < 2 ^ 32"
    and av: "fmlookup (skipped st) (pubk C K z, word_of_nat j) \<noteq> None \<or>
      (z = x \<and> unat (n_recv st) \<le> j \<and> j < m)"
  shows "fmlookup (cache_keys C (pubk C K x) (m - unat (n_recv st)) ck (n_recv st) (skipped st))
    (pubk C K z, word_of_nat j) \<noteq> None"
  using m av unat_u32_of_nat [OF j] by (auto simp: fmlookup_cache_keys)

text \<open>Skipping within the messages sent so far keeps one end's half of the invariant.\<close>

lemma skip_party:
  assumes P: "party C root K cnt e st" and x: "Suc x = e" "0 < x"
    and u: "n_recv st \<le> u" and fits: "skip_fits st u"
  shows "skip_message_keys C st u = (Inr (), skipped_to C root K x u st)"
proof -
  have st: "chain_recv st = Some (chain_at C (seed C root K x) (unat (n_recv st)))"
    "dh_remote st = Some (pubk C K x)"
    using P x by (auto simp: party_def)
  show ?thesis
    using skip_forward [OF st u fits, where C = C] u
    by (simp add: skipped_to_def word_le_nat_alt chain_at_add)
qed

lemma half_skipped_to:
  assumes L: "ledger C K cnt e f us tot" and H: "half C S pfx root K cnt e st ps"
    and x: "Suc x = e" "0 < x" and u: "n_recv st \<le> u" "unat u \<le> cnt x"
  shows "half C S pfx root K cnt e (skipped_to C root K x u st) ps"
    (is "half C S pfx root K cnt e ?st ps")
proof -
  let ?nr = "unat (n_recv st)"
  have nr: "?nr \<le> unat u" "unat u < 2 ^ 32"
    using u(1) unsigned_less [where 'a = nat, of u] by (simp_all add: word_le_nat_alt)
  have "party C root K cnt e ?st"
    using H x u by (auto simp: half_def party_def skipped_to_def)
  moreover have "cache_sound C root K cnt e ?st"
    by (rule cache_sound_fill [of C root K cnt e st x "unat u"])
      (use H x u nr in \<open>auto simp: half_def skipped_to_def\<close>)
  moreover have "expected C S pfx root K cnt e ?st y i p"
    if Y: "expected C S pfx root K cnt e st y i p" for y i p
  proof -
    have "i < cnt y" "cnt y < 2 ^ 32" using Y L by (simp_all add: expected_def ledger_def)
    then have i: "i < 2 ^ 32" by simp
    have "avail C K e ?st y i"
      using Y x fill_cached [OF nr(2,1) i, of C K y x "chain_at C (seed C root K x) ?nr"]
      by (cases "unat u \<le> i") (auto simp: expected_def avail_def skipped_to_def)
    then show ?thesis using Y by (simp add: expected_def)
  qed
  then have "inbound C S pfx root K cnt e ?st ps"
    using H unfolding half_def inbound_def by blast
  ultimately show ?thesis by (simp add: half_def)
qed

lemma half_recv_next:
  assumes L: "ledger C K cnt e f us tot" and H: "half C S pfx root K cnt e st ps"
    and p: "p \<in> set ps" and X: "expected C S pfx root K cnt e st x i p"
    and cur: "Suc x = e" "unat (n_recv st) = i"
  defines "st' \<equiv> st\<lparr>chain_recv := Some (chain_at C (seed C root K x) (Suc i)), n_recv := n_recv st + 1\<rparr>"
  shows "half C S pfx root K cnt e st' (remove1 p ps)"
proof -
  have x: "0 < x" "i < cnt x" "cnt x < 2 ^ 32" using X L by (simp_all add: expected_def ledger_def)
  have nr': "unat (n_recv st') = Suc i" using x cur by (simp add: st'_def unat_word_ariths)
  have "party C root K cnt e st'"
    using H cur(1) x nr' by (auto simp: half_def party_def st'_def)
  moreover have "cache_sound C root K cnt e st'"
    using H by (simp add: half_def cache_sound_def st'_def)
  moreover have "inbound C S pfx root K cnt e st' (remove1 p ps)"
  proof (rule inbound_remove [OF L _ p X])
    show "inbound C S pfx root K cnt e st ps" using H by (simp add: half_def)
    fix z j q
    assume Z: "expected C S pfx root K cnt e st z j q" and ne: "(pubk C K z, j) \<noteq> (pubk C K x, i)"
    then have "avail C K e st' z j"
      using cur nr' by (auto simp: expected_def avail_def st'_def)
    then show "expected C S pfx root K cnt e st' z j q" using Z by (simp add: expected_def)
  qed
  ultimately show ?thesis by (simp add: half_def)
qed

lemma half_recv_advance:
  assumes A: "aead_ok C" and L: "ledger C K cnt e f us tot" and H: "half C S pfx root K cnt e st ps"
    and p: "p \<in> set ps" and X: "expected C S pfx root K cnt e st x i p"
    and cur: "Suc x = e" "unat (n_recv st) \<le> i" and fits: "skip_fits st (rh_n (pk_header p))"
    and adv: "ratchet_advance C st (pk_header p) (pk_ct p) (associated_data S pfx (pk_header p)) = (r, st')"
  shows "r = Inr (pk_plain p)" "half C S pfx root K cnt e st' (remove1 p ps)"
    "dh_self_pub st' = dh_self_pub st"
proof -
  let ?u = "rh_n (pk_header p)"
  define st1 where "st1 = skipped_to C root K x ?u st"
  have P: "party C root K cnt e st" using H by (simp add: half_def)
  have x: "0 < x" "i < cnt x" using X by (simp_all add: expected_def)
  have u: "unat ?u = i" "n_recv st \<le> ?u"
    using expected_n [OF L X] cur(2) by (simp_all add: word_le_nat_alt)
  have st1: "n_recv st1 = ?u" "chain_recv st1 = Some (chain_at C (seed C root K x) i)"
    "dh_self_pub st1 = dh_self_pub st"
    by (simp_all add: st1_def skipped_to_def u(1))
  have skip: "skip_message_keys C st ?u = (Inr (), st1)"
    unfolding st1_def by (rule skip_party [OF P cur(1) x(1) u(2) fits])
  have "r = aead_open C (mk_at C (seed C root K x) i) (pk_ct p) (associated_data S pfx (pk_header p))"
    and st': "st' = st1\<lparr>chain_recv := Some (chain_at C (seed C root K x) (Suc i)), n_recv := n_recv st1 + 1\<rparr>"
    using adv by (auto simp: ratchet_advance_def skip kdf_ck_chain Let_def st1)
  then show "r = Inr (pk_plain p)" using X A by (simp add: expected_def sent_as_def)
  show "dh_self_pub st' = dh_self_pub st" by (simp add: st' st1)
  have H1: "half C S pfx root K cnt e st1 ps"
    unfolding st1_def by (rule half_skipped_to [OF L H cur(1) x(1) u(2)]) (use u(1) x(2) in simp)
  moreover have "expected C S pfx root K cnt e st1 x i p"
    using X u(1) cur(1) st1(1) by (simp add: expected_def avail_def)
  ultimately show "half C S pfx root K cnt e st' (remove1 p ps)"
    unfolding st' by (rule half_recv_next [OF L _ p]) (use cur(1) st1(1) u(1) in simp_all)
qed

section \<open>Turning the Diffie-Hellman ratchet\<close>

text \<open>Before the turn the rest of the old receiving chain is cached.\<close>

lemma half_finish_chain:
  assumes L: "ledger C K cnt e (Suc e) us tot" and H: "half C S pfx root K cnt e st ps"
    and u: "unat u = cnt (e - 1)" and fits: "chain_recv st \<noteq> None \<Longrightarrow> skip_fits st u"
  obtains st' where "skip_message_keys C st u = (Inr (), st')" "half C S pfx root K cnt e st' ps"
    "\<And>z j q. Suc z = e \<Longrightarrow> expected C S pfx root K cnt e st' z j q \<Longrightarrow>
       fmlookup (skipped st') (pubk C K z, word_of_nat j) \<noteq> None"
    "fm_len (skipped st') \<le> fm_len (skipped st) +
       (if chain_recv st = None then 0 else unat u - unat (n_recv st))"
proof (cases "e \<le> 1")
  case True
  have "chain_recv st = None" using H True by (simp add: half_def party_def)
  then show ?thesis
    using that [of st] H True by (auto simp: skip_no_chain expected_def)
next
  case False
  define x where "x = e - 1"
  have x: "Suc x = e" "0 < x" using False by (auto simp: x_def)
  have P: "party C root K cnt e st" using H by (simp add: half_def)
  have nu: "n_recv st \<le> u" "unat u \<le> cnt x" and cr: "chain_recv st \<noteq> None"
    using P False u by (auto simp: party_def x_def word_le_nat_alt)
  let ?st = "skipped_to C root K x u st"
  show ?thesis
  proof (rule that)
    show "skip_message_keys C st u = (Inr (), ?st)" by (rule skip_party [OF P x nu(1) fits [OF cr]])
    show "half C S pfx root K cnt e ?st ps" by (rule half_skipped_to [OF L H x nu])
    show "fmlookup (skipped ?st) (pubk C K z, word_of_nat j) \<noteq> None"
      if "Suc z = e" "expected C S pfx root K cnt e ?st z j q" for z j q
      using that u by (auto simp: expected_def avail_def skipped_to_def)
    show "fm_len (skipped ?st) \<le> fm_len (skipped st) +
        (if chain_recv st = None then 0 else unat u - unat (n_recv st))"
      using fm_len_cache_keys cr by (auto simp: skipped_to_def)
  qed
qed

lemma dh_shared: "dh_ok C \<Longrightarrow> dh C (K e) (pubk C K (Suc e)) = dh C (K (Suc e)) (pubk C K e)"
  by (simp add: dh_def pubk_def dh_ok_def)

lemma party_turn:
  fixes new :: bytes
  assumes D: "dh_ok C" and P: "party C root K cnt e st" and z: "cnt (Suc (Suc e)) = 0"
  defines "K' \<equiv> K(Suc (Suc e) := new)"
  shows "party C root K' cnt (Suc (Suc e)) (dh_ratchet C new st (pubk C K (Suc e)))"
proof -
  obtain rk1 cr where E1: "epoch C root K (Suc e) = (rk1, cr)" by fastforce
  obtain rk2 cs where E2: "epoch C root K' (Suc (Suc e)) = (rk2, cs)" by fastforce
  have E1': "epoch C root K' (Suc e) = (rk1, cr)"
    using E1 epoch_upd [of "Suc e" "Suc (Suc e)" C root K new] by (simp add: K'_def)
  have P1: "pubk C K' (Suc e) = pubk C K (Suc e)" by (simp add: K'_def pubk_upd)
  have "root_key st = fst (epoch C root K e)" "dh_self st = K e"
    using P by (simp_all add: party_def)
  then have k1: "kdf_rk C (root_key st) (dh C (dh_self st) (pubk C K (Suc e))) = (rk1, cr)"
    using E1 by (simp add: dh_shared [OF D])
  have new: "K' (Suc (Suc e)) = new" "pubk C K' (Suc (Suc e)) = x25519_public C new"
    by (simp_all add: K'_def pubk_def)
  then have k2: "kdf_rk C rk1 (dh C new (pubk C K (Suc e))) = (rk2, cs)"
    using E2 unfolding epoch.simps(2) [of C root K' "Suc e"] E1' P1 by simp
  have "unat (n_send st) = cnt e" using P by (simp add: party_def)
  then show ?thesis
    using z by (simp add: party_def dh_ratchet_def k1 k2 E1' E2 P1 new chain_at.simps
        del: epoch.simps)
qed

lemma ledger_turn:
  assumes L: "ledger C K cnt e (Suc e) us tot" and fresh: "x25519_public C new \<notin> set us"
  shows "ledger C (K(Suc (Suc e) := new)) cnt (Suc (Suc e)) (Suc e) (x25519_public C new # us) tot"
proof -
  let ?K = "K(Suc (Suc e) := new)"
  have old: "pubk C ?K x = pubk C K x" if "x \<le> Suc e" for x using that by (simp add: pubk_upd)
  have new: "pubk C ?K (Suc (Suc e)) = x25519_public C new" by (simp add: pubk_def)
  have im: "pubk C ?K ` {..Suc e} = pubk C K ` {..Suc e}" by (simp add: old)
  have sub: "pubk C K ` {..Suc e} \<subseteq> set us" and inj: "inj_on (pubk C K) {..Suc e}"
    using L by (simp_all add: ledger_def max_def)
  have "inj_on (pubk C ?K) {..Suc e}"
    using inj inj_on_cong [of "{..Suc e}" "pubk C ?K" "pubk C K"] old by simp
  then have "inj_on (pubk C ?K) {..Suc (Suc e)}"
    using sub fresh im by (auto simp: atMost_Suc [of "Suc e"] new)
  then show ?thesis
    using L sub im by (auto simp: ledger_def max_def new atMost_Suc [of "Suc e"])
qed

lemma half_turn:
  fixes new :: bytes
  assumes D: "dh_ok C" and L: "ledger C K cnt e (Suc e) us tot" and H: "half C S pfx root K cnt e st ps"
    and cached: "\<And>z j q. Suc z = e \<Longrightarrow> expected C S pfx root K cnt e st z j q \<Longrightarrow>
       fmlookup (skipped st) (pubk C K z, word_of_nat j) \<noteq> None"
  defines "K' \<equiv> K(Suc (Suc e) := new)" and "st' \<equiv> dh_ratchet C new st (pubk C K (Suc e))"
  shows "half C S pfx root K' cnt (Suc (Suc e)) st' ps"
proof -
  have st': "skipped st' = skipped st" "n_recv st' = 0"
    by (simp_all add: st'_def dh_ratchet_def Let_def split: prod.split)
  have "cnt (Suc (Suc e)) = 0" using L by (simp add: ledger_def)
  then have "party C root K' cnt (Suc (Suc e)) st'"
    using party_turn [OF D] H by (simp add: half_def K'_def st'_def)
  moreover have "cache_sound C root K' cnt e st'"
    using H by (simp add: half_def K'_def cache_sound_upd) (simp add: cache_sound_def st')
  then have "cache_sound C root K' cnt (Suc (Suc e)) st'"
    by (rule cache_sound_later) simp
  moreover have "expected C S pfx root K' cnt (Suc (Suc e)) st' z j q"
    if Z: "expected C S pfx root K cnt e st z j q" for z j q
  proof -
    have "avail C K (Suc (Suc e)) st' z j"
      using Z cached [OF _ Z] by (auto simp: expected_def avail_def st')
    then have "expected C S pfx root K cnt (Suc (Suc e)) st' z j q"
      using Z by (simp add: expected_def)
    then show ?thesis
      using Z by (simp add: K'_def expected_upd expected_def [of _ _ _ _ _ _ e])
  qed
  then have "inbound C S pfx root K' cnt (Suc (Suc e)) st' ps"
    using H unfolding half_def inbound_def by blast
  ultimately show ?thesis by (simp add: half_def)
qed

lemma half_upd:
  assumes L: "ledger C K cnt e f us tot" and H: "half C S pfx root K cnt f g qs" and m: "max e f < m"
  shows "half C S pfx root (K(m := new)) cnt f g qs"
proof -
  have "expected C S pfx root (K(m := new)) cnt f g x i q"
    if X: "expected C S pfx root K cnt f g x i q" for x i q
    using X le_less_trans [OF expected_le [OF L X] m] by (simp add: expected_upd)
  then have "inbound C S pfx root (K(m := new)) cnt f g qs"
    using H unfolding half_def inbound_def by blast
  then show ?thesis using H m by (simp add: half_def party_upd cache_sound_upd)
qed

section \<open>Receiving any packet in flight\<close>

lemma ledger_used: "ledger C K cnt e f us tot \<Longrightarrow> ledger C K cnt e f (u # us) tot"
  by (auto simp: ledger_def)

lemma recv_same_epoch:
  assumes A: "aead_ok C" and L: "ledger C K cnt e f us tot" and H: "half C S pfx root K cnt e st ps"
    and p: "p \<in> set ps" and X: "expected C S pfx root K cnt e st x i p" and x: "x \<noteq> Suc e"
    and ok: "deliverable st (pk_header p)"
    and dec: "ratchet_decrypt C S new st (pk_header p) (pk_ct p) pfx = (r, st')"
  shows "r = Inr (pk_plain p) \<and> half C S pfx root K cnt e st' (remove1 p ps) \<and>
    dh_self_pub st' = dh_self_pub st"
proof (cases "fmlookup (skipped st) (rh_dh_pub (pk_header p), rh_n (pk_header p))")
  case (Some mk)
  then show ?thesis using half_recv_cached [OF A L H p _ dec] by simp
next
  case None
  have hdr: "rh_dh_pub (pk_header p) = pubk C K x" "rh_n (pk_header p) = word_of_nat i"
    using X by (simp_all add: expected_def sent_as_def)
  have cur: "Suc x = e" "unat (n_recv st) \<le> i"
    using X None x hdr by (auto simp: expected_def avail_def)
  have rem: "dh_remote st = Some (rh_dh_pub (pk_header p))"
    using H cur(1) hdr by (auto simp: half_def party_def)
  have fits: "skip_fits st (rh_n (pk_header p))"
    using ok None rem by (simp add: deliverable_def limits_ok_def)
  have "ratchet_advance C st (pk_header p) (pk_ct p) (associated_data S pfx (pk_header p)) = (r, st')"
    using dec None rem by (simp add: ratchet_decrypt_def ratchet_turn_def Let_def)
  then show ?thesis using half_recv_advance [OF A L H p X cur fits] by simp
qed

text \<open>A packet of the next epoch: finish the old chain, turn the ratchet, advance the new chain.\<close>

lemma next_epoch_unknown:
  assumes L: "ledger C K cnt e f us tot" and H: "half C S pfx root K cnt e st ps"
    and X: "expected C S pfx root K cnt e st (Suc e) i p"
  shows "f = Suc e" "fmlookup (skipped st) (rh_dh_pub (pk_header p), rh_n (pk_header p)) = None"
    "dh_remote st \<noteq> Some (rh_dh_pub (pk_header p))"
proof -
  have h: "rh_dh_pub (pk_header p) = pubk C K (Suc e)" by (rule expected_n(2) [OF L X])
  show f: "f = Suc e" using L expected_le [OF L X] by (auto simp: ledger_def)
  have other: "pubk C K y \<noteq> pubk C K (Suc e)" if "y < Suc e" for y
    using L f that by (auto simp: ledger_def inj_on_def)
  show "dh_remote st \<noteq> Some (rh_dh_pub (pk_header p))"
    using H other [of "e - 1"] by (simp add: half_def party_def h)
  show "fmlookup (skipped st) (rh_dh_pub (pk_header p), rh_n (pk_header p)) = None"
  proof (rule ccontr)
    assume "fmlookup (skipped st) (rh_dh_pub (pk_header p), rh_n (pk_header p)) \<noteq> None"
    then obtain y where "y < e" "pubk C K (Suc e) = pubk C K y"
      using H unfolding half_def cache_sound_def h by blast
    then show False using other [of y] by simp
  qed
qed

lemma dh_ratchet_facts:
  "skipped (dh_ratchet C new st q) = skipped st" "n_recv (dh_ratchet C new st q) = 0"
  "dh_self_pub (dh_ratchet C new st q) = x25519_public C new"
  by (simp_all add: dh_ratchet_def Let_def split: prod.split)

lemma turn_expected:
  assumes L: "ledger C K cnt e (Suc e) us tot" and X: "expected C S pfx root K cnt e st (Suc e) i p"
    and z: "n_recv st' = 0"
  shows "expected C S pfx root (K(Suc (Suc e) := new)) cnt (Suc (Suc e)) st' (Suc e) i p"
proof -
  have "expected C S pfx root K cnt (Suc (Suc e)) st' (Suc e) i p"
    using X z by (simp add: expected_def avail_def)
  then show ?thesis by (simp add: expected_upd)
qed

lemma recv_new_epoch:
  assumes A: "aead_ok C" and D: "dh_ok C" and L: "ledger C K cnt e f us tot"
    and H: "half C S pfx root K cnt e st ps" and G: "half C S pfx root K cnt f g qs"
    and p: "p \<in> set ps" and X: "expected C S pfx root K cnt e st (Suc e) i p"
    and ok: "deliverable st (pk_header p)" and fresh: "x25519_public C new \<notin> set us"
    and dec: "ratchet_decrypt C S new st (pk_header p) (pk_ct p) pfx = (r, st')"
  defines "K' \<equiv> K(Suc (Suc e) := new)"
  shows "r = Inr (pk_plain p) \<and> ledger C K' cnt (Suc (Suc e)) f (dh_self_pub st' # us) tot \<and>
    half C S pfx root K' cnt (Suc (Suc e)) st' (remove1 p ps) \<and> half C S pfx root K' cnt f g qs"
proof -
  let ?h = "pk_header p"
  note N = expected_n [OF L X] and U = next_epoch_unknown [OF L H X]
  have L': "ledger C K cnt e (Suc e) us tot" using L U(1) by simp
  have lim: "chain_recv st \<noteq> None \<Longrightarrow> skip_fits st (rh_pn ?h)" "unat (rh_n ?h) \<le> unat MAX_SKIP"
    "fm_len (skipped st) + (if chain_recv st = None then 0 else unat (rh_pn ?h) - unat (n_recv st)) +
     unat (rh_n ?h) \<le> MAX_SKIPPED_CACHE"
    using ok U(2,3) by (auto simp: deliverable_def limits_ok_def skip_fits_def Let_def split: if_splits)
  have pn: "unat (rh_pn ?h) = cnt (e - 1)" using N(3) by simp
  obtain st1 where S1: "skip_message_keys C st (rh_pn ?h) = (Inr (), st1)"
    "half C S pfx root K cnt e st1 ps"
    "\<And>z j q. Suc z = e \<Longrightarrow> expected C S pfx root K cnt e st1 z j q \<Longrightarrow>
       fmlookup (skipped st1) (pubk C K z, word_of_nat j) \<noteq> None"
    "fm_len (skipped st1) \<le> fm_len (skipped st) +
       (if chain_recv st = None then 0 else unat (rh_pn ?h) - unat (n_recv st))"
    using half_finish_chain [OF L' H pn lim(1)] by blast
  define st2 where "st2 = dh_ratchet C new st1 (pubk C K (Suc e))"
  have H2: "half C S pfx root K' cnt (Suc (Suc e)) st2 ps"
    unfolding K'_def st2_def by (rule half_turn [OF D L' S1(2,3)])
  have st2: "skipped st2 = skipped st1" "n_recv st2 = 0" "dh_self_pub st2 = x25519_public C new"
    by (simp_all add: st2_def dh_ratchet_facts)
  have L2: "ledger C K' cnt (Suc (Suc e)) (Suc e) (x25519_public C new # us) tot"
    unfolding K'_def by (rule ledger_turn [OF L' fresh])
  have X2: "expected C S pfx root K' cnt (Suc (Suc e)) st2 (Suc e) i p"
    unfolding K'_def by (rule turn_expected [OF L' X st2(2)])
  have fits: "skip_fits st2 (rh_n ?h)" using lim(2,3) S1(4) by (simp add: skip_fits_def st2)
  have adv: "ratchet_advance C st2 ?h (pk_ct p) (associated_data S pfx ?h) = (r, st')"
    using dec U(2,3) S1(1) N(2) by (simp add: ratchet_decrypt_def ratchet_turn_def Let_def st2_def)
  have nr: "unat (n_recv st2) \<le> i" by (simp add: st2)
  note R = half_recv_advance [OF A L2 H2 p X2 refl nr fits adv]
  have "half C S pfx root K' cnt f g qs"
    unfolding K'_def using L G by (rule half_upd) (use U(1) in simp)
  then show ?thesis using R L2 U(1) st2(3) by simp
qed

text \<open>
  One end receives a packet: the plaintext comes out and, for a suitable extension of the key
  sequence, both halves of the invariant hold again.
\<close>

lemma recv_any:
  assumes A: "aead_ok C" and D: "dh_ok C" and L: "ledger C K cnt e f us tot"
    and H: "half C S pfx root K cnt e st ps" and G: "half C S pfx root K cnt f g qs"
    and p: "p \<in> set ps" and ok: "deliverable st (pk_header p)"
    and fresh: "x25519_public C new \<notin> set us"
    and dec: "ratchet_decrypt C S new st (pk_header p) (pk_ct p) pfx = (r, st')"
  shows "r = Inr (pk_plain p) \<and> (\<exists>K' e'. ledger C K' cnt e' f (dh_self_pub st' # us) tot \<and>
    half C S pfx root K' cnt e' st' (remove1 p ps) \<and> half C S pfx root K' cnt f g qs)"
proof -
  obtain x i where X: "expected C S pfx root K cnt e st x i p" using H p by (rule half_expected)
  show ?thesis
  proof (cases "x = Suc e")
    case True
    then show ?thesis using recv_new_epoch [OF A D L H G p _ ok fresh dec] X by blast
  next
    case False
    then show ?thesis
      using recv_same_epoch [OF A L H p X False ok dec] G ledger_used [OF L] by blast
  qed
qed

section \<open>The invariant of the conversation\<close>

lemma conv_inv_start:
  assumes "x25519_public C k0 \<noteq> x25519_public C k1"
  shows "conv_inv C S pfx root ((\<lambda>_. k0)(1 := k1)) (\<lambda>_. 0) 1 0 (start_conv C root k0 k1)"
  using assms
  by (auto simp: conv_inv_def ledger_def half_def party_def cache_sound_def inbound_def start_conv_def
      init_initiator_def init_responder_def pubk_def chain_at.simps atMost_Suc split: prod.split)

lemma conv_step_inv:
  assumes "conv_step C S pfx s s'" and A: "aead_ok C" and D: "dh_ok C"
    and I: "conv_inv C S pfx root K cnt a b s"
  shows "\<exists>K' cnt' a' b'. conv_inv C S pfx root K' cnt' a' b' s'"
proof -
  have L: "ledger C K cnt a b (used s) (sent s)" "ledger C K cnt b a (used s) (sent s)"
    using I ledger_sym [of C K cnt a b] by (simp_all add: conv_inv_def)
  have Ha: "half C S pfx root K cnt a (alice s) (to_alice s)"
    and Hb: "half C S pfx root K cnt b (bob s) (to_bob s)" using I by (simp_all add: conv_inv_def)
  then have P: "party C root K cnt a (alice s)" "party C root K cnt b (bob s)"
    by (simp_all add: half_def)
  show ?thesis
    using assms(1)
  proof cases
    case (alice_sends pt h ct st')
    have "Suc (cnt a) < 2 ^ 32" using alice_sends(3) P by (simp add: can_count_def party_def)
    then have "ledger C K (cnt(a := Suc (cnt a))) a b (used s) (Suc (sent s))"
      using encrypt_party(1) [OF P(1) alice_sends(2)] by (intro ledger_send [OF L(1)]) auto
    then show ?thesis
      using half_send_own [OF Ha alice_sends(2,3)] half_send_peer [OF L(1) P(1) Hb alice_sends(2)]
      unfolding alice_sends(1) conv_inv_def by fastforce
  next
    case (bob_sends pt h ct st')
    have "Suc (cnt b) < 2 ^ 32" using bob_sends(3) P by (simp add: can_count_def party_def)
    then have "ledger C K (cnt(b := Suc (cnt b))) a b (used s) (Suc (sent s))"
      using encrypt_party(1) [OF P(2) bob_sends(2)] ledger_send [OF L(2)] ledger_sym by blast
    then show ?thesis
      using half_send_own [OF Hb bob_sends(2,3)] half_send_peer [OF L(2) P(2) Ha bob_sends(2)]
      unfolding bob_sends(1) conv_inv_def by fastforce
  next
    case (alice_receives p new r st')
    show ?thesis
      using recv_any [OF A D L(1) Ha Hb alice_receives(2-5)]
      unfolding alice_receives(1) conv_inv_def by fastforce
  next
    case (bob_receives p new r st')
    show ?thesis
      using recv_any [OF A D L(2) Hb Ha bob_receives(2-5)] ledger_sym
      unfolding bob_receives(1) conv_inv_def by fastforce
  next
    case (lost_to_alice p)
    then show ?thesis using I inbound_lost by (fastforce simp: conv_inv_def half_def)
  next
    case (lost_to_bob p)
    then show ?thesis using I inbound_lost by (fastforce simp: conv_inv_def half_def)
  qed
qed

lemma conv_reach_inv:
  assumes R: "conv_reach C S pfx (start_conv C root k0 k1) s" and A: "aead_ok C" and D: "dh_ok C"
    and k: "x25519_public C k0 \<noteq> x25519_public C k1"
  obtains K cnt a b where "conv_inv C S pfx root K cnt a b s"
proof -
  have "\<exists>K cnt a b. conv_inv C S pfx root K cnt a b s"
    using R
  proof induction
    case start
    show ?case using conv_inv_start [OF k] by blast
  next
    case (step s s')
    then show ?case using conv_step_inv [OF step(2) A D] by blast
  qed
  then show ?thesis using that by blast
qed

section \<open>The first thousand messages need no limits\<close>

lemma cache_size_le:
  assumes CS: "cache_sound C root K cnt e st"
  shows "fm_len (skipped st) \<le> sum cnt {..<e}"
proof -
  let ?img = "(\<lambda>(x, i). (pubk C K x, word_of_nat i :: u32)) ` (SIGMA x:{..<e}. {..<cnt x})"
  have "fset (fmdom (skipped st)) \<subseteq> ?img"
  proof
    fix k
    assume "k \<in> fset (fmdom (skipped st))"
    then obtain q j mk where k: "k = (q, j)" "fmlookup (skipped st) (q, j) = Some mk"
      by (cases k) (auto simp: fmlookup_dom_iff)
    then obtain x where "x < e" "q = pubk C K x" "unat j < cnt x"
      using CS unfolding cache_sound_def by blast
    then show "k \<in> ?img" by (intro image_eqI [of _ _ "(x, unat j)"]) (auto simp: k)
  qed
  moreover have "finite (SIGMA x:{..<e}. {..<cnt x})" by simp
  ultimately have "card (fset (fmdom (skipped st))) \<le> card (SIGMA x:{..<e}. {..<cnt x})"
    by (meson card_image_le card_mono finite_imageI order_trans)
  then show ?thesis by (simp add: fcard.rep_eq)
qed

lemma ledger_cnt_le:
  assumes L: "ledger C K cnt e f us tot"
  shows "cnt x \<le> tot" "sum cnt {..<e} \<le> tot"
proof -
  have tot: "tot = sum cnt {..max e f}" using L by (simp add: ledger_def)
  show "sum cnt {..<e} \<le> tot" unfolding tot by (rule sum_mono2) auto
  show "cnt x \<le> tot"
  proof (cases "x \<le> max e f")
    case True
    then show ?thesis unfolding tot by (intro member_le_sum) auto
  next
    case False
    then show ?thesis using L by (auto simp: ledger_def)
  qed
qed

lemma early_deliverable:
  assumes L: "ledger C K cnt e f us tot" and H: "half C S pfx root K cnt e st ps" and p: "p \<in> set ps"
    and early: "tot \<le> 1000"
  shows "deliverable st (pk_header p)"
proof -
  obtain x i where X: "expected C S pfx root K cnt e st x i p" using H p by (rule half_expected)
  note N = expected_n [OF L X]
  have "fm_len (skipped st) \<le> 1000"
    using cache_size_le [of C root K cnt e st] ledger_cnt_le(2) [OF L] H early
    by (simp add: half_def)
  moreover have "i < cnt x" using X by (simp add: expected_def)
  then have "i \<le> 1000" using ledger_cnt_le(1) [OF L, of x] early by linarith
  moreover have "cnt (x - 2) \<le> 1000" using ledger_cnt_le(1) [OF L, of "x - 2"] early by linarith
  ultimately show ?thesis
    by (auto simp: deliverable_def limits_ok_def skip_fits_def N Let_def MAX_SKIP_def MAX_SKIPPED_CACHE_def)
qed

section \<open>Every packet in flight can be decrypted\<close>

lemma conv_packet_decrypts:
  assumes "aead_ok C" "dh_ok C" "x25519_public C k0 \<noteq> x25519_public C k1"
    and "conv_reach C S pfx (start_conv C root k0 k1) s"
    and "(st, ps) \<in> {(alice s, to_alice s), (bob s, to_bob s)}" "p \<in> set ps"
    and "deliverable st (pk_header p)" "x25519_public C new \<notin> set (used s)"
  shows "fst (ratchet_decrypt C S new st (pk_header p) (pk_ct p) pfx) = Inr (pk_plain p)"
proof -
  obtain K cnt a b where I: "conv_inv C S pfx root K cnt a b s"
    using conv_reach_inv [OF assms(4,1,2,3)] .
  then have L: "ledger C K cnt a b (used s) (sent s)" "ledger C K cnt b a (used s) (sent s)"
    using ledger_sym [of C K cnt a b] by (simp_all add: conv_inv_def)
  obtain r st' where dec: "ratchet_decrypt C S new st (pk_header p) (pk_ct p) pfx = (r, st')"
    by fastforce
  have H: "half C S pfx root K cnt a (alice s) (to_alice s)" "half C S pfx root K cnt b (bob s) (to_bob s)"
    using I by (simp_all add: conv_inv_def)
  show ?thesis
    using assms(5) recv_any [OF assms(1,2) L(1) H(1,2) _ _ assms(8), of p r]
      recv_any [OF assms(1,2) L(2) H(2,1) _ _ assms(8), of p r] assms(6,7) dec by auto
qed

lemma conv_early_deliverable:
  assumes "aead_ok C" "dh_ok C" "x25519_public C k0 \<noteq> x25519_public C k1"
    and "conv_reach C S pfx (start_conv C root k0 k1) s" "sent s \<le> 1000"
    and "(st, ps) \<in> {(alice s, to_alice s), (bob s, to_bob s)}" "p \<in> set ps"
  shows "deliverable st (pk_header p)"
proof -
  obtain K cnt a b where I: "conv_inv C S pfx root K cnt a b s"
    using conv_reach_inv [OF assms(4,1,2,3)] .
  then have L: "ledger C K cnt a b (used s) (sent s)" "ledger C K cnt b a (used s) (sent s)"
    using ledger_sym [of C K cnt a b] by (simp_all add: conv_inv_def)
  have H: "half C S pfx root K cnt a (alice s) (to_alice s)" "half C S pfx root K cnt b (bob s) (to_bob s)"
    using I by (simp_all add: conv_inv_def)
  show ?thesis
    using assms(6,7) early_deliverable [OF L(1) H(1) _ assms(5)] early_deliverable [OF L(2) H(2) _ assms(5)]
    by auto
qed

section \<open>Properties\<close>

lemma encrypt_ready:
  "chain_send st \<noteq> None \<Longrightarrow> \<exists>h ct st'. ratchet_encrypt C S st pt pfx = (Inr (h, ct), st')"
  by (auto simp: ratchet_encrypt_def Let_def split: prod.split)

lemma demo_keys_differ: "x25519_public demo_crypto [1] \<noteq> x25519_public demo_crypto [2]"
  by (simp add: demo_crypto_def pad_to_def)

lemma demo_conv_reach:
  "conv_reach demo_crypto demo_header_serde [6] (start_conv demo_crypto [5] [1] [2]) (demo_conv_sent pt)"
proof (rule conv_reach.step)
  show "conv_reach demo_crypto demo_header_serde [6] (start_conv demo_crypto [5] [1] [2]) demo_conv"
    unfolding demo_conv_def by (rule conv_reach.start)
  have "chain_send (alice demo_conv) \<noteq> None"
    by (simp add: demo_conv_def start_conv_def init_initiator_def split: prod.split)
  then obtain h ct st' where
    E: "ratchet_encrypt demo_crypto demo_header_serde (alice demo_conv) pt [6] = (Inr (h, ct), st')"
    using encrypt_ready by blast
  moreover have "can_count (alice demo_conv)" and d: "sent demo_conv = 0" "to_bob demo_conv = []"
    by (simp_all add: can_count_def demo_conv_def start_conv_def init_initiator_def split: prod.split)
  ultimately have "conv_step demo_crypto demo_header_serde [6] demo_conv
      (demo_conv\<lparr>alice := st', sent := Suc (sent demo_conv),
        to_bob := to_bob demo_conv @ [\<lparr>pk_header = h, pk_ct = ct, pk_plain = pt\<rparr>]\<rparr>)"
    by (intro conv_step.alice_sends)
  then show "conv_step demo_crypto demo_header_serde [6] demo_conv (demo_conv_sent pt)"
    by (simp add: demo_conv_sent_def demo_packet_def E d)
qed

text \<open>
  C2: after any sequence of sends, losses and deliveries in any order between the two ends, every
  packet still in flight whose delivery stays within the skip limits decrypts to exactly the
  plaintext that was sent, at whichever end it is addressed to. A fresh ratchet key differs from
  the keys used before.
\<close>

theorem conversation_delivers:
  assumes "aead_ok C" "dh_ok C" "x25519_public C k0 \<noteq> x25519_public C k1"
    and "conv_reach C S pfx (start_conv C root k0 k1) s"
    and "(st, ps) \<in> {(alice s, to_alice s), (bob s, to_bob s)}" "p \<in> set ps"
    and "deliverable st (pk_header p)" "x25519_public C new \<notin> set (used s)"
  shows "fst (ratchet_decrypt C S new st (pk_header p) (pk_ct p) pfx) = Inr (pk_plain p)"
  using assms by (rule conv_packet_decrypts)

theorem conversation_delivers_witness:
  "fst (ratchet_decrypt demo_crypto demo_header_serde [3] (bob (demo_conv_sent [104, 105]))
     (pk_header (demo_packet [104, 105])) (pk_ct (demo_packet [104, 105])) [6]) =
   Inr (pk_plain (demo_packet [104, 105]))"
proof (rule conversation_delivers [OF demo_aead_ok demo_dh_ok demo_keys_differ demo_conv_reach])
  show "(bob (demo_conv_sent [104, 105]), [demo_packet [104, 105]]) \<in>
    {(alice (demo_conv_sent [104, 105]), to_alice (demo_conv_sent [104, 105])),
     (bob (demo_conv_sent [104, 105]), to_bob (demo_conv_sent [104, 105]))}"
    by (simp add: demo_conv_sent_def)
  show "deliverable (bob (demo_conv_sent [104, 105])) (pk_header (demo_packet [104, 105]))"
    by (simp add: deliverable_def limits_ok_def demo_conv_sent_def demo_packet_def demo_conv_def
        start_conv_def init_initiator_def init_responder_def ratchet_encrypt_def Let_def
        MAX_SKIPPED_CACHE_def split: prod.split)
  show "x25519_public demo_crypto [3] \<notin> set (used (demo_conv_sent [104, 105]))"
    by (simp add: demo_conv_sent_def demo_conv_def start_conv_def demo_crypto_def pad_to_def)
qed simp

text \<open>
  C8: while at most 1000 messages have been sent in the whole conversation no limit can be hit:
  every packet in flight decrypts to its plaintext, however the network has reordered or lost others.
\<close>

theorem conversation_early_delivers:
  assumes "aead_ok C" "dh_ok C" "x25519_public C k0 \<noteq> x25519_public C k1"
    and "conv_reach C S pfx (start_conv C root k0 k1) s" "sent s \<le> 1000"
    and "x25519_public C new \<notin> set (used s)"
  shows "(\<forall>p\<in>set (to_alice s). fst (ratchet_decrypt C S new (alice s) (pk_header p) (pk_ct p) pfx) = Inr (pk_plain p)) \<and>
    (\<forall>p\<in>set (to_bob s). fst (ratchet_decrypt C S new (bob s) (pk_header p) (pk_ct p) pfx) = Inr (pk_plain p))"
proof -
  have "\<forall>p\<in>set ps. fst (ratchet_decrypt C S new st (pk_header p) (pk_ct p) pfx) = Inr (pk_plain p)"
    if "(st, ps) \<in> {(alice s, to_alice s), (bob s, to_bob s)}" for st ps
    using conv_early_deliverable [OF assms(1-5) that] conv_packet_decrypts [OF assms(1-4) that _ _ assms(6)]
    by blast
  then show ?thesis by blast
qed

theorem conversation_early_delivers_witness:
  "fst (ratchet_decrypt demo_crypto demo_header_serde [3] (bob (demo_conv_sent [109]))
     (pk_header (demo_packet [109])) (pk_ct (demo_packet [109])) [6]) = Inr (pk_plain (demo_packet [109]))"
proof -
  have "sent (demo_conv_sent [109]) \<le> 1000" "demo_packet [109] \<in> set (to_bob (demo_conv_sent [109]))"
    "x25519_public demo_crypto [3] \<notin> set (used (demo_conv_sent [109]))"
    by (simp_all add: demo_conv_sent_def demo_conv_def start_conv_def demo_crypto_def pad_to_def)
  then show ?thesis
    using conversation_early_delivers [OF demo_aead_ok demo_dh_ok demo_keys_differ demo_conv_reach] by blast
qed

end
