(* ===== verification/Pqkem.thy ===== *)
theory Pqkem
  imports Wire
begin

text \<open>
  The byte-oriented wrapper over ML-KEM-1024 of \<^verbatim>\<open>core/src/pqkem.rs\<close>. A key pair is the encoding of
  its decapsulation key; the wrapper's own work is the length checks of \<open>Array::try_from\<close> and the
  mapping of failures to the crate's errors.
\<close>

definition KYBER_PUBLIC_LEN :: nat where
  "KYBER_PUBLIC_LEN = 1568"

definition KYBER_CIPHERTEXT_LEN :: nat where
  "KYBER_CIPHERTEXT_LEN = 1568"

definition KYBER_SHARED_LEN :: nat where
  "KYBER_SHARED_LEN = 32"

record kyber_key_pair =
  decap :: bytes

definition kyber_generate :: "'c crypto_scheme \<Rightarrow> bytes \<Rightarrow> kyber_key_pair" where
  "kyber_generate C rng = \<lparr>decap = mlkem_generate C rng\<rparr>"

definition public_bytes :: "'c crypto_scheme \<Rightarrow> kyber_key_pair \<Rightarrow> bytes" where
  "public_bytes C kp = mlkem_ek C (decap kp)"

definition private_bytes :: "kyber_key_pair \<Rightarrow> bytes" where
  "private_bytes kp = decap kp"

definition from_private_bytes :: "'c crypto_scheme \<Rightarrow> bytes \<Rightarrow> error + kyber_key_pair" where
  "from_private_bytes C bs =
     (if length bs = mlkem_dk_len C then Inr \<lparr>decap = bs\<rparr> else Inl MalformedKey)"

definition kyber_decapsulate :: "'c crypto_scheme \<Rightarrow> kyber_key_pair \<Rightarrow> bytes \<Rightarrow> error + bytes" where
  "kyber_decapsulate C kp ciphertext =
     (if length ciphertext \<noteq> KYBER_CIPHERTEXT_LEN then Inl MalformedKey
      else ok_or (mlkem_decapsulate C (decap kp) ciphertext) Decrypt)"

definition encapsulate :: "'c crypto_scheme \<Rightarrow> bytes \<Rightarrow> bytes \<Rightarrow> error + bytes \<times> bytes" where
  "encapsulate C rng public_key =
     (if length public_key \<noteq> KYBER_PUBLIC_LEN then Inl MalformedKey
      else ok_or (mlkem_encapsulate C public_key rng) Decrypt)"

text \<open>The key pairs \<open>generate\<close> and \<open>from_private_bytes\<close> can produce.\<close>

definition kyber_wf :: "'c crypto_scheme \<Rightarrow> kyber_key_pair \<Rightarrow> bool" where
  "kyber_wf C kp \<longleftrightarrow> length (decap kp) = mlkem_dk_len C"

section \<open>Encapsulation\<close>

lemma kyber_wf_generate: "kem_ok C \<Longrightarrow> kyber_wf C (kyber_generate C rng)"
  by (simp add: kyber_wf_def kyber_generate_def kem_ok_def)

lemma kyber_private_roundtrip [simp]:
  "kyber_wf C kp \<Longrightarrow> from_private_bytes C (private_bytes kp) = Inr kp"
  by (simp add: from_private_bytes_def private_bytes_def kyber_wf_def)

lemma from_private_bytes_wf: "from_private_bytes C bs = Inr kp \<Longrightarrow> kyber_wf C kp"
  by (auto simp: from_private_bytes_def kyber_wf_def split: if_splits)

lemma kyber_agree:
  assumes "kem_ok C" "kyber_wf C kp"
  obtains ct ss where "encapsulate C rng (public_bytes C kp) = Inr (ct, ss)"
    "kyber_decapsulate C kp ct = Inr ss"
proof -
  have "length (mlkem_ek C (decap kp)) = 1568"
    using assms by (simp add: kem_ok_def kyber_wf_def)
  moreover obtain ct ss where "mlkem_encapsulate C (mlkem_ek C (decap kp)) rng = Some (ct, ss)"
    "length ct = 1568" "mlkem_decapsulate C (decap kp) ct = Some ss"
    using assms unfolding kem_ok_def kyber_wf_def by meson
  ultimately show ?thesis
    by (intro that [of ct ss]) (simp_all add: encapsulate_def kyber_decapsulate_def public_bytes_def
        KYBER_PUBLIC_LEN_def KYBER_CIPHERTEXT_LEN_def)
qed

end
