(* ===== verification/Identity.thy ===== *)
theory Identity
  imports Pqkem
begin

text \<open>
  Accounts of \<^verbatim>\<open>core/src/identity.rs\<close>: the long-term keys, the signed and ML-KEM prekeys and the pool
  of one-time prekeys, the bundle published from them and its verification. Secrets are their byte
  encodings. Draws from the operating-system generator are arguments: one byte string per key, and a
  sequence \<open>nat \<Rightarrow> bytes\<close> for a loop that draws one per iteration.
\<close>

definition SIG_CTX_IDENTITY_DH :: bytes where
  "SIG_CTX_IDENTITY_DH = byte_lit ''Clarity-sig-identity-dh-v1''"

definition SIG_CTX_SIGNED_PREKEY :: bytes where
  "SIG_CTX_SIGNED_PREKEY = byte_lit ''Clarity-sig-signed-prekey-v1''"

definition SIG_CTX_KYBER_PREKEY :: bytes where
  "SIG_CTX_KYBER_PREKEY = byte_lit ''Clarity-sig-kyber-prekey-v1''"

definition DEFAULT_ONE_TIME_PREKEYS :: u32 where
  "DEFAULT_ONE_TIME_PREKEYS = 100"

record account =
  ed_signing :: bytes
  dh_identity :: bytes
  signed_prekey_id :: u32
  signed_prekey_secret :: bytes
  kyber_prekey_id :: u32
  kyber :: kyber_key_pair
  one_time_prekeys :: "(u32, bytes) fmap"
  next_opk_id :: u32

text \<open>The generator's output a new account consumes.\<close>

record account_rng =
  rng_ed :: bytes
  rng_dh :: bytes
  rng_spk :: bytes
  rng_kyber :: bytes
  rng_opk :: "nat \<Rightarrow> bytes"

definition mint_prekeys :: "(nat \<Rightarrow> bytes) \<Rightarrow> nat \<Rightarrow> (u32, bytes) fmap" where
  "mint_prekeys draw count = fold (\<lambda>i m. fmupd (word_of_nat i) (draw i) m) [0..<count] fmempty"

definition generate_with_prekeys :: "'c crypto_scheme \<Rightarrow> account_rng \<Rightarrow> u32 \<Rightarrow> account" where
  "generate_with_prekeys C rng count =
     \<lparr>ed_signing = rng_ed rng, dh_identity = rng_dh rng, signed_prekey_id = 0,
      signed_prekey_secret = rng_spk rng, kyber_prekey_id = 0, kyber = kyber_generate C (rng_kyber rng),
      one_time_prekeys = mint_prekeys (rng_opk rng) (unat count), next_opk_id = count\<rparr>"

definition generate_account :: "'c crypto_scheme \<Rightarrow> account_rng \<Rightarrow> account" where
  "generate_account C rng = generate_with_prekeys C rng DEFAULT_ONE_TIME_PREKEYS"

definition identity_public :: "'c crypto_scheme \<Rightarrow> account \<Rightarrow> bytes" where
  "identity_public C a = ed25519_public C (ed_signing a)"

definition identity_dh_public :: "'c crypto_scheme \<Rightarrow> account \<Rightarrow> bytes" where
  "identity_dh_public C a = x25519_public C (dh_identity a)"

definition account_sign :: "'c crypto_scheme \<Rightarrow> account \<Rightarrow> bytes \<Rightarrow> bytes \<Rightarrow> bytes" where
  "account_sign C a ctx message = ed25519_sign C (ed_signing a) (ctx @ message)"

definition account_bundle :: "'c crypto_scheme \<Rightarrow> account \<Rightarrow> prekey_bundle" where
  "account_bundle C a =
     (let identity_dh_pub = x25519_public C (dh_identity a);
          signed_prekey_pub = x25519_public C (signed_prekey_secret a);
          kyber_pub = public_bytes C (kyber a);
          (otp, otp_id) = (case sorted_list_of_fmap (one_time_prekeys a) of
              (i, sk) # _ \<Rightarrow> (Some (x25519_public C sk), Some i)
            | [] \<Rightarrow> (None, None))
      in \<lparr>pb_identity_ed = identity_public C a,
          pb_identity_dh = identity_dh_pub,
          pb_identity_dh_sig = account_sign C a SIG_CTX_IDENTITY_DH identity_dh_pub,
          pb_signed_prekey = signed_prekey_pub,
          pb_signed_prekey_id = signed_prekey_id a,
          pb_signed_prekey_sig = account_sign C a SIG_CTX_SIGNED_PREKEY signed_prekey_pub,
          pb_kyber_prekey = kyber_pub,
          pb_kyber_prekey_id = kyber_prekey_id a,
          pb_kyber_prekey_sig = account_sign C a SIG_CTX_KYBER_PREKEY kyber_pub,
          pb_one_time_prekey = otp,
          pb_one_time_prekey_id = otp_id\<rparr>)"

definition identity_ed_bytes :: "'c crypto_scheme \<Rightarrow> account \<Rightarrow> bytes" where
  "identity_ed_bytes C a = identity_public C a"

definition account_signed_prekey :: "account \<Rightarrow> u32 \<Rightarrow> error + bytes" where
  "account_signed_prekey a pid =
     (if pid = signed_prekey_id a then Inr (signed_prekey_secret a) else Inl UnknownPrekey)"

definition take_one_time_prekey :: "account \<Rightarrow> u32 \<Rightarrow> (error + bytes) \<times> account" where
  "take_one_time_prekey a pid =
     (ok_or (fmlookup (one_time_prekeys a) pid) UnknownPrekey,
      a\<lparr>one_time_prekeys := fmdrop pid (one_time_prekeys a)\<rparr>)"

definition one_time_prekeys_remaining :: "account \<Rightarrow> nat" where
  "one_time_prekeys_remaining a = fm_len (one_time_prekeys a)"

definition account_one_time_prekey_publics :: "'c crypto_scheme \<Rightarrow> account \<Rightarrow> one_time_prekey_publics" where
  "account_one_time_prekey_publics C a =
     map (\<lambda>(i, sk). (i, x25519_public C sk)) (sorted_list_of_fmap (one_time_prekeys a))"

primrec replenish_loop :: "(nat \<Rightarrow> bytes) \<Rightarrow> nat \<Rightarrow> u32 list \<Rightarrow> account \<Rightarrow> u32 list \<times> account" where
  "replenish_loop draw 0 ids a = (ids, a)"
| "replenish_loop draw (Suc k) ids a =
     (let pid = next_opk_id a
      in replenish_loop draw k (ids @ [pid])
           (a\<lparr>next_opk_id := next_opk_id a + 1,
              one_time_prekeys := fmupd pid (draw k) (one_time_prekeys a)\<rparr>))"

definition replenish_one_time_prekeys :: "(nat \<Rightarrow> bytes) \<Rightarrow> account \<Rightarrow> u32 \<Rightarrow> u32 list \<times> account" where
  "replenish_one_time_prekeys draw a count = replenish_loop draw (unat count) [] a"

record stored_account =
  sa_ed_signing :: bytes
  sa_dh_identity :: bytes
  sa_signed_prekey_id :: u32
  sa_signed_prekey :: bytes
  sa_kyber_prekey_id :: u32
  sa_kyber_private :: bytes
  sa_one_time_prekeys :: "(u32 \<times> bytes) list"
  sa_next_opk_id :: u32

definition account_to_bytes :: "stored_account serde \<Rightarrow> account \<Rightarrow> bytes" where
  "account_to_bytes S a =
     ser S \<lparr>sa_ed_signing = ed_signing a, sa_dh_identity = dh_identity a,
            sa_signed_prekey_id = signed_prekey_id a, sa_signed_prekey = signed_prekey_secret a,
            sa_kyber_prekey_id = kyber_prekey_id a, sa_kyber_private = private_bytes (kyber a),
            sa_one_time_prekeys = sorted_list_of_fmap (one_time_prekeys a),
            sa_next_opk_id = next_opk_id a\<rparr>"

definition account_from_bytes :: "'c crypto_scheme \<Rightarrow> stored_account serde \<Rightarrow> bytes \<Rightarrow> error + account" where
  "account_from_bytes C S bs =
     (case de S bs of
        Inl e \<Rightarrow> Inl (Wire e)
      | Inr s \<Rightarrow> (case from_private_bytes C (sa_kyber_private s) of
          Inl e \<Rightarrow> Inl e
        | Inr k \<Rightarrow> Inr \<lparr>ed_signing = sa_ed_signing s, dh_identity = sa_dh_identity s,
            signed_prekey_id = sa_signed_prekey_id s, signed_prekey_secret = sa_signed_prekey s,
            kyber_prekey_id = sa_kyber_prekey_id s, kyber = k,
            one_time_prekeys = fm_collect (sa_one_time_prekeys s),
            next_opk_id = sa_next_opk_id s\<rparr>))"

definition verify_sig :: "'c crypto_scheme \<Rightarrow> bytes \<Rightarrow> bytes \<Rightarrow> bytes \<Rightarrow> bytes \<Rightarrow> error + unit" where
  "verify_sig C vk ctx message sig_bytes =
     (if length sig_bytes \<noteq> 64 then Inl BadSignature
      else if ed25519_verify C vk (ctx @ message) sig_bytes then Inr () else Inl BadSignature)"

definition verify_bundle :: "'c crypto_scheme \<Rightarrow> prekey_bundle \<Rightarrow> error + unit" where
  "verify_bundle C b =
     (if \<not> ed25519_key_ok C (pb_identity_ed b) then Inl MalformedKey
      else let vk = pb_identity_ed b in
        (case verify_sig C vk SIG_CTX_IDENTITY_DH (pb_identity_dh b) (pb_identity_dh_sig b) of
           Inl e \<Rightarrow> Inl e
         | Inr _ \<Rightarrow>
        (case verify_sig C vk SIG_CTX_SIGNED_PREKEY (pb_signed_prekey b) (pb_signed_prekey_sig b) of
           Inl e \<Rightarrow> Inl e
         | Inr _ \<Rightarrow>
        (case verify_sig C vk SIG_CTX_KYBER_PREKEY (pb_kyber_prekey b) (pb_kyber_prekey_sig b) of
           Inl e \<Rightarrow> Inl e
         | Inr _ \<Rightarrow> Inr ()))))"

text \<open>
  Well-formed accounts: the ML-KEM key has the library's length and every one-time prekey has an id
  below the next one to mint.
\<close>

definition account_wf :: "'c crypto_scheme \<Rightarrow> account \<Rightarrow> bool" where
  "account_wf C a \<longleftrightarrow> kyber_wf C (kyber a) \<and>
     (\<forall>pid \<in> fset (fmdom (one_time_prekeys a)). pid < next_opk_id a)"

definition demo_rng :: "u8 \<Rightarrow> account_rng" where
  "demo_rng x = \<lparr>rng_ed = [x], rng_dh = [x, 1], rng_spk = [x, 2], rng_kyber = [x, 3],
     rng_opk = (\<lambda>i. [x, 4, word_of_nat i])\<rparr>"

definition demo_account :: "u8 \<Rightarrow> account" where
  "demo_account x = generate_with_prekeys demo_crypto (demo_rng x) 2"

definition stored_account_fmt :: "stored_account fmt" where
  "stored_account_fmt = fmt_via
     (\<lambda>s. (sa_ed_signing s, sa_dh_identity s, sa_signed_prekey_id s, sa_signed_prekey s,
           sa_kyber_prekey_id s, sa_kyber_private s, sa_one_time_prekeys s, sa_next_opk_id s))
     (\<lambda>(a, b, c, d, e, f, g, h). \<lparr>sa_ed_signing = a, sa_dh_identity = b, sa_signed_prekey_id = c,
        sa_signed_prekey = d, sa_kyber_prekey_id = e, sa_kyber_private = f, sa_one_time_prekeys = g,
        sa_next_opk_id = h\<rparr>)
     (fmt_pair fmt_bytes (fmt_pair fmt_bytes (fmt_pair fmt_u32 (fmt_pair fmt_bytes
       (fmt_pair fmt_u32 (fmt_pair fmt_bytes (fmt_pair (fmt_list (fmt_pair fmt_u32 fmt_bytes))
         fmt_u32)))))))"

section \<open>The pool of one-time prekeys\<close>

lemma mint_prekeys_Suc:
  "mint_prekeys draw (Suc k) = fmupd (word_of_nat k) (draw k) (mint_prekeys draw k)"
  by (simp add: mint_prekeys_def)

lemma mint_prekeys_dom: "k < 2 ^ 32 \<Longrightarrow> fmlookup (mint_prekeys draw k) pid \<noteq> None \<longleftrightarrow> unat pid < k"
proof (induction k)
  case 0
  then show ?case by (simp add: mint_prekeys_def)
next
  case (Suc k)
  then have "pid = word_of_nat k \<longleftrightarrow> unat pid = k"
    by (auto simp: unat_u32_of_nat)
  then show ?case using Suc by (auto simp: mint_prekeys_Suc)
qed

lemma account_wf_generate: "kem_ok C \<Longrightarrow> account_wf C (generate_with_prekeys C rng count)"
  using mint_prekeys_dom [of "unat count"] unsigned_less [where 'a = nat, of count]
  by (auto simp: account_wf_def generate_with_prekeys_def kyber_wf_generate fmlookup_dom_iff
      word_less_nat_alt)

lemma account_wf_take: "account_wf C a \<Longrightarrow> account_wf C (snd (take_one_time_prekey a pid))"
  by (auto simp: account_wf_def take_one_time_prekey_def)

lemma replenish_step_wf:
  assumes "account_wf C a" "unat (next_opk_id a) + 1 < 2 ^ 32"
  shows "account_wf C (a\<lparr>next_opk_id := next_opk_id a + 1,
     one_time_prekeys := fmupd (next_opk_id a) sk (one_time_prekeys a)\<rparr>)"
  using assms by (auto simp: account_wf_def word_less_nat_alt unat_word_ariths)

lemma replenish_loop_eq:
  assumes "account_wf C a" "unat (next_opk_id a) + k < 2 ^ 32" "replenish_loop draw k ids a = (ids', a')"
  shows "account_wf C a' \<and> ids' = ids @ map word_of_nat [unat (next_opk_id a)..<unat (next_opk_id a) + k] \<and>
    one_time_prekeys_remaining a' = one_time_prekeys_remaining a + k \<and>
    unat (next_opk_id a') = unat (next_opk_id a) + k \<and>
    (\<forall>i\<in>fset (fmdom (one_time_prekeys a)). fmlookup (one_time_prekeys a') i = fmlookup (one_time_prekeys a) i)"
  using assms
proof (induction k arbitrary: a ids)
  case 0
  then show ?case by simp
next
  case (Suc k)
  let ?n = "next_opk_id a"
  let ?a = "a\<lparr>next_opk_id := ?n + 1, one_time_prekeys := fmupd ?n (draw k) (one_time_prekeys a)\<rparr>"
  have n: "unat (?n + 1) = Suc (unat ?n)" using Suc.prems(2) by (simp add: unat_word_ariths)
  have new: "fmlookup (one_time_prekeys a) ?n = None"
    using Suc.prems(1) by (auto simp: account_wf_def fmlookup_dom_iff intro!: fmdom_notD)
  have "account_wf C ?a" using Suc.prems by (intro replenish_step_wf) simp_all
  moreover have "replenish_loop draw k (ids @ [?n]) ?a = (ids', a')"
    using Suc.prems(3) by (simp add: Let_def)
  ultimately have IH: "account_wf C a' \<and>
    ids' = (ids @ [?n]) @ map word_of_nat [Suc (unat ?n)..<Suc (unat ?n) + k] \<and>
    one_time_prekeys_remaining a' = one_time_prekeys_remaining ?a + k \<and>
    unat (next_opk_id a') = Suc (unat ?n) + k \<and>
    (\<forall>i\<in>fset (fmdom (one_time_prekeys ?a)). fmlookup (one_time_prekeys a') i = fmlookup (one_time_prekeys ?a) i)"
    using Suc.IH [of ?a "ids @ [?n]"] Suc.prems(2) n by simp
  moreover have "one_time_prekeys_remaining ?a = Suc (one_time_prekeys_remaining a)"
    using fm_len_upd_new [OF new] by (simp add: one_time_prekeys_remaining_def)
  moreover have "[unat ?n..<unat ?n + Suc k] = unat ?n # [Suc (unat ?n)..<Suc (unat ?n) + k]"
    by (simp add: upt_rec)
  moreover have "\<forall>i\<in>fset (fmdom (one_time_prekeys a)). i \<noteq> ?n"
    using new by (auto simp: fmlookup_dom_iff)
  ultimately show ?case by auto
qed

section \<open>Signatures\<close>

lemma verify_sig_Inr:
  "verify_sig C vk ctx m s = Inr u \<longleftrightarrow> length s = 64 \<and> ed25519_verify C vk (ctx @ m) s"
  by (simp add: verify_sig_def)

lemma verify_bundle_Inr:
  "verify_bundle C b = Inr u \<longleftrightarrow> ed25519_key_ok C (pb_identity_ed b) \<and>
     verify_sig C (pb_identity_ed b) SIG_CTX_IDENTITY_DH (pb_identity_dh b) (pb_identity_dh_sig b) = Inr () \<and>
     verify_sig C (pb_identity_ed b) SIG_CTX_SIGNED_PREKEY (pb_signed_prekey b) (pb_signed_prekey_sig b) = Inr () \<and>
     verify_sig C (pb_identity_ed b) SIG_CTX_KYBER_PREKEY (pb_kyber_prekey b) (pb_kyber_prekey_sig b) = Inr ()"
  by (auto simp: verify_bundle_def Let_def split: sum.split)

lemma account_sign_verifies:
  "sig_ok C \<Longrightarrow> verify_sig C (identity_public C a) ctx m (account_sign C a ctx m) = Inr ()"
  by (simp add: verify_sig_def identity_public_def account_sign_def sig_ok_def)

lemma bundle_fields [simp]:
  "pb_identity_ed (account_bundle C a) = identity_public C a"
  "pb_identity_dh (account_bundle C a) = x25519_public C (dh_identity a)"
  "pb_identity_dh_sig (account_bundle C a) = account_sign C a SIG_CTX_IDENTITY_DH (x25519_public C (dh_identity a))"
  "pb_signed_prekey (account_bundle C a) = x25519_public C (signed_prekey_secret a)"
  "pb_signed_prekey_id (account_bundle C a) = signed_prekey_id a"
  "pb_signed_prekey_sig (account_bundle C a) =
     account_sign C a SIG_CTX_SIGNED_PREKEY (x25519_public C (signed_prekey_secret a))"
  "pb_kyber_prekey (account_bundle C a) = public_bytes C (kyber a)"
  "pb_kyber_prekey_id (account_bundle C a) = kyber_prekey_id a"
  "pb_kyber_prekey_sig (account_bundle C a) =
     account_sign C a SIG_CTX_KYBER_PREKEY (public_bytes C (kyber a))"
  by (simp_all add: account_bundle_def Let_def split: prod.split)

lemma account_bundle_verifies: "sig_ok C \<Longrightarrow> verify_bundle C (account_bundle C a) = Inr ()"
  by (simp add: verify_bundle_Inr account_sign_verifies) (simp add: sig_ok_def identity_public_def)

lemma bundle_opk:
  "pb_one_time_prekey (account_bundle C a) =
     (case sorted_list_of_fmap (one_time_prekeys a) of [] \<Rightarrow> None | p # _ \<Rightarrow> Some (x25519_public C (snd p)))"
  "pb_one_time_prekey_id (account_bundle C a) =
     (case sorted_list_of_fmap (one_time_prekeys a) of [] \<Rightarrow> None | p # _ \<Rightarrow> Some (fst p))"
  by (simp_all add: account_bundle_def Let_def split: list.split prod.split)

lemma publics_lookup:
  "(i, q) \<in> set (account_one_time_prekey_publics C a) \<longleftrightarrow>
   (\<exists>sk. fmlookup (one_time_prekeys a) i = Some sk \<and> q = x25519_public C sk)"
proof -
  have "(i, sk) \<in> set (sorted_list_of_fmap (one_time_prekeys a)) \<longleftrightarrow> fmlookup (one_time_prekeys a) i = Some sk"
    for i sk
    using map_of_eq_Some_iff [OF distinct_sorted_list_of_fmap, of "one_time_prekeys a" i sk]
    by (simp add: map_of_sorted_list_of_fmap)
  then show ?thesis by (fastforce simp: account_one_time_prekey_publics_def)
qed

lemma stored_account_fmt_ok: "fmt_ok stored_account_fmt"
  unfolding stored_account_fmt_def by (intro fmt_laws) simp

text \<open>The tags differ in their thirteenth byte.\<close>

lemma ctx_tag:
  "SIG_CTX_IDENTITY_DH ! 12 = 105" "SIG_CTX_SIGNED_PREKEY ! 12 = 115" "SIG_CTX_KYBER_PREKEY ! 12 = 107"
  "12 < length SIG_CTX_IDENTITY_DH" "12 < length SIG_CTX_SIGNED_PREKEY" "12 < length SIG_CTX_KYBER_PREKEY"
  by code_simp+

section \<open>Properties\<close>



text \<open>
  The context tags separate the domains. No byte string is signed for two purposes: if the tagged
  messages of two signed fields are equal, the tags and the messages are. A signature made by an
  account over one field is therefore never a signature over another field's buffer.
\<close>

lemma signature_contexts_separate:
  assumes "c1 \<in> {SIG_CTX_IDENTITY_DH, SIG_CTX_SIGNED_PREKEY, SIG_CTX_KYBER_PREKEY}"
    and "c2 \<in> {SIG_CTX_IDENTITY_DH, SIG_CTX_SIGNED_PREKEY, SIG_CTX_KYBER_PREKEY}"
    and "c1 @ m1 = c2 @ m2"
  shows "c1 = c2 \<and> m1 = m2"
proof -
  have "12 < length c1" "12 < length c2" using assms(1,2) ctx_tag by auto
  then have "c1 ! 12 = c2 ! 12" using assms(3) by (metis nth_append)
  then have "c1 = c2" using assms(1,2) ctx_tag by auto
  then show ?thesis using assms(3) by simp
qed

text \<open>
  Minting one-time prekeys. As long as the 32-bit id counter does not wrap, the ids returned are the
  next \<open>count\<close> consecutive ones, none of them in use; the pool grows by \<open>count\<close>, every key already in
  it stays, and the account is well formed again.
\<close>

lemma replenish_fresh:
  assumes "account_wf C a" "unat (next_opk_id a) + unat count < 2 ^ 32"
    and "replenish_one_time_prekeys draw a count = (ids, a')"
  shows "account_wf C a' \<and> ids = map word_of_nat [unat (next_opk_id a)..<unat (next_opk_id a) + unat count] \<and>
    set ids \<inter> fset (fmdom (one_time_prekeys a)) = {} \<and>
    one_time_prekeys_remaining a' = one_time_prekeys_remaining a + unat count \<and>
    (\<forall>i\<in>fset (fmdom (one_time_prekeys a)). fmlookup (one_time_prekeys a') i = fmlookup (one_time_prekeys a) i)"
proof -
  have loop: "replenish_loop draw (unat count) [] a = (ids, a')"
    using assms(3) by (simp add: replenish_one_time_prekeys_def)
  note E = replenish_loop_eq [OF assms(1,2) loop]
  then have R: "ids = map word_of_nat [unat (next_opk_id a)..<unat (next_opk_id a) + unat count]" by simp
  have "i \<notin> fset (fmdom (one_time_prekeys a))" if i: "i \<in> set ids" for i
  proof -
    obtain k where k: "i = word_of_nat k" "unat (next_opk_id a) \<le> k" "k < unat (next_opk_id a) + unat count"
      using i R by auto
    then have "unat i = k" using assms(2) by (simp add: unat_u32_of_nat)
    then show ?thesis using k assms(1) by (auto simp: account_wf_def word_less_nat_alt)
  qed
  then show ?thesis using E by auto
qed

text \<open>
  Persistence. An account written to bytes and read back is the same account; stored bytes whose
  ML-KEM key has the wrong length are refused with \<open>MalformedKey\<close>.
\<close>

lemma account_roundtrip:
  assumes "serde_ok S"
  shows "(account_wf C a \<longrightarrow> account_from_bytes C S (account_to_bytes S a) = Inr a) \<and>
    (\<not> kyber_wf C (kyber a) \<longrightarrow> account_from_bytes C S (account_to_bytes S a) = Inl MalformedKey)"
  using assms
  by (simp add: account_from_bytes_def account_to_bytes_def account_wf_def)
    (simp add: from_private_bytes_def private_bytes_def kyber_wf_def)

end
