(* ===== verification/Handshake.thy ===== *)
theory Handshake
  imports Identity Kdf
begin

text \<open>
  The initial key agreement of \<^verbatim>\<open>core/src/handshake.rs\<close>: X3DH with an ML-KEM leg. \<open>respond\<close> takes
  \<open>&mut Account\<close>, so it returns the account also when it fails: a one-time prekey consumed before a
  later error stays consumed.
\<close>

definition hs_dh :: "'c crypto_scheme \<Rightarrow> bytes \<Rightarrow> bytes \<Rightarrow> bytes" where
  "hs_dh C secret their_pub = x25519_dh C secret their_pub"

definition handshake_initiate :: "'c crypto_scheme \<Rightarrow> bytes \<Rightarrow> bytes \<Rightarrow> account \<Rightarrow> prekey_bundle
    \<Rightarrow> error + bytes \<times> handshake_header \<times> bytes" where
  "handshake_initiate C ephemeral rng my b =
     (let ikm = hs_dh C (dh_identity my) (pb_signed_prekey b)
                @ hs_dh C ephemeral (pb_identity_dh b)
                @ hs_dh C ephemeral (pb_signed_prekey b)
                @ (case pb_one_time_prekey b of Some opk \<Rightarrow> hs_dh C ephemeral opk | None \<Rightarrow> [])
      in case encapsulate C rng (pb_kyber_prekey b) of
           Inl e \<Rightarrow> Inl e
         | Inr (kyber_ciphertext, kyber_secret) \<Rightarrow>
             Inr (kdf_root_from_ikm C (ikm @ kyber_secret),
                  \<lparr>hh_identity_ed = identity_ed_bytes C my,
                   hh_identity_dh = x25519_public C (dh_identity my),
                   hh_ephemeral_dh = x25519_public C ephemeral,
                   hh_signed_prekey_id = pb_signed_prekey_id b,
                   hh_one_time_prekey_id = pb_one_time_prekey_id b,
                   hh_kyber_prekey_id = pb_kyber_prekey_id b,
                   hh_kyber_ciphertext = kyber_ciphertext\<rparr>,
                  pb_signed_prekey b))"

text \<open>The match on \<open>one_time_prekey_id\<close>, with its \<open>?\<close>.\<close>

definition consume_one_time :: "account \<Rightarrow> u32 option \<Rightarrow> (error + bytes option) \<times> account" where
  "consume_one_time my opk_id =
     (case opk_id of
        Some i \<Rightarrow> (case take_one_time_prekey my i of
            (Inl e, my') \<Rightarrow> (Inl e, my') | (Inr sk, my') \<Rightarrow> (Inr (Some sk), my'))
      | None \<Rightarrow> (Inr None, my))"

definition handshake_respond :: "'c crypto_scheme \<Rightarrow> account \<Rightarrow> handshake_header
    \<Rightarrow> (error + bytes) \<times> account" where
  "handshake_respond C my hs =
     (if hh_kyber_prekey_id hs \<noteq> kyber_prekey_id my then (Inl UnknownPrekey, my)
      else case account_signed_prekey my (hh_signed_prekey_id hs) of
        Inl e \<Rightarrow> (Inl e, my)
      | Inr signed_prekey \<Rightarrow>
          (let idh = dh_identity my
           in case consume_one_time my (hh_one_time_prekey_id hs) of
                (Inl e, my') \<Rightarrow> (Inl e, my')
              | (Inr one_time, my') \<Rightarrow>
                  let ikm = hs_dh C signed_prekey (hh_identity_dh hs)
                            @ hs_dh C idh (hh_ephemeral_dh hs)
                            @ hs_dh C signed_prekey (hh_ephemeral_dh hs)
                            @ (case one_time of Some opk \<Rightarrow> hs_dh C opk (hh_ephemeral_dh hs) | None \<Rightarrow> [])
                  in (case kyber_decapsulate C (kyber my') (hh_kyber_ciphertext hs) of
                        Inl e \<Rightarrow> (Inl e, my')
                      | Inr kyber_secret \<Rightarrow> (Inr (kdf_root_from_ikm C (ikm @ kyber_secret)), my'))))"

text \<open>
  A bundle an honest prekey server may hand out for account \<open>a\<close>: the account's own bundle with the
  one-time prekey replaced by any one the account still holds, or left out.
\<close>

definition served_bundle :: "'c crypto_scheme \<Rightarrow> account \<Rightarrow> (u32 \<times> bytes) option \<Rightarrow> prekey_bundle" where
  "served_bundle C a opk = (account_bundle C a)\<lparr>pb_one_time_prekey := map_option snd opk,
     pb_one_time_prekey_id := map_option fst opk\<rparr>"

definition offered :: "'c crypto_scheme \<Rightarrow> account \<Rightarrow> (u32 \<times> bytes) option \<Rightarrow> bool" where
  "offered C a opk \<longleftrightarrow> (case opk of None \<Rightarrow> True | Some p \<Rightarrow> p \<in> set (account_one_time_prekey_publics C a))"

text \<open>The account after the one-time prekey of a handshake is gone.\<close>

definition spend :: "(u32 \<times> bytes) option \<Rightarrow> account \<Rightarrow> account" where
  "spend opk a = (case opk of None \<Rightarrow> a
     | Some p \<Rightarrow> a\<lparr>one_time_prekeys := fmdrop (fst p) (one_time_prekeys a)\<rparr>)"

section \<open>Both sides derive the same root\<close>

lemma served_bundle_fields [simp]:
  "pb_identity_ed (served_bundle C a opk) = identity_public C a"
  "pb_identity_dh (served_bundle C a opk) = x25519_public C (dh_identity a)"
  "pb_signed_prekey (served_bundle C a opk) = x25519_public C (signed_prekey_secret a)"
  "pb_signed_prekey_id (served_bundle C a opk) = signed_prekey_id a"
  "pb_kyber_prekey (served_bundle C a opk) = public_bytes C (kyber a)"
  "pb_kyber_prekey_id (served_bundle C a opk) = kyber_prekey_id a"
  "pb_one_time_prekey (served_bundle C a opk) = map_option snd opk"
  "pb_one_time_prekey_id (served_bundle C a opk) = map_option fst opk"
  by (simp_all add: served_bundle_def)

lemma served_bundle_verifies: "sig_ok C \<Longrightarrow> verify_bundle C (served_bundle C a opk) = Inr ()"
  using account_bundle_verifies [of C a] unfolding verify_bundle_Inr by (simp add: served_bundle_def)

lemma spend_fields [simp]:
  "ed_signing (spend opk a) = ed_signing a" "dh_identity (spend opk a) = dh_identity a"
  "signed_prekey_id (spend opk a) = signed_prekey_id a"
  "signed_prekey_secret (spend opk a) = signed_prekey_secret a"
  "kyber_prekey_id (spend opk a) = kyber_prekey_id a" "kyber (spend opk a) = kyber a"
  by (simp_all add: spend_def split: option.split)

lemma consume_offered:
  "offered C a opk \<Longrightarrow> \<exists>sk. consume_one_time a (map_option fst opk) = (Inr sk, spend opk a) \<and>
     map_option snd opk = map_option (x25519_public C) sk"
  by (cases opk) (auto simp: offered_def consume_one_time_def spend_def take_one_time_prekey_def
      publics_lookup)

lemma hs_dh_sym: "dh_ok C \<Longrightarrow> hs_dh C a (x25519_public C b) = hs_dh C b (x25519_public C a)"
  by (simp add: hs_dh_def dh_ok_def)

lemma handshake_agree:
  assumes "dh_ok C" "kem_ok C" "kyber_wf C (kyber b)" "offered C b opk"
  obtains root hs where
    "handshake_initiate C eph rng a (served_bundle C b opk) =
       Inr (root, hs, x25519_public C (signed_prekey_secret b))"
    "handshake_respond C b hs = (Inr root, spend opk b)"
    "hh_identity_ed hs = identity_public C a" "hh_signed_prekey_id hs = signed_prekey_id b"
    "hh_one_time_prekey_id hs = map_option fst opk" "hh_kyber_prekey_id hs = kyber_prekey_id b"
proof -
  obtain ct ss where K: "encapsulate C rng (public_bytes C (kyber b)) = Inr (ct, ss)"
    "kyber_decapsulate C (kyber b) ct = Inr ss"
    using kyber_agree [OF assms(2,3)] .
  obtain sk where sk: "consume_one_time b (map_option fst opk) = (Inr sk, spend opk b)"
    "map_option snd opk = map_option (x25519_public C) sk"
    using consume_offered [OF assms(4)] by blast
  define hs where "hs = \<lparr>hh_identity_ed = identity_public C a, hh_identity_dh = x25519_public C (dh_identity a),
    hh_ephemeral_dh = x25519_public C eph, hh_signed_prekey_id = signed_prekey_id b,
    hh_one_time_prekey_id = map_option fst opk, hh_kyber_prekey_id = kyber_prekey_id b,
    hh_kyber_ciphertext = ct\<rparr>"
  define root where "root = kdf_root_from_ikm C (hs_dh C (dh_identity a) (x25519_public C (signed_prekey_secret b))
    @ hs_dh C eph (x25519_public C (dh_identity b)) @ hs_dh C eph (x25519_public C (signed_prekey_secret b))
    @ (case sk of None \<Rightarrow> [] | Some opk \<Rightarrow> hs_dh C eph (x25519_public C opk)) @ ss)"
  have "handshake_initiate C eph rng a (served_bundle C b opk) =
      Inr (root, hs, x25519_public C (signed_prekey_secret b))"
    by (cases sk) (simp_all add: handshake_initiate_def K(1) sk(2) root_def hs_def identity_ed_bytes_def)
  moreover have "handshake_respond C b hs = (Inr root, spend opk b)"
    using hs_dh_sym [OF assms(1), of "signed_prekey_secret b" "dh_identity a"]
      hs_dh_sym [OF assms(1), of "dh_identity b" eph] hs_dh_sym [OF assms(1), of "signed_prekey_secret b" eph]
      hs_dh_sym [OF assms(1), of "the sk" eph]
    by (cases sk) (simp_all add: handshake_respond_def K(2) sk(1) root_def hs_def account_signed_prekey_def)
  ultimately show ?thesis by (rule that) (simp_all add: hs_def)
qed

end
