(* ===== verification/Session.thy ===== *)
theory Session
  imports Handshake Conversation
begin

text \<open>
  Sessions of \<^verbatim>\<open>core/src/session.rs\<close>: the handshake composed with the Double Ratchet. The theorems
  connect the two: what the handshake establishes is the starting point of the conversation of theory
  \<open>Conversation\<close>, so its delivery results hold for sessions.
\<close>

record session =
  ratchet :: double_ratchet
  ad_prefix :: bytes
  pending_handshake :: "handshake_header option"

definition make_ad_prefix :: "bytes \<Rightarrow> bytes \<Rightarrow> bytes" where
  "make_ad_prefix initiator_ed responder_ed = initiator_ed @ responder_ed"

definition session_initiate :: "'c crypto_scheme \<Rightarrow> bytes \<Rightarrow> bytes \<Rightarrow> bytes \<Rightarrow> account
    \<Rightarrow> prekey_bundle \<Rightarrow> error + session" where
  "session_initiate C ephemeral rng new_self me their_bundle =
     (case verify_bundle C their_bundle of
        Inl e \<Rightarrow> Inl e
      | Inr _ \<Rightarrow>
          (case handshake_initiate C ephemeral rng me their_bundle of
             Inl e \<Rightarrow> Inl e
           | Inr (root, hs, remote_spk) \<Rightarrow>
               Inr \<lparr>ratchet = init_initiator C new_self root remote_spk,
                    ad_prefix = make_ad_prefix (hh_identity_ed hs) (pb_identity_ed their_bundle),
                    pending_handshake = Some hs\<rparr>))"

definition session_respond :: "'c crypto_scheme \<Rightarrow> ratchet_header serde \<Rightarrow> bytes \<Rightarrow> account \<Rightarrow> message
    \<Rightarrow> (error + session \<times> bytes) \<times> account" where
  "session_respond C S new_self me first_message =
     (case first_message of
        Normal _ _ \<Rightarrow> (Inl UnexpectedMessage, me)
      | PreKey hs header ciphertext \<Rightarrow>
          (case handshake_respond C me hs of
             (Inl e, me') \<Rightarrow> (Inl e, me')
           | (Inr root, me') \<Rightarrow>
               (let ad = make_ad_prefix (hh_identity_ed hs) (identity_ed_bytes C me')
                in case account_signed_prekey me' (hh_signed_prekey_id hs) of
                     Inl e \<Rightarrow> (Inl e, me')
                   | Inr spk \<Rightarrow>
                       (case ratchet_decrypt C S new_self (init_responder C root spk) header ciphertext ad of
                          (Inl e, _) \<Rightarrow> (Inl e, me')
                        | (Inr plaintext, r) \<Rightarrow>
                            (Inr (\<lparr>ratchet = r, ad_prefix = ad, pending_handshake = None\<rparr>, plaintext), me')))))"

definition session_encrypt :: "'c crypto_scheme \<Rightarrow> ratchet_header serde \<Rightarrow> session \<Rightarrow> bytes
    \<Rightarrow> (error + message) \<times> session" where
  "session_encrypt C S s plaintext =
     (case ratchet_encrypt C S (ratchet s) plaintext (ad_prefix s) of
        (Inl e, r) \<Rightarrow> (Inl e, s\<lparr>ratchet := r\<rparr>)
      | (Inr (header, ciphertext), r) \<Rightarrow>
          (Inr (case pending_handshake s of
                  Some hs \<Rightarrow> PreKey hs header ciphertext
                | None \<Rightarrow> Normal header ciphertext), s\<lparr>ratchet := r\<rparr>))"

definition session_decrypt :: "'c crypto_scheme \<Rightarrow> ratchet_header serde \<Rightarrow> bytes \<Rightarrow> session \<Rightarrow> message
    \<Rightarrow> (error + bytes) \<times> session" where
  "session_decrypt C S new_self s m =
     (let (header, ciphertext) = (case m of PreKey _ h ct \<Rightarrow> (h, ct) | Normal h ct \<Rightarrow> (h, ct))
      in case ratchet_decrypt C S new_self (ratchet s) header ciphertext (ad_prefix s) of
           (Inl e, r) \<Rightarrow> (Inl e, s\<lparr>ratchet := r\<rparr>)
         | (Inr plaintext, r) \<Rightarrow> (Inr plaintext, s\<lparr>ratchet := r, pending_handshake := None\<rparr>))"

record stored_session =
  ss_ratchet :: bytes
  ss_ad_prefix :: bytes
  ss_pending_handshake :: "handshake_header option"

definition session_serialize :: "stored_ratchet serde \<Rightarrow> stored_session serde \<Rightarrow> session \<Rightarrow> bytes" where
  "session_serialize R S s =
     ser S \<lparr>ss_ratchet = ratchet_serialize R (ratchet s), ss_ad_prefix = ad_prefix s,
            ss_pending_handshake = pending_handshake s\<rparr>"

definition session_deserialize :: "stored_ratchet serde \<Rightarrow> stored_session serde \<Rightarrow> bytes \<Rightarrow> error + session" where
  "session_deserialize R S bs =
     (case de S bs of
        Inl e \<Rightarrow> Inl (Wire e)
      | Inr s \<Rightarrow> (case ratchet_deserialize R (ss_ratchet s) of
          Inl e \<Rightarrow> Inl e
        | Inr r \<Rightarrow> Inr \<lparr>ratchet = r, ad_prefix = ss_ad_prefix s,
                        pending_handshake = ss_pending_handshake s\<rparr>))"

text \<open>Encrypting several messages in a row.\<close>

primrec session_encrypt_all :: "'c crypto_scheme \<Rightarrow> ratchet_header serde \<Rightarrow> session \<Rightarrow> bytes list
    \<Rightarrow> (error + message) list \<times> session" where
  "session_encrypt_all C S s [] = ([], s)"
| "session_encrypt_all C S s (pt # pts) =
     (let (m, s') = session_encrypt C S s pt; (ms, s'') = session_encrypt_all C S s' pts in (m # ms, s''))"

text \<open>The packet a message carries, as the network of theory \<open>Conversation\<close> sees it.\<close>

fun message_packet :: "message \<Rightarrow> bytes \<Rightarrow> packet" where
  "message_packet (PreKey hs h ct) pt = \<lparr>pk_header = h, pk_ct = ct, pk_plain = pt\<rparr>"
| "message_packet (Normal h ct) pt = \<lparr>pk_header = h, pk_ct = ct, pk_plain = pt\<rparr>"

text \<open>Concrete formats, and a concrete exchange between two accounts.\<close>

definition handshake_header_fmt :: "handshake_header fmt" where
  "handshake_header_fmt = fmt_via
     (\<lambda>h. (hh_identity_ed h, hh_identity_dh h, hh_ephemeral_dh h, hh_signed_prekey_id h,
           hh_one_time_prekey_id h, hh_kyber_prekey_id h, hh_kyber_ciphertext h))
     (\<lambda>(a, b, c, d, e, f, g). \<lparr>hh_identity_ed = a, hh_identity_dh = b, hh_ephemeral_dh = c,
        hh_signed_prekey_id = d, hh_one_time_prekey_id = e, hh_kyber_prekey_id = f, hh_kyber_ciphertext = g\<rparr>)
     (fmt_pair fmt_bytes (fmt_pair fmt_bytes (fmt_pair fmt_bytes (fmt_pair fmt_u32
       (fmt_pair (fmt_option fmt_u32) (fmt_pair fmt_u32 fmt_bytes))))))"

definition stored_session_fmt :: "stored_session fmt" where
  "stored_session_fmt = fmt_via
     (\<lambda>s. (ss_ratchet s, ss_ad_prefix s, ss_pending_handshake s))
     (\<lambda>(a, b, c). \<lparr>ss_ratchet = a, ss_ad_prefix = b, ss_pending_handshake = c\<rparr>)
     (fmt_pair fmt_bytes (fmt_pair fmt_bytes (fmt_option handshake_header_fmt)))"

definition demo_opk :: "(u32 \<times> bytes) option" where
  "demo_opk = Some (1, x25519_public demo_crypto [8, 4, 1])"

section \<open>The handshake starts a conversation\<close>

lemma initiate_starts:
  assumes "sig_ok C" "handshake_initiate C eph rng a (served_bundle C b opk) = Inr (root, hs, q)"
  shows "session_initiate C eph rng new a (served_bundle C b opk) =
    Inr \<lparr>ratchet = init_initiator C new root q,
         ad_prefix = make_ad_prefix (hh_identity_ed hs) (identity_public C b), pending_handshake = Some hs\<rparr>"
  using assms by (simp add: session_initiate_def served_bundle_verifies)

lemma respond_starts:
  assumes "handshake_respond C b hs = (Inr root, spend opk b)" "hh_signed_prekey_id hs = signed_prekey_id b"
  shows "session_respond C S new b (PreKey hs h ct) =
    (case ratchet_decrypt C S new (init_responder C root (signed_prekey_secret b)) h ct
       (make_ad_prefix (hh_identity_ed hs) (identity_public C b)) of
       (Inl e, _) \<Rightarrow> (Inl e, spend opk b)
     | (Inr pt, r) \<Rightarrow> (Inr (\<lparr>ratchet = r, ad_prefix = make_ad_prefix (hh_identity_ed hs) (identity_public C b),
         pending_handshake = None\<rparr>, pt), spend opk b))"
  using assms
  by (simp add: session_respond_def account_signed_prekey_def identity_ed_bytes_def identity_public_def Let_def
      split: prod.split sum.split)

text \<open>The initiator's messages before any reply are sends of the conversation, each with the handshake.\<close>

lemma initiator_sends:
  assumes "conv_reach C S pfx c0 c" "ratchet s = alice c" "ad_prefix s = pfx" "pending_handshake s = Some hs"
    and "chain_send (alice c) \<noteq> None" "unat (n_send (alice c)) + length pts < 2 ^ 32"
  shows "\<exists>c' ms. conv_reach C S pfx c0 c' \<and> session_encrypt_all C S s pts = (map Inr ms, s\<lparr>ratchet := alice c'\<rparr>) \<and>
    length ms = length pts \<and> to_bob c' = to_bob c @ map2 message_packet ms pts \<and> bob c' = bob c \<and>
    used c' = used c \<and> sent c' = sent c + length pts \<and> (\<forall>m\<in>set ms. \<exists>h ct. m = PreKey hs h ct)"
  using assms
proof (induction pts arbitrary: s c)
  case Nil
  then show ?case by (intro exI [of _ c]) simp
next
  case (Cons pt pts)
  obtain h ct st' where E: "ratchet_encrypt C S (alice c) pt pfx = (Inr (h, ct), st')"
    using encrypt_ready [OF Cons.prems(5)] by blast
  let ?c = "c\<lparr>alice := st', sent := Suc (sent c), to_bob := to_bob c @ [\<lparr>pk_header = h, pk_ct = ct, pk_plain = pt\<rparr>]\<rparr>"
  have "conv_step C S pfx c ?c"
    using Cons.prems(6) by (intro conv_step.alice_sends [OF E]) (simp add: can_count_def)
  with Cons.prems(1) have reach: "conv_reach C S pfx c0 ?c" by (rule conv_reach.step)
  have st': "chain_send st' \<noteq> None" "n_send st' = n_send (alice c) + 1"
    using E by (auto simp: ratchet_encrypt_def Let_def split: option.splits prod.splits)
  have n: "unat (n_send st') + length pts < 2 ^ 32"
    using Cons.prems(6) by (simp add: st'(2) unat_word_ariths)
  have enc: "session_encrypt C S s pt = (Inr (PreKey hs h ct), s\<lparr>ratchet := st'\<rparr>)"
    using E Cons.prems(2-4) by (simp add: session_encrypt_def)
  have "\<exists>c' ms. conv_reach C S pfx c0 c' \<and> session_encrypt_all C S (s\<lparr>ratchet := st'\<rparr>) pts = (map Inr ms, s\<lparr>ratchet := alice c'\<rparr>) \<and>
    length ms = length pts \<and> to_bob c' = to_bob ?c @ map2 message_packet ms pts \<and> bob c' = bob ?c \<and>
    used c' = used ?c \<and> sent c' = sent ?c + length pts \<and> (\<forall>m\<in>set ms. \<exists>h ct. m = PreKey hs h ct)"
    using Cons.IH [OF reach, of "s\<lparr>ratchet := st'\<rparr>"] Cons.prems(3,4) st' n by simp
  then obtain c' ms where IH: "conv_reach C S pfx c0 c'"
    "session_encrypt_all C S (s\<lparr>ratchet := st'\<rparr>) pts = (map Inr ms, s\<lparr>ratchet := alice c'\<rparr>)"
    "length ms = length pts" "to_bob c' = to_bob ?c @ map2 message_packet ms pts" "bob c' = bob c"
    "used c' = used c" "sent c' = Suc (sent c) + length pts" "\<forall>m\<in>set ms. \<exists>h ct. m = PreKey hs h ct"
    by auto
  show ?case
    by (intro exI [of _ c'] exI [of _ "PreKey hs h ct # ms"]) (use IH enc in auto)
qed

lemma handshake_header_fmt_ok [fmt_laws]: "fmt_ok handshake_header_fmt"
  unfolding handshake_header_fmt_def by (intro fmt_laws) simp

lemma stored_session_fmt_ok: "fmt_ok stored_session_fmt"
  unfolding stored_session_fmt_def by (intro fmt_laws) simp

lemma first_sends:
  fixes C :: "'c crypto_scheme" and root k0 k1 :: bytes
  assumes "length pts < 2 ^ 32"
  defines "c0 \<equiv> start_conv C root k0 k1"
  shows "\<exists>c ms. conv_reach C S pfx c0 c \<and>
    session_encrypt_all C S \<lparr>ratchet = alice c0, ad_prefix = pfx, pending_handshake = Some hs\<rparr> pts =
      (map Inr ms, \<lparr>ratchet = alice c, ad_prefix = pfx, pending_handshake = Some hs\<rparr>) \<and>
    length ms = length pts \<and> to_bob c = map2 message_packet ms pts \<and> bob c = init_responder C root k0 \<and>
    used c = [x25519_public C k0, x25519_public C k1] \<and> sent c = length pts \<and>
    (\<forall>m\<in>set ms. \<exists>h ct. m = PreKey hs h ct)"
proof -
  let ?s = "\<lparr>ratchet = alice c0, ad_prefix = pfx, pending_handshake = Some hs\<rparr>"
  have start: "conv_reach C S pfx c0 c0" by (rule conv_reach.start)
  have "n_send (alice c0) = 0" "chain_send (alice c0) \<noteq> None" "to_bob c0 = []" "sent c0 = 0"
    "bob c0 = init_responder C root k0" "used c0 = [x25519_public C k0, x25519_public C k1]"
    by (simp_all add: c0_def start_conv_def init_initiator_def split: prod.split)
  then show ?thesis
    using initiator_sends [OF start, of ?s hs pts] assms(1) by simp
qed

lemma demo_account_wf: "kyber_wf demo_crypto (kyber (demo_account x))"
  using account_wf_generate [OF demo_kem_ok, of "demo_rng x" 2] by (simp add: demo_account_def account_wf_def)

lemma demo_offered: "offered demo_crypto (demo_account 8) demo_opk"
proof -
  have "fmlookup (one_time_prekeys (demo_account 8)) 1 = Some [8, 4, 1]"
    by (simp add: demo_account_def generate_with_prekeys_def mint_prekeys_def demo_rng_def upt_rec)
  then show ?thesis by (simp add: offered_def demo_opk_def publics_lookup)
qed

text \<open>Sending does not touch the receiving side; the responder's first decryption gives it a fresh sending chain.\<close>

lemma encrypt_all_receiving:
  "session_encrypt_all C S s pts = (ms, s') \<Longrightarrow> chain_recv (ratchet s') = chain_recv (ratchet s) \<and>
   skipped (ratchet s') = skipped (ratchet s) \<and> dh_remote (ratchet s') = dh_remote (ratchet s)"
proof (induction pts arbitrary: s ms)
  case (Cons pt pts)
  obtain m s1 where e: "session_encrypt C S s pt = (m, s1)" by fastforce
  then have "chain_recv (ratchet s1) = chain_recv (ratchet s) \<and> skipped (ratchet s1) = skipped (ratchet s) \<and>
      dh_remote (ratchet s1) = dh_remote (ratchet s)"
    by (auto simp: session_encrypt_def ratchet_encrypt_def Let_def split: option.splits prod.splits)
  then show ?case using Cons.IH [of s1] Cons.prems by (auto simp: e split: prod.splits)
qed simp

lemma initiator_waits:
  assumes "session_encrypt_all C S \<lparr>ratchet = alice (start_conv C root k0 k1), ad_prefix = pfx, pending_handshake = ph\<rparr> pts = (ms, s')"
  shows "chain_recv (ratchet s') = None" "skipped (ratchet s') = fmempty" "dh_remote (ratchet s') = Some (x25519_public C k0)"
  using encrypt_all_receiving [OF assms] by (simp_all add: start_conv_def init_initiator_def split: prod.splits)

lemma skip_keeps_sending:
  "skip_message_keys C st u = (r, st') \<Longrightarrow>
   dh_self_pub st' = dh_self_pub st \<and> chain_send st' = chain_send st \<and> n_send st' = n_send st"
  by (auto simp: skip_message_keys_def split: option.splits if_splits prod.splits sum.splits)

lemma responder_turned:
  assumes "ratchet_decrypt C S new (init_responder C root k) h ct ad = (Inr pt, st)"
  shows "dh_self_pub st = x25519_public C new \<and> chain_send st \<noteq> None \<and> n_send st = 0"
proof -
  let ?i = "init_responder C root k"
  have i: "skipped ?i = fmempty" "dh_remote ?i = None" "chain_recv ?i = None" by (simp_all add: init_responder_def)
  let ?t = "dh_ratchet C new ?i (rh_dh_pub h)"
  have t: "dh_self_pub ?t = x25519_public C new" "chain_send ?t \<noteq> None" "n_send ?t = 0"
    by (simp_all add: dh_ratchet_def Let_def split: prod.split)
  have "ratchet_advance C ?t h ct (associated_data S ad h) = (Inr pt, st)"
    using assms i by (simp add: ratchet_decrypt_def ratchet_turn_def skip_message_keys_def Let_def)
  then show ?thesis
    using t skip_keeps_sending [of C ?t "rh_n h"]
    by (auto simp: ratchet_advance_def Let_def split: prod.splits sum.splits option.splits)
qed

text \<open>The first answer of the responder decrypts at the initiator.\<close>

lemma reply_decrypts:
  assumes laws: "aead_ok C" "dh_ok C" "x25519_public C k0 \<noteq> x25519_public C k1"
    and reach: "conv_reach C S pfx (start_conv C root k0 k1) c"
    and "ratchet s = alice c" "ad_prefix s = pfx" "chain_recv (alice c) = None" "skipped (alice c) = fmempty"
    and sb: "ratchet sb = bob c" "ad_prefix sb = pfx" "pending_handshake sb = None"
      "chain_send (bob c) \<noteq> None" "n_send (bob c) = 0"
    and remote: "dh_remote (alice c) \<noteq> Some (dh_self_pub (bob c))" and fresh: "x25519_public C new \<notin> set (used c)"
  shows "\<exists>h ct sb'. session_encrypt C S sb reply = (Inr (Normal h ct), sb') \<and>
    fst (session_decrypt C S new s (Normal h ct)) = Inr reply"
proof -
  obtain h ct st' where E: "ratchet_encrypt C S (bob c) reply pfx = (Inr (h, ct), st')"
    using encrypt_ready [OF sb(4)] by blast
  let ?p = "\<lparr>pk_header = h, pk_ct = ct, pk_plain = reply\<rparr>"
  let ?c = "c\<lparr>bob := st', sent := Suc (sent c), to_alice := to_alice c @ [?p]\<rparr>"
  have "conv_step C S pfx c ?c" by (rule conv_step.bob_sends [OF E]) (simp add: can_count_def sb(5))
  with reach have reach': "conv_reach C S pfx (start_conv C root k0 k1) ?c" by (rule conv_reach.step)
  have h: "rh_dh_pub h = dh_self_pub (bob c)" "rh_n h = 0"
    using E sb(5) by (auto simp: ratchet_encrypt_def Let_def split: option.splits prod.splits)
  have "deliverable (alice c) h"
    using remote assms(7,8) by (simp add: deliverable_def limits_ok_def h MAX_SKIPPED_CACHE_def)
  then have "fst (ratchet_decrypt C S new (alice c) h ct pfx) = Inr reply"
    using conv_packet_decrypts [OF laws reach', of "alice c" "to_alice ?c" ?p new] fresh by simp
  then show ?thesis
    using E assms(5,6) sb(1-3) by (auto simp: session_encrypt_def session_decrypt_def split: prod.split)
qed

text \<open>Whichever message of the initiator arrives first, the responder accepts it.\<close>

lemma early_message_accepted:
  assumes "sig_ok C" "aead_ok C" "dh_ok C" "kem_ok C" "kyber_wf C (kyber b)" "offered C b opk"
    and keys: "distinct (map (x25519_public C) [signed_prekey_secret b, new, new'])"
    and pts: "length pts \<le> 1000" "k < length pts"
  shows "\<exists>s ms s' sb root c. session_initiate C eph rng new a (served_bundle C b opk) = Inr s \<and>
    session_encrypt_all C S s pts = (map Inr ms, s') \<and> length ms = length pts \<and>
    session_respond C S new' b (ms ! k) = (Inr (sb, pts ! k), spend opk b) \<and> ad_prefix sb = ad_prefix s' \<and>
    conv_reach C S (ad_prefix sb) (start_conv C root (signed_prekey_secret b) new) c \<and>
    alice c = ratchet s' \<and> bob c = ratchet sb \<and>
    (\<forall>new'' reply. x25519_public C new'' \<notin> x25519_public C ` {signed_prekey_secret b, new, new'} \<longrightarrow>
       (\<exists>h ct sb'. session_encrypt C S sb reply = (Inr (Normal h ct), sb') \<and>
         fst (session_decrypt C S new'' s' (Normal h ct)) = Inr reply))"
proof -
  obtain root hs where H: "handshake_initiate C eph rng a (served_bundle C b opk) =
       Inr (root, hs, x25519_public C (signed_prekey_secret b))"
    "handshake_respond C b hs = (Inr root, spend opk b)" "hh_signed_prekey_id hs = signed_prekey_id b"
    using handshake_agree [OF assms(3-6)] by metis
  define pfx where "pfx = make_ad_prefix (hh_identity_ed hs) (identity_public C b)"
  let ?c0 = "start_conv C root (signed_prekey_secret b) new"
  let ?s = "\<lparr>ratchet = alice ?c0, ad_prefix = pfx, pending_handshake = Some hs\<rparr>"
  have init: "session_initiate C eph rng new a (served_bundle C b opk) = Inr ?s"
    using initiate_starts [OF assms(1) H(1)] by (simp add: pfx_def start_conv_def)
  obtain c ms where M: "conv_reach C S pfx ?c0 c"
    "session_encrypt_all C S ?s pts = (map Inr ms, ?s\<lparr>ratchet := alice c\<rparr>)"
    "length ms = length pts" "to_bob c = map2 message_packet ms pts"
    "bob c = init_responder C root (signed_prekey_secret b)"
    "used c = [x25519_public C (signed_prekey_secret b), x25519_public C new]"
    "sent c = length pts" "\<forall>m\<in>set ms. \<exists>h ct. m = PreKey hs h ct"
    using first_sends [of pts C S pfx root "signed_prekey_secret b" new hs] pts(1) by auto
  obtain h ct where m: "ms ! k = PreKey hs h ct" using M(3,8) pts(2) by (metis nth_mem)
  let ?p = "\<lparr>pk_header = h, pk_ct = ct, pk_plain = pts ! k\<rparr>"
  have "to_bob c ! k = ?p" "k < length (to_bob c)" using M(3,4) m pts(2) by simp_all
  then have p: "?p \<in> set (to_bob c)" by (metis nth_mem)
  have fresh: "x25519_public C new' \<notin> set (used c)" using keys M(6) by auto
  have ok: "deliverable (bob c) h"
    using conv_early_deliverable [OF assms(2,3) _ M(1), of "bob c" "to_bob c" ?p] keys M(7) pts(1) p by simp
  obtain r st where dec: "ratchet_decrypt C S new' (bob c) h ct pfx = (r, st)" by fastforce
  have res: "r = Inr (pts ! k)"
    using conv_packet_decrypts [OF assms(2,3) _ M(1), of "bob c" "to_bob c" ?p new'] keys p ok fresh dec by simp
  have st: "dh_self_pub st = x25519_public C new' \<and> chain_send st \<noteq> None \<and> n_send st = 0"
    using responder_turned [of C S new' root "signed_prekey_secret b" h ct pfx] dec M(5) res by simp
  let ?next = "c\<lparr>bob := st, to_bob := remove1 ?p (to_bob c), used := dh_self_pub st # used c\<rparr>"
  let ?s' = "?s\<lparr>ratchet := alice c\<rparr>" and ?sb = "\<lparr>ratchet = st, ad_prefix = pfx, pending_handshake = None\<rparr>"
  have reach: "conv_reach C S pfx ?c0 ?next"
    by (rule conv_reach.step [OF M(1) conv_step.bob_receives [OF p _ fresh]]) (use ok dec in simp_all)
  note waits = initiator_waits [OF M(2), simplified]
  have replies: "\<exists>h ct sb'. session_encrypt C S ?sb reply = (Inr (Normal h ct), sb') \<and>
      fst (session_decrypt C S new'' ?s' (Normal h ct)) = Inr reply"
    if "x25519_public C new'' \<notin> x25519_public C ` {signed_prekey_secret b, new, new'}" for new'' reply
    by (rule reply_decrypts [OF assms(2,3) _ reach]) (use keys that st waits M(6) in auto)
  show ?thesis
    using init M(1-3,5) respond_starts [OF H(2,3), of S new' h ct] m dec res reach replies
    by (intro exI [of _ ?s] exI [of _ ms] exI [of _ ?s'] exI [of _ ?sb] exI [of _ root] exI [of _ ?next])
      (simp add: pfx_def)
qed

section \<open>Properties\<close>

text \<open>
  C3: end-to-end establishment. The initiator opens a session from a bundle an honest server handed out for
  the responder and sends up to 1000 messages before any reply. Whichever of them reaches the responder
  first (earlier ones may be lost), \<open>Session::respond\<close> accepts it, returns exactly the plaintext sent, and
  removes exactly the one-time prekey the bundle offered from the responder's account. Both ends are then in one
  conversation: whatever the responder answers first, as an ordinary message, decrypts at the initiator.
\<close>

theorem session_establishes:
  assumes "sig_ok C" "aead_ok C" "dh_ok C" "kem_ok C" "kyber_wf C (kyber b)" "offered C b opk"
    and keys: "distinct (map (x25519_public C) [signed_prekey_secret b, new, new'])"
    and pts: "length pts \<le> 1000" "k < length pts"
  shows "\<exists>s ms s' sb root c. session_initiate C eph rng new a (served_bundle C b opk) = Inr s \<and>
    session_encrypt_all C S s pts = (map Inr ms, s') \<and> length ms = length pts \<and>
    session_respond C S new' b (ms ! k) = (Inr (sb, pts ! k), spend opk b) \<and> ad_prefix sb = ad_prefix s' \<and>
    conv_reach C S (ad_prefix sb) (start_conv C root (signed_prekey_secret b) new) c \<and>
    alice c = ratchet s' \<and> bob c = ratchet sb \<and>
    (\<forall>new'' reply. x25519_public C new'' \<notin> x25519_public C ` {signed_prekey_secret b, new, new'} \<longrightarrow>
       (\<exists>h ct sb'. session_encrypt C S sb reply = (Inr (Normal h ct), sb') \<and>
         fst (session_decrypt C S new'' s' (Normal h ct)) = Inr reply))"
  using assms by (rule early_message_accepted)

theorem session_establishes_witness:
  "\<exists>s ms s' sb. session_initiate demo_crypto [20] [21] [22] (demo_account 7)
       (served_bundle demo_crypto (demo_account 8) demo_opk) = Inr s \<and>
    session_encrypt_all demo_crypto demo_header_serde s [[104], [105]] = (map Inr ms, s') \<and> length ms = 2 \<and>
    session_respond demo_crypto demo_header_serde [23] (demo_account 8) (ms ! 1) =
      (Inr (sb, [105]), spend demo_opk (demo_account 8))"
proof -
  have "distinct (map (x25519_public demo_crypto) [signed_prekey_secret (demo_account 8), [22], [23]])"
    by (simp add: demo_account_def generate_with_prekeys_def demo_rng_def demo_crypto_def pad_to_def)
  then show ?thesis
    using session_establishes [OF demo_sig_ok demo_aead_ok demo_dh_ok demo_kem_ok demo_account_wf demo_offered,
        of "[22]" "[23]" "[[104], [105]]" 1 "[20]" "[21]" "demo_account 7" demo_header_serde]
    by auto
qed



text \<open>
  A session written to bytes and read back is the same session: ratchet, associated data and pending handshake.
\<close>

lemma session_roundtrip:
  "serde_ok R \<Longrightarrow> serde_ok S \<Longrightarrow> session_deserialize R S (session_serialize R S s) = Inr s"
  by (simp add: session_deserialize_def session_serialize_def ratchet_roundtrip)

text \<open>
  What a device stores, it restores. The stored forms of an account, of a session (ratchet with its cached keys,
  associated data, pending handshake) and of a bare ratchet read back as they were; stored account bytes whose ML-KEM
  key has the wrong length are refused with \<open>MalformedKey\<close> instead of giving a broken account.
\<close>

lemma stored_state_roundtrip:
  assumes "serde_ok A" "serde_ok R" "serde_ok S"
  shows "(account_wf C a \<longrightarrow> account_from_bytes C A (account_to_bytes A a) = Inr a) \<and>
    (\<not> kyber_wf C (kyber a) \<longrightarrow> account_from_bytes C A (account_to_bytes A a) = Inl MalformedKey) \<and>
    session_deserialize R S (session_serialize R S s) = Inr s \<and>
    ratchet_deserialize R (ratchet_serialize R st) = Inr st"
  using account_roundtrip [OF assms(1)] session_roundtrip [OF assms(2,3)] ratchet_roundtrip [OF assms(2)] by blast

end
