(* ===== verification/Enclave.thy ===== *)
theory Enclave
  imports Session
begin

text \<open>
  The enclave boundary of \<^verbatim>\<open>core/src/enclave.rs\<close>: every operation opens sealed state, runs the account or
  session operation and seals the result. The encoders of the stored types are gathered in one record.
\<close>

record codecs =
  cd_account :: "stored_account serde"
  cd_ratchet :: "stored_ratchet serde"
  cd_session :: "stored_session serde"
  cd_header :: "ratchet_header serde"

definition SEAL_AD_ACCOUNT :: bytes where
  "SEAL_AD_ACCOUNT = byte_lit ''Clarity-seal-account-v1''"

definition SEAL_AD_SESSION :: bytes where
  "SEAL_AD_SESSION = byte_lit ''Clarity-seal-session-v1''"

datatype sealed = Sealed bytes

primrec sealed_as_bytes :: "sealed \<Rightarrow> bytes" where
  "sealed_as_bytes (Sealed bs) = bs"

definition sealed_from_bytes :: "bytes \<Rightarrow> sealed" where
  "sealed_from_bytes bs = Sealed bs"

record enclave =
  seal_key :: bytes

definition enclave_initialize :: "bytes \<Rightarrow> enclave" where
  "enclave_initialize rng = \<lparr>seal_key = rng\<rparr>"

definition enclave_from_seal_key :: "bytes \<Rightarrow> enclave" where
  "enclave_from_seal_key k = \<lparr>seal_key = k\<rparr>"

definition seal_secret :: "'c crypto_scheme \<Rightarrow> enclave \<Rightarrow> bytes \<Rightarrow> bytes \<Rightarrow> sealed" where
  "seal_secret C e ctx plaintext = Sealed (aead_seal C (seal_key e) plaintext ctx)"

definition open_account :: "'c crypto_scheme \<Rightarrow> codecs \<Rightarrow> enclave \<Rightarrow> sealed \<Rightarrow> error + account" where
  "open_account C D e x =
     (case aead_open C (seal_key e) (sealed_as_bytes x) SEAL_AD_ACCOUNT of
        Inl err \<Rightarrow> Inl err
      | Inr bs \<Rightarrow> account_from_bytes C (cd_account D) bs)"

definition open_session :: "'c crypto_scheme \<Rightarrow> codecs \<Rightarrow> enclave \<Rightarrow> sealed \<Rightarrow> error + session" where
  "open_session C D e x =
     (case aead_open C (seal_key e) (sealed_as_bytes x) SEAL_AD_SESSION of
        Inl err \<Rightarrow> Inl err
      | Inr bs \<Rightarrow> session_deserialize (cd_ratchet D) (cd_session D) bs)"

definition create_account :: "'c crypto_scheme \<Rightarrow> codecs \<Rightarrow> account_rng \<Rightarrow> enclave \<Rightarrow> sealed \<times> bytes" where
  "create_account C D rng e =
     (let a = generate_account C rng;
          identity = identity_public C a;
          x = seal_secret C e SEAL_AD_ACCOUNT (account_to_bytes (cd_account D) a)
      in (x, identity))"

definition enclave_account_bundle :: "'c crypto_scheme \<Rightarrow> codecs \<Rightarrow> enclave \<Rightarrow> sealed
    \<Rightarrow> error + prekey_bundle \<times> one_time_prekey_publics" where
  "enclave_account_bundle C D e sealed_account =
     (case open_account C D e sealed_account of
        Inl err \<Rightarrow> Inl err
      | Inr a \<Rightarrow> Inr ((account_bundle C a)\<lparr>pb_one_time_prekey := None, pb_one_time_prekey_id := None\<rparr>,
                       account_one_time_prekey_publics C a))"

definition enclave_initiate :: "'c crypto_scheme \<Rightarrow> codecs \<Rightarrow> bytes \<Rightarrow> bytes \<Rightarrow> bytes \<Rightarrow> enclave \<Rightarrow> sealed
    \<Rightarrow> prekey_bundle \<Rightarrow> error + sealed" where
  "enclave_initiate C D ephemeral rng new_self e sealed_account b =
     (case open_account C D e sealed_account of
        Inl err \<Rightarrow> Inl err
      | Inr a \<Rightarrow> (case session_initiate C ephemeral rng new_self a b of
          Inl err \<Rightarrow> Inl err
        | Inr s \<Rightarrow> Inr (seal_secret C e SEAL_AD_SESSION (session_serialize (cd_ratchet D) (cd_session D) s))))"

definition enclave_respond :: "'c crypto_scheme \<Rightarrow> codecs \<Rightarrow> bytes \<Rightarrow> enclave \<Rightarrow> sealed \<Rightarrow> message
    \<Rightarrow> error + sealed \<times> sealed \<times> bytes" where
  "enclave_respond C D new_self e sealed_account first_message =
     (case open_account C D e sealed_account of
        Inl err \<Rightarrow> Inl err
      | Inr a \<Rightarrow> (case session_respond C (cd_header D) new_self a first_message of
          (Inl err, _) \<Rightarrow> Inl err
        | (Inr (s, plaintext), a') \<Rightarrow>
            Inr (seal_secret C e SEAL_AD_ACCOUNT (account_to_bytes (cd_account D) a'),
                 seal_secret C e SEAL_AD_SESSION (session_serialize (cd_ratchet D) (cd_session D) s),
                 plaintext)))"

definition enclave_encrypt :: "'c crypto_scheme \<Rightarrow> codecs \<Rightarrow> enclave \<Rightarrow> sealed \<Rightarrow> bytes
    \<Rightarrow> error + sealed \<times> message" where
  "enclave_encrypt C D e sealed_session plaintext =
     (case open_session C D e sealed_session of
        Inl err \<Rightarrow> Inl err
      | Inr s \<Rightarrow> (case session_encrypt C (cd_header D) s plaintext of
          (Inl err, _) \<Rightarrow> Inl err
        | (Inr m, s') \<Rightarrow>
            Inr (seal_secret C e SEAL_AD_SESSION (session_serialize (cd_ratchet D) (cd_session D) s'), m)))"

definition enclave_decrypt :: "'c crypto_scheme \<Rightarrow> codecs \<Rightarrow> bytes \<Rightarrow> enclave \<Rightarrow> sealed \<Rightarrow> message
    \<Rightarrow> error + sealed \<times> bytes" where
  "enclave_decrypt C D new_self e sealed_session m =
     (case open_session C D e sealed_session of
        Inl err \<Rightarrow> Inl err
      | Inr s \<Rightarrow> (case session_decrypt C (cd_header D) new_self s m of
          (Inl err, _) \<Rightarrow> Inl err
        | (Inr plaintext, s') \<Rightarrow>
            Inr (seal_secret C e SEAL_AD_SESSION (session_serialize (cd_ratchet D) (cd_session D) s'), plaintext)))"

text \<open>The sealed form of an account and of a session.\<close>

definition seal_account :: "'c crypto_scheme \<Rightarrow> codecs \<Rightarrow> enclave \<Rightarrow> account \<Rightarrow> sealed" where
  "seal_account C D e a = seal_secret C e SEAL_AD_ACCOUNT (account_to_bytes (cd_account D) a)"

definition seal_session :: "'c crypto_scheme \<Rightarrow> codecs \<Rightarrow> enclave \<Rightarrow> session \<Rightarrow> sealed" where
  "seal_session C D e s =
     seal_secret C e SEAL_AD_SESSION (session_serialize (cd_ratchet D) (cd_session D) s)"

definition codecs_ok :: "codecs \<Rightarrow> bool" where
  "codecs_ok D \<longleftrightarrow> serde_ok (cd_account D) \<and> serde_ok (cd_ratchet D) \<and> serde_ok (cd_session D)"

definition demo_codecs :: codecs where
  "demo_codecs = \<lparr>cd_account = serde_of stored_account_fmt, cd_ratchet = serde_of stored_ratchet_fmt,
     cd_session = serde_of stored_session_fmt, cd_header = demo_header_serde\<rparr>"

section \<open>Opening sealed state\<close>

lemma account_bytes_roundtrip:
  "serde_ok S \<Longrightarrow> account_wf C a \<Longrightarrow> account_from_bytes C S (account_to_bytes S a) = Inr a"
  by (simp add: account_from_bytes_def account_to_bytes_def account_wf_def)

lemma session_bytes_roundtrip:
  "serde_ok R \<Longrightarrow> serde_ok S \<Longrightarrow> session_deserialize R S (session_serialize R S s) = Inr s"
  by (simp add: session_deserialize_def session_serialize_def ratchet_deserialize_def ratchet_serialize_def)

lemma open_seal_account [simp]:
  "aead_ok C \<Longrightarrow> codecs_ok D \<Longrightarrow> account_wf C a \<Longrightarrow> open_account C D e (seal_account C D e a) = Inr a"
  by (simp add: open_account_def seal_account_def seal_secret_def codecs_ok_def account_bytes_roundtrip)

lemma open_seal_session [simp]:
  "aead_ok C \<Longrightarrow> codecs_ok D \<Longrightarrow> open_session C D e (seal_session C D e s) = Inr s"
  by (simp add: open_session_def seal_session_def seal_secret_def codecs_ok_def session_bytes_roundtrip)

lemma demo_codecs_ok: "codecs_ok demo_codecs"
  by (simp add: codecs_ok_def demo_codecs_def serde_of_ok stored_account_fmt_ok stored_ratchet_fmt_ok
      stored_session_fmt_ok)

section \<open>Properties\<close>



text \<open>
  Every blob an enclave seals is encrypted under one and the same cipher key and nonce: the pair is derived
  from the sealing key alone, so neither the context nor the secret nor the number of earlier seals changes it.
  Sealing is a function of its input, and two different secrets are sealed under a repeated nonce.
\<close>

lemma enclave_nonce_fixed:
  "\<exists>key nonce. \<forall>ctx plaintext. seal_secret C e ctx plaintext = Sealed (xchacha_encrypt C key nonce plaintext ctx)"
  by (cases "derive_message_material C (seal_key e)") (auto simp: seal_secret_def aead_seal_def)

end
