(* ===== verification/Envelope.thy ===== *)
theory Envelope
  imports Identity Kdf
begin

text \<open>
  Sealed-sender envelopes of \<^verbatim>\<open>core/src/envelope.rs\<close>: size buckets, sealing to a recipient's identity
  DH key, opening. \<open>usize\<close> lengths are natural numbers (an in-memory buffer is far below the 64-bit bound);
  the cast \<open>payload.len() as u32\<close> keeps its truncation.
\<close>

definition SEALED_ENVELOPE_VERSION :: u8 where
  "SEALED_ENVELOPE_VERSION = 2"

definition HEADER_LEN :: nat where
  "HEADER_LEN = 1 + 32"

definition INNER_PREFIX_LEN :: nat where
  "INNER_PREFIX_LEN = 64"

definition LEN_PREFIX :: nat where
  "LEN_PREFIX = 4"

definition MIN_BUCKET :: nat where
  "MIN_BUCKET = 512"

definition MAX_POW2_BUCKET :: nat where
  "MAX_POW2_BUCKET = 8 * 1024"

text \<open>\<open>usize::next_power_of_two\<close> and \<open>usize::div_ceil\<close> of the standard library.\<close>

fun next_power_of_two :: "nat \<Rightarrow> nat" where
  "next_power_of_two n = (if n \<le> 1 then 1 else 2 * next_power_of_two ((n + 1) div 2))"

declare next_power_of_two.simps [simp del]

definition div_ceil :: "nat \<Rightarrow> nat \<Rightarrow> nat" where
  "div_ceil n d = (n + d - 1) div d"

definition bucket :: "nat \<Rightarrow> nat" where
  "bucket len =
     (let needed = len + LEN_PREFIX
      in if needed \<le> MIN_BUCKET then MIN_BUCKET
         else if needed \<le> MAX_POW2_BUCKET then next_power_of_two needed
         else div_ceil needed MAX_POW2_BUCKET * MAX_POW2_BUCKET)"

record opened_envelope =
  sender_identity_ed :: bytes
  sender_identity_dh :: bytes
  payload :: bytes

definition derive_seal_key :: "'c crypto_scheme \<Rightarrow> bytes \<Rightarrow> bytes \<Rightarrow> bytes \<Rightarrow> bytes" where
  "derive_seal_key C shared eph_pub recipient_dh =
     hkdf_sha256 C (byte_lit ''Clarity-sealed-salt-v1'') shared
       (byte_lit ''Clarity-sealed-v1'' @ eph_pub @ recipient_dh) 32"

text \<open>\<open>Vec::resize\<close>.\<close>

definition resize :: "nat \<Rightarrow> u8 \<Rightarrow> bytes \<Rightarrow> bytes" where
  "resize k x bs = take k bs @ replicate (k - length bs) x"

definition seal_envelope :: "'c crypto_scheme \<Rightarrow> bytes \<Rightarrow> account \<Rightarrow> bytes \<Rightarrow> bytes \<Rightarrow> bytes" where
  "seal_envelope C eph_secret sender recipient_identity_dh pl =
     (let eph_pub = x25519_public C eph_secret;
          shared = x25519_dh C eph_secret recipient_identity_dh;
          seal_key = derive_seal_key C shared eph_pub recipient_identity_dh;
          padded = bucket (length pl);
          inner = resize (INNER_PREFIX_LEN + padded) 0
            (identity_public C sender @ identity_dh_public C sender
             @ u32_to_le_bytes (usize_as_u32 (length pl)) @ pl);
          ciphertext = aead_seal C seal_key inner eph_pub
      in SEALED_ENVELOPE_VERSION # eph_pub @ ciphertext)"

text \<open>The part of \<open>open_envelope\<close> after decryption.\<close>

definition parse_inner :: "bytes \<Rightarrow> error + opened_envelope" where
  "parse_inner inner =
     (if length inner < INNER_PREFIX_LEN + LEN_PREFIX then Inl Decrypt
      else let payload_len = unat (u32_from_le_bytes (take LEN_PREFIX (drop INNER_PREFIX_LEN inner)));
               start = INNER_PREFIX_LEN + LEN_PREFIX
           in if payload_len > length inner - start then Inl Decrypt
              else Inr \<lparr>sender_identity_ed = take 32 inner,
                        sender_identity_dh = take 32 (drop 32 inner),
                        payload = take payload_len (drop start inner)\<rparr>)"

definition open_envelope :: "'c crypto_scheme \<Rightarrow> account \<Rightarrow> bytes \<Rightarrow> error + opened_envelope" where
  "open_envelope C recipient blob =
     (if length blob \<le> HEADER_LEN \<or> blob ! 0 \<noteq> SEALED_ENVELOPE_VERSION then Inl Decrypt
      else let eph_pub = take (HEADER_LEN - 1) (drop 1 blob);
               ciphertext = drop HEADER_LEN blob;
               recipient_dh_pub = identity_dh_public C recipient;
               shared = x25519_dh C (dh_identity recipient) eph_pub;
               seal_key = derive_seal_key C shared eph_pub recipient_dh_pub
           in case aead_open C seal_key ciphertext eph_pub of
                Inl e \<Rightarrow> Inl e
              | Inr inner \<Rightarrow> parse_inner inner)"

text \<open>The padded sizes there are.\<close>

definition is_bucket :: "nat \<Rightarrow> bool" where
  "is_bucket b \<longleftrightarrow> b \<in> {512, 1024, 2048, 4096} \<or> (0 < b \<and> b mod 8192 = 0)"

section \<open>Buckets\<close>

lemma next_power_of_two_eq:
  "\<exists>k. next_power_of_two n = 2 ^ k \<and> n \<le> 2 ^ k \<and> (k = 0 \<or> 2 ^ (k - 1) < n)"
proof (induction n rule: next_power_of_two.induct)
  case (1 n)
  show ?case
  proof (cases "n \<le> 1")
    case True
    then show ?thesis by (intro exI [of _ 0]) (simp add: next_power_of_two.simps)
  next
    case False
    then obtain k where k: "next_power_of_two ((n + 1) div 2) = 2 ^ k" "(n + 1) div 2 \<le> 2 ^ k"
      "k = 0 \<or> 2 ^ (k - 1) < (n + 1) div 2"
      using 1 by blast
    have "2 ^ k < n" using k(3) False by (cases k) auto
    moreover have "n \<le> 2 * 2 ^ k" using k(2) by linarith
    ultimately show ?thesis
      using False k(1) by (intro exI [of _ "Suc k"]) (simp add: next_power_of_two.simps [of n])
  qed
qed

lemma pow2_between:
  assumes "(2 :: nat) ^ (k - 1) < n" "n \<le> 2 ^ k" "512 < n" "n \<le> 8192"
  shows "k \<in> {10, 11, 12, 13}"
proof -
  have "(2 :: nat) ^ 9 < 2 ^ k" using assms by simp
  then have "9 < k" by (rule power_less_imp_less_exp [rotated]) simp
  have "(2 :: nat) ^ (k - 1) < 2 ^ 13" using assms by simp
  then have "k - 1 < 13" by (rule power_less_imp_less_exp [rotated]) simp
  then show ?thesis using \<open>9 < k\<close> by auto
qed

lemma bucket_small: "len + 4 \<le> 512 \<Longrightarrow> bucket len = 512"
  by (simp add: bucket_def LEN_PREFIX_def MIN_BUCKET_def)

lemma bucket_pow2:
  assumes "512 < len + 4" "len + 4 \<le> 8192"
  shows "bucket len \<in> {1024, 2048, 4096, 8192} \<and> len + 4 \<le> bucket len \<and> bucket len < 2 * (len + 4)"
proof -
  have b: "bucket len = next_power_of_two (len + 4)"
    using assms by (simp add: bucket_def LEN_PREFIX_def MIN_BUCKET_def MAX_POW2_BUCKET_def Let_def)
  obtain k where k: "next_power_of_two (len + 4) = 2 ^ k" "len + 4 \<le> 2 ^ k" "k = 0 \<or> 2 ^ (k - 1) < len + 4"
    using next_power_of_two_eq by blast
  have "k \<noteq> 0" using k(2) by (cases k) auto
  then have "k \<in> {10, 11, 12, 13}" using k(2,3) assms by (intro pow2_between [of k "len + 4"]) auto
  then show ?thesis using k(2,3) b k(1) by auto
qed

lemma bucket_large:
  assumes "8192 < len + 4"
  obtains q where "bucket len = q * 8192" "len + 4 \<le> q * 8192" "q * 8192 < len + 4 + 8192"
proof
  let ?q = "(len + 8195) div 8192"
  show "bucket len = ?q * 8192"
    using assms by (simp add: bucket_def LEN_PREFIX_def MIN_BUCKET_def MAX_POW2_BUCKET_def Let_def div_ceil_def)
  have "?q * 8192 + (len + 8195) mod 8192 = len + 8195" "(len + 8195) mod 8192 < 8192" by simp_all
  then show "len + 4 \<le> ?q * 8192" "?q * 8192 < len + 4 + 8192" by linarith+
qed

section \<open>Sealing and opening\<close>

lemma length_resize [simp]: "length (resize k x bs) = k"
  by (simp add: resize_def)

lemma resize_pad: "length bs \<le> k \<Longrightarrow> resize k x bs = bs @ replicate (k - length bs) x"
  by (simp add: resize_def)

lemma bucket_room: "len + 4 \<le> bucket len"
proof -
  consider "len + 4 \<le> 512" | "512 < len + 4" "len + 4 \<le> 8192" | "8192 < len + 4" by linarith
  then show ?thesis
  proof cases
    case 1
    then show ?thesis by (simp add: bucket_small)
  next
    case 2
    then show ?thesis using bucket_pow2 by blast
  next
    case 3
    then show ?thesis by (rule bucket_large) simp
  qed
qed

lemma unat_usize_mod: "unat (usize_as_u32 k) = k mod 2 ^ 32"
  by (simp add: usize_as_u32_def unat_of_nat take_bit_eq_mod)

lemma parse_inner_resize:
  assumes "length ed = 32" "length dh = 32" "length pl + 68 \<le> k"
  shows "parse_inner (resize k 0 (ed @ dh @ u32_to_le_bytes (usize_as_u32 (length pl)) @ pl)) =
    Inr \<lparr>sender_identity_ed = ed, sender_identity_dh = dh, payload = take (length pl mod 2 ^ 32) pl\<rparr>"
proof -
  have "length pl mod 2 ^ 32 \<le> length pl"
    "take 4 (u32_to_le_bytes (usize_as_u32 (length pl))) = u32_to_le_bytes (usize_as_u32 (length pl))" by simp_all
  then show ?thesis
    using assms
    by (simp add: parse_inner_def resize_pad Let_def INNER_PREFIX_LEN_def LEN_PREFIX_def unat_usize_mod)
qed

lemma open_sealed:
  assumes "aead_ok C" "dh_ok C" "dh_len C" "sig_ok C" "aead_tag_len C"
  shows "open_envelope C r (seal_envelope C eph s (identity_dh_public C r) pl) =
      Inr \<lparr>sender_identity_ed = identity_public C s, sender_identity_dh = identity_dh_public C s,
           payload = take (length pl mod 2 ^ 32) pl\<rparr>"
proof -
  have len: "length (x25519_public C k) = 32" "length (identity_public C s) = 32" for k
    using assms(3,4) by (simp_all add: dh_len_def sig_ok_def identity_public_def)
  let ?inner = "resize (INNER_PREFIX_LEN + bucket (length pl)) 0 (identity_public C s @ identity_dh_public C s
      @ u32_to_le_bytes (usize_as_u32 (length pl)) @ pl)"
  have "parse_inner ?inner = Inr \<lparr>sender_identity_ed = identity_public C s,
      sender_identity_dh = identity_dh_public C s, payload = take (length pl mod 2 ^ 32) pl\<rparr>"
    by (rule parse_inner_resize)
      (use len bucket_room [of "length pl"] in \<open>simp_all add: identity_dh_public_def INNER_PREFIX_LEN_def\<close>)
  moreover have "x25519_dh C (dh_identity r) (x25519_public C eph) = x25519_dh C eph (identity_dh_public C r)"
    using assms(2) by (simp add: dh_ok_def identity_dh_public_def)
  ultimately show ?thesis
    using assms(1,5) len(1)
    by (simp add: open_envelope_def seal_envelope_def Let_def HEADER_LEN_def length_aead_seal)
qed

section \<open>Properties\<close>

text \<open>
  Opening what was sealed. The recipient of an envelope sealed to its identity DH key gets the sender's two
  identity keys and the payload. The length prefix is 32 bits wide: a payload of 4 GiB or more is cut to its
  length modulo \<open>2 ^ 32\<close>; any shorter payload comes back whole.
\<close>

lemma open_seal_envelope:
  assumes "aead_ok C" "dh_ok C" "dh_len C" "sig_ok C" "aead_tag_len C"
  shows "open_envelope C r (seal_envelope C eph s (identity_dh_public C r) pl) =
      Inr \<lparr>sender_identity_ed = identity_public C s, sender_identity_dh = identity_dh_public C s,
           payload = take (length pl mod 2 ^ 32) pl\<rparr> \<and>
    (length pl < 2 ^ 32 \<longrightarrow> take (length pl mod 2 ^ 32) pl = pl)"
  using open_sealed [OF assms] by simp

text \<open>
  What the size of an envelope reveals. Its length is the padded size plus 113 bytes of fixed overhead,
  whoever sends it to whomever; the padded size is the least bucket (512, 1024, 2048, 4096 or a positive
  multiple of 8192) that holds the payload and its length prefix. So two payloads with the same bucket give
  equally long envelopes.
\<close>

lemma envelope_length:
  assumes "aead_tag_len C" "dh_len C"
  shows "length (seal_envelope C eph s rdh pl) = 113 + bucket (length pl) \<and>
    is_bucket (bucket (length pl)) \<and> length pl + 4 \<le> bucket (length pl) \<and>
    (\<forall>b. is_bucket b \<and> length pl + 4 \<le> b \<longrightarrow> bucket (length pl) \<le> b)"
proof -
  let ?n = "length pl"
  have "length (seal_envelope C eph s rdh pl) = 113 + bucket ?n"
    using assms by (simp add: seal_envelope_def Let_def length_aead_seal dh_len_def INNER_PREFIX_LEN_def)
  moreover have "is_bucket (bucket ?n) \<and> (\<forall>b. is_bucket b \<and> ?n + 4 \<le> b \<longrightarrow> bucket ?n \<le> b)"
  proof -
    consider "?n + 4 \<le> 512" | "512 < ?n + 4" "?n + 4 \<le> 8192" | "8192 < ?n + 4" by linarith
    then show ?thesis
    proof cases
      case 1
      then show ?thesis by (auto simp: bucket_small is_bucket_def)
    next
      case 2
      then show ?thesis using bucket_pow2 [OF 2] by (auto simp: is_bucket_def)
    next
      case 3
      then obtain q where "bucket ?n = q * 8192" "?n + 4 \<le> q * 8192" "q * 8192 < ?n + 4 + 8192"
        by (rule bucket_large)
      then show ?thesis using 3 by (auto simp: is_bucket_def)
    qed
  qed
  ultimately show ?thesis using bucket_room by simp
qed

text \<open>
  Opening fails opaquely: whatever the bytes, an error is \<open>Decrypt\<close>, and only a blob of the
  current version with a ciphertext after its header is ever opened.
\<close>

lemma open_envelope_opaque:
  "case open_envelope C r blob of Inl e \<Rightarrow> e = Decrypt
     | Inr env \<Rightarrow> HEADER_LEN < length blob \<and> blob ! 0 = SEALED_ENVELOPE_VERSION"
  by (auto simp: open_envelope_def parse_inner_def Let_def dest: aead_open_Inl split: sum.split)

end
