(* ===== verification/Inbox.thy ===== *)
theory Inbox
  imports Primitives
begin

text \<open>
  Rotating inbox identifiers of \<^verbatim>\<open>core/src/inbox.rs\<close>. Timestamps and epochs are 64-bit words.
\<close>

definition INBOX_EPOCH_SECONDS :: u64 where
  "INBOX_EPOCH_SECONDS = 86400"

definition epoch_for_unix :: "u64 \<Rightarrow> u64" where
  "epoch_for_unix unix_seconds = unix_seconds div INBOX_EPOCH_SECONDS"

definition inbox_id :: "'c crypto_scheme \<Rightarrow> bytes \<Rightarrow> u64 \<Rightarrow> bytes" where
  "inbox_id C identity_ed ep =
     sha256 C (byte_lit ''Clarity-inbox-v1'' @ identity_ed @ u64_to_le_bytes ep)"

definition inbox_window :: "'c crypto_scheme \<Rightarrow> bytes \<Rightarrow> u64 \<Rightarrow> u64 \<Rightarrow> bytes list" where
  "inbox_window C identity_ed from_epoch to_epoch =
     (if from_epoch > to_epoch then []
      else map (\<lambda>e. inbox_id C identity_ed (word_of_nat e)) [unat from_epoch..<Suc (unat to_epoch)])"

section \<open>Epochs\<close>

lemma unat_epoch: "unat (epoch_for_unix t) = unat t div 86400"
  by (simp add: epoch_for_unix_def INBOX_EPOCH_SECONDS_def unat_div)

lemma window_mem:
  assumes "unat f \<le> unat e" "unat e \<le> unat t"
  shows "inbox_id C i e \<in> set (inbox_window C i f t)"
proof -
  have "\<not> t < f" using assms by (simp add: word_less_nat_alt)
  moreover have "e = word_of_nat (unat e)" by simp
  ultimately show ?thesis
    using assms by (auto simp: inbox_window_def simp del: upt_Suc intro!: image_eqI [of _ _ "unat e"])
qed

lemma window_covers:
  assumes "unat last_poll \<le> unat sender_clock + 86400" "unat sender_clock \<le> unat now + 86400"
    and "unat now + 86400 < 2 ^ 64"
  shows "inbox_id C i (epoch_for_unix sender_clock) \<in>
    set (inbox_window C i (saturating_sub (epoch_for_unix last_poll) 1) (epoch_for_unix now + 1))"
proof (rule window_mem)
  have "unat last_poll div 86400 \<le> (unat sender_clock + 86400) div 86400"
    using assms(1) by (rule div_le_mono)
  then show "unat (saturating_sub (epoch_for_unix last_poll) 1) \<le> unat (epoch_for_unix sender_clock)"
    by (simp add: unat_saturating_sub unat_epoch)
  have "unat (epoch_for_unix now) + 1 < 2 ^ 64"
    using assms(3) by (simp add: unat_epoch)
  then have "unat (epoch_for_unix now + 1) = unat now div 86400 + 1"
    by (simp add: unat_word_ariths unat_epoch)
  moreover have "unat sender_clock div 86400 \<le> (unat now + 86400) div 86400"
    using assms(2) by (rule div_le_mono)
  ultimately show "unat (epoch_for_unix sender_clock) \<le> unat (epoch_for_unix now + 1)"
    by (simp add: unat_epoch)
qed

section \<open>Properties\<close>

text \<open>
  The window is exactly the inclusive range of epochs, oldest first: empty when the range is inverted,
  otherwise one identifier per epoch in order.
\<close>

lemma window_exact:
  "length (inbox_window C i f t) = (if t < f then 0 else unat t - unat f + 1) \<and>
   (\<forall>k<length (inbox_window C i f t). inbox_window C i f t ! k = inbox_id C i (f + word_of_nat k))"
proof -
  have "word_of_nat (unat f + k) = f + word_of_nat k" for k by simp
  then show ?thesis
    by (auto simp: inbox_window_def word_less_nat_alt simp del: upt_Suc)
qed

end
