(* ===== verification/Safety.thy ===== *)
theory Safety
  imports Primitives
begin

text \<open>
  Safety numbers of \<^verbatim>\<open>core/src/safety.rs\<close>: the iterated fingerprint of an identity key, the fixed ordering of
  two fingerprints and their rendering as decimal groups.
\<close>

definition ITERATIONS :: nat where
  "ITERATIONS = 5200"

definition CHUNKS_PER_IDENTITY :: nat where
  "CHUNKS_PER_IDENTITY = 6"

definition fingerprint :: "'c crypto_scheme \<Rightarrow> bytes \<Rightarrow> bytes" where
  "fingerprint C identity =
     fold (\<lambda>_ digest. sha512 C (digest @ identity)) [1..<ITERATIONS]
       (sha512 C (byte_lit ''Clarity-safety-number-v1'' @ identity))"

text \<open>\<open><=\<close> on byte arrays: lexicographic.\<close>

fun bytes_le :: "bytes \<Rightarrow> bytes \<Rightarrow> bool" where
  "bytes_le [] ys = True"
| "bytes_le (x # xs) [] = False"
| "bytes_le (x # xs) (y # ys) = (x < y \<or> (x = y \<and> bytes_le xs ys))"

text \<open>\<open>format!("{value:05}")\<close>.\<close>

definition pad5 :: "nat \<Rightarrow> string" where
  "pad5 value = replicate (5 - length (show_nat value)) CHR ''0'' @ show_nat value"

definition chunk_value :: "bytes \<Rightarrow> nat \<Rightarrow> u64" where
  "chunk_value fp chunk_index =
     (let start = chunk_index * 5;
          acc = fold (\<lambda>i acc. or (push_bit 8 acc) (ucast (fp ! (start + i)))) [0..<5] 0
      in acc mod 100000)"

definition push_digits :: "string \<Rightarrow> bytes \<Rightarrow> string" where
  "push_digits out fp =
     fold (\<lambda>chunk_index out.
             (if chunk_index > 0 then out @ '' '' else out) @ pad5 (unat (chunk_value fp chunk_index)))
       [0..<CHUNKS_PER_IDENTITY] out"

definition safety_number :: "'c crypto_scheme \<Rightarrow> bytes \<Rightarrow> bytes \<Rightarrow> string" where
  "safety_number C identity_a identity_b =
     (let fp_a = fingerprint C identity_a; fp_b = fingerprint C identity_b;
          (first, second) = (if bytes_le fp_a fp_b then (fp_a, fp_b) else (fp_b, fp_a))
      in push_digits (push_digits [] first @ '' '') second)"

definition is_digit :: "char \<Rightarrow> bool" where
  "is_digit c \<longleftrightarrow> 48 \<le> (of_char c :: nat) \<and> (of_char c :: nat) \<le> 57"

text \<open>What \<open>push_digits\<close> appends: six groups of five digits, separated by single spaces.\<close>

definition digit_groups :: "bytes \<Rightarrow> string list" where
  "digit_groups fp = map (\<lambda>i. pad5 (unat (chunk_value fp i))) [0..<6]"

definition join_groups :: "string list \<Rightarrow> string" where
  "join_groups gs = (case gs of [] \<Rightarrow> [] | g # hs \<Rightarrow> g @ concat (map (\<lambda>h. CHR '' '' # h) hs))"

section \<open>Ordering\<close>

lemma bytes_le_total: "bytes_le xs ys \<or> bytes_le ys xs"
  by (induction xs ys rule: bytes_le.induct) auto

lemma bytes_le_antisym: "bytes_le xs ys \<Longrightarrow> bytes_le ys xs \<Longrightarrow> xs = ys"
  by (induction xs ys rule: bytes_le.induct) (auto elim: bytes_le.elims)

section \<open>Decimal groups\<close>

lemma is_digit_char: "d < 10 \<Longrightarrow> is_digit (digit_char d)"
  by (simp add: is_digit_def digit_char_def of_char_of)

lemma show_nat_digits: "list_all is_digit (show_nat n)"
proof (induction n rule: show_nat.induct)
  case (1 n)
  then show ?case by (simp add: show_nat.simps [of n] is_digit_char)
qed

lemma length_show_nat: "n < 10 ^ k \<Longrightarrow> 0 < k \<Longrightarrow> length (show_nat n) \<le> k"
proof (induction k arbitrary: n)
  case 0
  then show ?case by simp
next
  case (Suc k)
  show ?case
  proof (cases "n < 10")
    case True
    then show ?thesis by (simp add: show_nat.simps)
  next
    case False
    have "0 < k" using False Suc.prems(1) by (cases k) auto
    moreover have "n div 10 < 10 ^ k" using Suc.prems(1) by (simp add: less_mult_imp_div_less mult.commute)
    ultimately show ?thesis using Suc.IH [of "n div 10"] False by (simp add: show_nat.simps [of n])
  qed
qed

lemma pad5_digits: "n < 100000 \<Longrightarrow> length (pad5 n) = 5 \<and> list_all is_digit (pad5 n)"
  using length_show_nat [of n 5] show_nat_digits [of n]
  by (auto simp: pad5_def list_all_iff is_digit_def)

lemma chunk_value_less: "unat (chunk_value fp i) < 100000"
  by (simp add: chunk_value_def Let_def unat_mod)

lemma push_digits_eq: "push_digits out fp = out @ join_groups (digit_groups fp)"
  by (simp add: push_digits_def digit_groups_def CHUNKS_PER_IDENTITY_def upt_rec join_groups_def)

lemma digit_groups_ok: "length (digit_groups fp) = 6 \<and> (\<forall>g\<in>set (digit_groups fp). length g = 5 \<and> list_all is_digit g)"
  using pad5_digits chunk_value_less by (auto simp: digit_groups_def)

lemma join_groups_append:
  "xs \<noteq> [] \<Longrightarrow> ys \<noteq> [] \<Longrightarrow> join_groups (xs @ ys) = join_groups xs @ '' '' @ join_groups ys"
  by (cases xs; cases ys) (simp_all add: join_groups_def)

section \<open>Properties\<close>

text \<open>
  Both contacts see the same safety number, whoever computes it: it does not depend on the order of the
  two identities.
\<close>

lemma safety_number_symmetric: "safety_number C a b = safety_number C b a"
  using bytes_le_total bytes_le_antisym by (simp add: safety_number_def Let_def) metis



end
