(* ===== verification/Mesh.thy ===== *)
theory Mesh
  imports Format
begin

text \<open>
  The store-carry-forward mesh of \<^verbatim>\<open>mesh/src/lib.rs\<close> and \<^verbatim>\<open>mesh/src/frame.rs\<close>: nodes, frames and the mesh
  transport. The pair of a hash set (or map) and a queue that remembers insertion order, which the code uses
  twice with a cap, is an interface of its own: the locale \<open>bounded_fifo\<close>, interpreted on both.
\<close>

definition DEFAULT_TTL :: u8 where
  "DEFAULT_TTL = 16"

definition SEEN_CAP :: nat where
  "SEEN_CAP = 8192"

definition STORE_CAP :: nat where
  "STORE_CAP = 2048"

record mesh_frame =
  msg_id :: bytes
  recipient :: bytes
  ttl :: u8
  fr_payload :: bytes

datatype mesh_error = Decode string

datatype transport_error = TransportError string

definition frame_encode :: "mesh_frame serde \<Rightarrow> mesh_frame \<Rightarrow> bytes" where
  "frame_encode S f = ser S f"

definition frame_decode :: "mesh_frame serde \<Rightarrow> bytes \<Rightarrow> mesh_error + mesh_frame" where
  "frame_decode S bs = map_err Decode (de S bs)"

datatype reception = Duplicate | Accepted (for_me: bool) (will_forward: bool)

record mesh_node =
  me :: bytes
  node_ttl :: u8
  seen :: "bytes fset"
  seen_order :: "bytes list"
  frame_store :: "(bytes, mesh_frame) fmap"
  store_order :: "bytes list"
  inbox :: "bytes list"

definition with_ttl :: "bytes \<Rightarrow> u8 \<Rightarrow> mesh_node" where
  "with_ttl m t = \<lparr>me = m, node_ttl = t, seen = {||}, seen_order = [], frame_store = fmempty,
     store_order = [], inbox = []\<rparr>"

definition new_node :: "bytes \<Rightarrow> mesh_node" where
  "new_node m = with_ttl m DEFAULT_TTL"

definition mark_seen :: "bytes \<Rightarrow> mesh_node \<Rightarrow> mesh_node" where
  "mark_seen i n =
     (if i |\<in>| seen n then n
      else let n' = n\<lparr>seen := finsert i (seen n), seen_order := seen_order n @ [i]\<rparr>
           in if length (seen_order n') > SEEN_CAP then
                (case seen_order n' of
                   old # rest \<Rightarrow> n'\<lparr>seen_order := rest, seen := seen n' |-| {|old|}\<rparr>
                 | [] \<Rightarrow> n')
              else n')"

definition store_frame :: "mesh_frame \<Rightarrow> mesh_node \<Rightarrow> mesh_node" where
  "store_frame f n =
     (let i = msg_id f;
          n' = n\<lparr>frame_store := fmupd i f (frame_store n)\<rparr>
      in case fmlookup (frame_store n) i of
           Some _ \<Rightarrow> n'
         | None \<Rightarrow>
             let n'' = n'\<lparr>store_order := store_order n' @ [i]\<rparr>
             in if length (store_order n'') > STORE_CAP then
                  (case store_order n'' of
                     old # rest \<Rightarrow> n''\<lparr>store_order := rest, frame_store := fmdrop old (frame_store n'')\<rparr>
                   | [] \<Rightarrow> n'')
                else n'')"

definition originate :: "bytes \<Rightarrow> mesh_node \<Rightarrow> bytes \<Rightarrow> bytes \<Rightarrow> mesh_frame \<times> mesh_node" where
  "originate rng n rcpt pl =
     (let f = \<lparr>msg_id = rng, recipient = rcpt, ttl = node_ttl n, fr_payload = pl\<rparr>
      in (f, store_frame f (mark_seen rng n)))"

definition handle_incoming :: "mesh_node \<Rightarrow> mesh_frame \<Rightarrow> reception \<times> mesh_node" where
  "handle_incoming n f =
     (if msg_id f |\<in>| seen n then (Duplicate, n)
      else let n1 = mark_seen (msg_id f) n;
               fm = (recipient f = me n1);
               n2 = (if fm then n1\<lparr>inbox := inbox n1 @ [fr_payload f]\<rparr> else n1);
               forward_ttl = saturating_sub (ttl f) 1;
               wf = (forward_ttl > 0);
               n3 = (if wf then store_frame (f\<lparr>ttl := forward_ttl\<rparr>) n2 else n2)
           in (Accepted fm wf, n3))"

definition outbound :: "mesh_node \<Rightarrow> mesh_frame list" where
  "outbound n = List.map_filter (fmlookup (frame_store n)) (store_order n)"

definition on_new_peer :: "mesh_node \<Rightarrow> mesh_frame list" where
  "on_new_peer n = outbound n"

definition take_inbox :: "mesh_node \<Rightarrow> bytes list \<times> mesh_node" where
  "take_inbox n = (inbox n, n\<lparr>inbox := []\<rparr>)"

definition stored :: "mesh_node \<Rightarrow> nat" where
  "stored n = fm_len (frame_store n)"

text \<open>\<open>MeshTransport\<close>: the node behind a mutex; each method runs under the lock.\<close>

definition show_mesh_error :: "mesh_error \<Rightarrow> string" where
  "show_mesh_error e = (case e of Decode m \<Rightarrow> ''mesh frame decode error: '' @ m)"

definition ingest :: "mesh_frame serde \<Rightarrow> mesh_node \<Rightarrow> bytes \<Rightarrow> (transport_error + reception) \<times> mesh_node" where
  "ingest S n frame_bytes =
     (case frame_decode S frame_bytes of
        Inl e \<Rightarrow> (Inl (TransportError (show_mesh_error e)), n)
      | Inr f \<Rightarrow> (let (r, n') = handle_incoming n f in (Inr r, n')))"

definition pending_broadcast :: "mesh_frame serde \<Rightarrow> mesh_node \<Rightarrow> bytes list" where
  "pending_broadcast S n = map (frame_encode S) (outbound n)"

definition mesh_send :: "bytes \<Rightarrow> mesh_node \<Rightarrow> bytes \<Rightarrow> bytes \<Rightarrow> (transport_error + unit) \<times> mesh_node" where
  "mesh_send rng n rcpt pl = (Inr (), snd (originate rng n rcpt pl))"

definition mesh_receive :: "mesh_node \<Rightarrow> bytes \<Rightarrow> (transport_error + bytes list) \<times> mesh_node" where
  "mesh_receive n addr = (let (ps, n') = take_inbox n in (Inr ps, n'))"

text \<open>The bookkeeping invariant of a node.\<close>

definition fifo_ok :: "nat \<Rightarrow> 'k list \<Rightarrow> 'k set \<Rightarrow> bool" where
  "fifo_ok cap order members \<longleftrightarrow> distinct order \<and> set order = members \<and> length order \<le> cap"

definition node_wf :: "mesh_node \<Rightarrow> bool" where
  "node_wf n \<longleftrightarrow> fifo_ok SEEN_CAP (seen_order n) (fset (seen n)) \<and>
     fifo_ok STORE_CAP (store_order n) (fset (fmdom (frame_store n))) \<and>
     (\<forall>i f. fmlookup (frame_store n) i = Some f \<longrightarrow> msg_id f = i)"

text \<open>The frames of a sequence that carry an identifier not met before, in order.\<close>

fun first_frames :: "bytes set \<Rightarrow> mesh_frame list \<Rightarrow> mesh_frame list" where
  "first_frames ids [] = []"
| "first_frames ids (f # fs) =
     (if msg_id f \<in> ids then first_frames ids fs else f # first_frames (insert (msg_id f) ids) fs)"

text \<open>
  A frame carried along a line of nodes: each node handles the frame, and offers what its store holds under
  the frame's identifier to the next node it meets.
\<close>

fun carry :: "mesh_frame \<Rightarrow> mesh_node list \<Rightarrow> mesh_node list" where
  "carry f [] = []"
| "carry f (n # ns) =
     (let n' = snd (handle_incoming n f)
      in case find (\<lambda>g. msg_id g = msg_id f) (on_new_peer n') of
           None \<Rightarrow> n' # ns
         | Some g \<Rightarrow> n' # carry g ns)"

inductive node_reach :: "mesh_node \<Rightarrow> bool" where
  new: "node_reach (with_ttl m t)"
| originate: "node_reach n \<Longrightarrow> node_reach (snd (originate rng n rcpt pl))"
| incoming: "node_reach n \<Longrightarrow> node_reach (snd (handle_incoming n f))"
| take: "node_reach n \<Longrightarrow> node_reach (snd (take_inbox n))"

definition mesh_frame_fmt :: "mesh_frame fmt" where
  "mesh_frame_fmt = fmt_via (\<lambda>f. (msg_id f, recipient f, ttl f, fr_payload f))
     (\<lambda>(a, b, c, d). \<lparr>msg_id = a, recipient = b, ttl = c, fr_payload = d\<rparr>)
     (fmt_pair fmt_bytes (fmt_pair fmt_bytes (fmt_pair fmt_u8 fmt_bytes)))"

definition demo_frame :: "bytes \<Rightarrow> mesh_frame" where
  "demo_frame i = \<lparr>msg_id = i, recipient = [3], ttl = 2, fr_payload = [7]\<rparr>"

section \<open>The interface of a capped insertion-ordered collection\<close>

locale bounded_fifo =
  fixes key :: "'e \<Rightarrow> 'k"
    and members :: "'s \<Rightarrow> 'k set"
    and order :: "'s \<Rightarrow> 'k list"
    and add :: "'e \<Rightarrow> 's \<Rightarrow> 's"
    and cap :: nat
  assumes cap_pos: "0 < cap"
    and add_present: "key x \<in> members s \<Longrightarrow> order (add x s) = order s \<and> members (add x s) = members s"
    and add_room: "key x \<notin> members s \<Longrightarrow> length (order s) < cap \<Longrightarrow>
       order (add x s) = order s @ [key x] \<and> members (add x s) = insert (key x) (members s)"
    and add_full: "key x \<notin> members s \<Longrightarrow> length (order s) = cap \<Longrightarrow>
       order (add x s) = tl (order s) @ [key x] \<and>
       members (add x s) = insert (key x) (members s) - {hd (order s)}"
begin

lemma fifo_cases:
  assumes "fifo_ok cap (order s) (members s)"
  obtains (present) "key x \<in> members s" | (room) "key x \<notin> members s" "length (order s) < cap"
    | (full) "key x \<notin> members s" "length (order s) = cap"
  using assms unfolding fifo_ok_def by linarith

lemma add_ok:
  assumes "fifo_ok cap (order s) (members s)"
  shows "fifo_ok cap (order (add x s)) (members (add x s))"
  using assms
proof (cases rule: fifo_cases [of _ x])
  case full
  then obtain y ys where "order s = y # ys" using cap_pos by (cases "order s") auto
  then show ?thesis using full add_full [OF full] assms by (auto simp: fifo_ok_def)
qed (use assms add_present add_room in \<open>auto simp: fifo_ok_def\<close>)

lemma add_member:
  assumes "fifo_ok cap (order s) (members s)"
  shows "key x \<in> members (add x s)"
proof (cases "key x \<in> members s \<or> length (order s) < cap")
  case True
  then show ?thesis using add_present [of x s] add_room [of x s] by auto
next
  case False
  then have "key x \<notin> members s" "length (order s) = cap" using assms by (auto simp: fifo_ok_def)
  moreover have "hd (order s) \<in> members s"
    using assms \<open>length (order s) = cap\<close> cap_pos by (cases "order s") (auto simp: fifo_ok_def)
  ultimately show ?thesis using add_full by auto
qed

lemma add_members_sub: "members (add x s) \<subseteq> insert (key x) (members s)"
  if "fifo_ok cap (order s) (members s)"
  using that by (cases rule: fifo_cases [of _ x]) (use add_present add_room add_full in auto)

text \<open>Nothing is evicted while there is room.\<close>

lemma add_all_room:
  "fifo_ok cap (order s) (members s) \<Longrightarrow> length (order s) + length xs \<le> cap \<Longrightarrow>
   members (fold add xs s) = members s \<union> key ` set xs"
proof (induction xs arbitrary: s)
  case Nil
  then show ?case by simp
next
  case (Cons x xs)
  have "members (add x s) = insert (key x) (members s) \<and> length (order (add x s)) \<le> Suc (length (order s))"
    using add_present [of x s] add_room [of x s] Cons.prems(2) by (cases "key x \<in> members s") auto
  then show ?case using Cons.IH [of "add x s"] add_ok [OF Cons.prems(1), of x] Cons.prems(2) by auto
qed

end

interpretation seen_fifo: bounded_fifo "\<lambda>i. i" "\<lambda>n. fset (seen n)" seen_order mark_seen SEEN_CAP
proof unfold_locales
  fix i n
  show "0 < SEEN_CAP" by (simp add: SEEN_CAP_def)
  show "seen_order (mark_seen i n) = seen_order n \<and> fset (seen (mark_seen i n)) = fset (seen n)"
    if "i \<in> fset (seen n)" using that by (simp add: mark_seen_def)
  show "seen_order (mark_seen i n) = seen_order n @ [i] \<and> fset (seen (mark_seen i n)) = insert i (fset (seen n))"
    if "i \<notin> fset (seen n)" "length (seen_order n) < SEEN_CAP" using that by (simp add: mark_seen_def)
  show "seen_order (mark_seen i n) = tl (seen_order n) @ [i] \<and>
      fset (seen (mark_seen i n)) = insert i (fset (seen n)) - {hd (seen_order n)}"
    if "i \<notin> fset (seen n)" "length (seen_order n) = SEEN_CAP"
    using that \<open>0 < SEEN_CAP\<close> by (cases "seen_order n") (auto simp: mark_seen_def)
qed

interpretation store_fifo: bounded_fifo msg_id "\<lambda>n. fset (fmdom (frame_store n))" store_order store_frame STORE_CAP
proof unfold_locales
  fix f n
  show "0 < STORE_CAP" by (simp add: STORE_CAP_def)
  show "store_order (store_frame f n) = store_order n \<and>
      fset (fmdom (frame_store (store_frame f n))) = fset (fmdom (frame_store n))"
    if "msg_id f \<in> fset (fmdom (frame_store n))"
    using that by (auto simp: store_frame_def Let_def fmlookup_dom_iff split: option.split)
  show "store_order (store_frame f n) = store_order n @ [msg_id f] \<and>
      fset (fmdom (frame_store (store_frame f n))) = insert (msg_id f) (fset (fmdom (frame_store n)))"
    if "msg_id f \<notin> fset (fmdom (frame_store n))" "length (store_order n) < STORE_CAP"
    using that by (simp add: store_frame_def Let_def fmdom_notD)
  show "store_order (store_frame f n) = tl (store_order n) @ [msg_id f] \<and>
      fset (fmdom (frame_store (store_frame f n))) =
        insert (msg_id f) (fset (fmdom (frame_store n))) - {hd (store_order n)}"
    if "msg_id f \<notin> fset (fmdom (frame_store n))" "length (store_order n) = STORE_CAP"
    using that \<open>0 < STORE_CAP\<close> by (cases "store_order n") (auto simp: store_frame_def Let_def fmdom_notD)
qed

section \<open>Node bookkeeping\<close>

lemma mark_seen_other [simp]:
  "frame_store (mark_seen i n) = frame_store n" "store_order (mark_seen i n) = store_order n"
  "inbox (mark_seen i n) = inbox n" "me (mark_seen i n) = me n" "node_ttl (mark_seen i n) = node_ttl n"
  by (simp_all add: mark_seen_def Let_def split: list.split)

lemma store_frame_other [simp]:
  "seen (store_frame f n) = seen n" "seen_order (store_frame f n) = seen_order n"
  "inbox (store_frame f n) = inbox n" "me (store_frame f n) = me n" "node_ttl (store_frame f n) = node_ttl n"
  by (simp_all add: store_frame_def Let_def split: option.split list.split)

lemma mark_seen_inbox [simp]: "mark_seen i (n\<lparr>inbox := x\<rparr>) = (mark_seen i n)\<lparr>inbox := x\<rparr>"
  by (simp add: mark_seen_def Let_def split: list.split)

lemma node_wf_inbox [simp]: "node_wf (n\<lparr>inbox := x\<rparr>) = node_wf n"
  by (simp add: node_wf_def)

lemma store_frame_keys:
  assumes "\<forall>i g. fmlookup (frame_store n) i = Some g \<longrightarrow> msg_id g = i"
  shows "fmlookup (frame_store (store_frame f n)) i = Some g \<Longrightarrow> msg_id g = i"
  using assms by (auto simp: store_frame_def Let_def split: option.splits if_splits list.splits)

lemma node_wf_key: "node_wf n \<Longrightarrow> fmlookup (frame_store n) i = Some g \<Longrightarrow> msg_id g = i"
  unfolding node_wf_def by blast

lemma node_wf_fifo:
  "node_wf n \<Longrightarrow> fifo_ok SEEN_CAP (seen_order n) (fset (seen n))"
  "node_wf n \<Longrightarrow> fifo_ok STORE_CAP (store_order n) (fset (fmdom (frame_store n)))"
  unfolding node_wf_def by blast+

lemma outbound_mem:
  assumes "node_wf n"
  shows "h \<in> set (outbound n) \<longleftrightarrow> fmlookup (frame_store n) (msg_id h) = Some h"
proof
  assume "h \<in> set (outbound n)"
  then obtain i where "fmlookup (frame_store n) i = Some h" by (auto simp: outbound_def List.map_filter_def)
  then show "fmlookup (frame_store n) (msg_id h) = Some h" using node_wf_key [OF assms] by simp
next
  assume h: "fmlookup (frame_store n) (msg_id h) = Some h"
  then have "msg_id h \<in> set (store_order n)"
    using node_wf_fifo(2) [OF assms] by (simp add: fifo_ok_def fmlookup_dom_iff)
  then show "h \<in> set (outbound n)" using h by (force simp: outbound_def List.map_filter_def)
qed

lemma node_wf_mark: "node_wf n \<Longrightarrow> node_wf (mark_seen i n)"
  using seen_fifo.add_ok [of n i] by (simp add: node_wf_def)

lemma node_wf_store: "node_wf n \<Longrightarrow> node_wf (store_frame f n)"
  using store_fifo.add_ok [of n f] store_frame_keys [of n f] unfolding node_wf_def store_frame_other by blast

lemma node_wf_originate: "node_wf n \<Longrightarrow> node_wf (snd (originate rng n rcpt pl))"
  by (simp add: originate_def Let_def node_wf_store node_wf_mark)

lemma node_wf_incoming: "node_wf n \<Longrightarrow> node_wf (snd (handle_incoming n f))"
  by (simp add: handle_incoming_def Let_def node_wf_store node_wf_mark)

lemma node_wf_new: "node_wf (with_ttl m t)"
  by (simp add: node_wf_def with_ttl_def fifo_ok_def)

lemma node_reach_wf: "node_reach n \<Longrightarrow> node_wf n"
  by (induction rule: node_reach.induct)
    (simp_all add: node_wf_new node_wf_originate node_wf_incoming take_inbox_def)

section \<open>Handling one frame\<close>

lemma handle_dup: "msg_id f |\<in>| seen n \<Longrightarrow> handle_incoming n f = (Duplicate, n)"
  by (simp add: handle_incoming_def)

lemma handle_new:
  assumes "msg_id f |\<notin>| seen n"
  shows "inbox (snd (handle_incoming n f)) = inbox n @ (if recipient f = me n then [fr_payload f] else [])"
    "me (snd (handle_incoming n f)) = me n" "seen (snd (handle_incoming n f)) = seen (mark_seen (msg_id f) n)"
    "seen_order (snd (handle_incoming n f)) = seen_order (mark_seen (msg_id f) n)"
  using assms by (simp_all add: handle_incoming_def Let_def)

lemma store_frame_lookup:
  assumes "node_wf n"
  shows "fmlookup (frame_store (store_frame f n)) (msg_id f) = Some f"
proof (cases "fmlookup (frame_store n) (msg_id f)")
  case None
  have "msg_id f \<noteq> old" if o: "store_order n @ [msg_id f] = old # rest" "STORE_CAP < Suc (length (store_order n))" for old rest
  proof -
    have "old \<in> set (store_order n)" using o by (cases "store_order n") (auto simp: STORE_CAP_def)
    then have "old |\<in>| fmdom (frame_store n)" using node_wf_fifo(2) [OF assms] by (simp add: fifo_ok_def)
    then show ?thesis using None by (auto simp: fmlookup_dom_iff)
  qed
  then show ?thesis using None by (auto simp: store_frame_def Let_def split: list.split)
qed (simp add: store_frame_def Let_def)

lemma outbound_find:
  assumes "node_wf n"
  shows "find (\<lambda>h. msg_id h = i) (outbound n) = fmlookup (frame_store n) i"
proof (cases "find (\<lambda>h. msg_id h = i) (outbound n)")
  case None
  have "fmlookup (frame_store n) i \<noteq> Some g" for g
    using None node_wf_key [OF assms, of i g] outbound_mem [OF assms, of g] by (auto simp: find_None_iff)
  then show ?thesis using None by (cases "fmlookup (frame_store n) i") auto
next
  case (Some h)
  then have "h \<in> set (outbound n)" "msg_id h = i" by (auto simp: find_Some_iff)
  then show ?thesis using Some outbound_mem [OF assms, of h] by simp
qed

lemma handle_offers:
  assumes wf: "node_wf n" and new: "msg_id f |\<notin>| seen n" and none: "fmlookup (frame_store n) (msg_id f) = None"
  shows "find (\<lambda>g. msg_id g = msg_id f) (on_new_peer (snd (handle_incoming n f))) =
    (if 1 < unat (ttl f) then Some (f\<lparr>ttl := ttl f - 1\<rparr>) else None)"
proof (cases "1 < unat (ttl f)")
  case True
  then have t: "saturating_sub (ttl f) 1 = ttl f - 1" "0 < ttl f - 1"
    by (auto simp: saturating_sub_def word_less_nat_alt unat_sub_if' word_le_nat_alt)
  let ?g = "f\<lparr>ttl := ttl f - 1\<rparr>" and ?n = "snd (handle_incoming n f)"
  have "node_wf ?n" using wf by (rule node_wf_incoming)
  moreover have "fmlookup (frame_store ?n) (msg_id f) = Some ?g"
    using new t store_frame_lookup [of "mark_seen (msg_id f) n" ?g]
      store_frame_lookup [of "(mark_seen (msg_id f) n)\<lparr>inbox := inbox n @ [fr_payload f]\<rparr>" ?g] node_wf_mark [OF wf]
    by (simp add: handle_incoming_def Let_def)
  ultimately show ?thesis using True by (simp add: on_new_peer_def outbound_find)
next
  case False
  then have "\<not> 0 < saturating_sub (ttl f) 1" by (simp add: word_less_nat_alt unat_saturating_sub)
  then have "frame_store (snd (handle_incoming n f)) = frame_store n"
    "store_order (snd (handle_incoming n f)) = store_order n"
    using new by (simp_all add: handle_incoming_def Let_def)
  then have "outbound (snd (handle_incoming n f)) = outbound n" by (simp add: outbound_def)
  then show ?thesis using False none by (simp add: on_new_peer_def outbound_find [OF wf])
qed

section \<open>Floods\<close>

lemma flood_inbox:
  assumes "node_wf n" "length (seen_order n) + length fs \<le> SEEN_CAP"
  shows "inbox (fold (\<lambda>f n. snd (handle_incoming n f)) fs n) =
    inbox n @ map fr_payload (filter (\<lambda>f. recipient f = me n) (first_frames (fset (seen n)) fs))"
  using assms
proof (induction fs arbitrary: n)
  case Nil
  then show ?case by simp
next
  case (Cons f fs)
  let ?n = "snd (handle_incoming n f)"
  show ?case
  proof (cases "msg_id f |\<in>| seen n")
    case True
    then show ?thesis using Cons by (simp add: handle_dup)
  next
    case False
    have "fset (seen ?n) = insert (msg_id f) (fset (seen n))" "length (seen_order ?n) = Suc (length (seen_order n))"
      using seen_fifo.add_room [of "msg_id f" n] False Cons.prems(2) by (simp_all add: handle_new)
    then show ?thesis
      using Cons.IH [OF node_wf_incoming [OF Cons.prems(1)], of f] Cons.prems(2) False by (simp add: handle_new)
  qed
qed

section \<open>Broadcasts\<close>

lemma fold_ingest:
  "serde_ok S \<Longrightarrow> fold (\<lambda>bs n. snd (ingest S n bs)) (map (frame_encode S) fs) n =
   fold (\<lambda>f n. snd (handle_incoming n f)) fs n"
  by (induction fs arbitrary: n)
    (simp_all add: ingest_def frame_encode_def frame_decode_def split: prod.split)

lemma inbox_grows: "set (inbox n) \<subseteq> set (inbox (fold (\<lambda>f n. snd (handle_incoming n f)) fs n))"
proof (induction fs arbitrary: n)
  case Nil
  then show ?case by simp
next
  case (Cons f fs)
  have "set (inbox n) \<subseteq> set (inbox (snd (handle_incoming n f)))"
    by (cases "msg_id f |\<in>| seen n") (auto simp: handle_dup handle_new)
  then show ?case using Cons.IH [of "snd (handle_incoming n f)"] by auto
qed

lemma flood_delivers:
  assumes "node_wf n" "f \<in> set fs" "distinct (map msg_id fs)" "msg_id f |\<notin>| seen n" "recipient f = me n"
  shows "fr_payload f \<in> set (inbox (fold (\<lambda>f n. snd (handle_incoming n f)) fs n))"
  using assms
proof (induction fs arbitrary: n)
  case Nil
  then show ?case by simp
next
  case (Cons g fs)
  let ?n = "snd (handle_incoming n g)"
  show ?case
  proof (cases "g = f")
    case True
    then have "fr_payload f \<in> set (inbox ?n)" using Cons.prems by (simp add: handle_new)
    then show ?thesis using inbox_grows by fastforce
  next
    case False
    have ne: "msg_id g \<noteq> msg_id f" using Cons.prems(2,3) False by auto
    have "msg_id f |\<notin>| seen ?n \<and> me ?n = me n"
    proof (cases "msg_id g |\<in>| seen n")
      case True
      then show ?thesis using Cons.prems(4) by (simp add: handle_dup)
    next
      case new: False
      then show ?thesis
        using seen_fifo.add_members_sub [of n "msg_id g"] node_wf_fifo(1) [OF Cons.prems(1)] Cons.prems(4) ne
        by (auto simp: handle_new)
    qed
    then show ?thesis
      using Cons.IH [OF node_wf_incoming [OF Cons.prems(1)], of g] Cons.prems False by simp
  qed
qed

lemma distinct_outbound_ids: "node_wf n \<Longrightarrow> distinct (map msg_id (outbound n))"
proof -
  assume wf: "node_wf n"
  have "map msg_id (List.map_filter (fmlookup (frame_store n)) ids) = filter (\<lambda>i. fmlookup (frame_store n) i \<noteq> None) ids"
    for ids
    using node_wf_key [OF wf] by (induction ids) (auto simp: map_filter_simps split: option.split)
  then show ?thesis using node_wf_fifo(2) [OF wf] by (simp add: outbound_def fifo_ok_def)
qed

lemma mesh_frame_fmt_ok: "fmt_ok mesh_frame_fmt"
  unfolding mesh_frame_fmt_def by (intro fmt_laws) simp

section \<open>Properties\<close>

text \<open>
  Memory stays bounded. In every state a node can reach by originating, receiving and draining, it remembers at
  most \<open>SEEN_CAP\<close> identifiers and carries at most \<open>STORE_CAP\<close> frames, the order queues list exactly the members of the
  two collections without repetition, and every stored frame sits under its own identifier.
\<close>

lemma node_bounded:
  assumes "node_reach n"
  shows "fcard (seen n) \<le> SEEN_CAP \<and> stored n \<le> STORE_CAP \<and> length (outbound n) = stored n \<and> node_wf n"
proof -
  have wf: "node_wf n" by (rule node_reach_wf [OF assms])
  have "fcard (seen n) = length (seen_order n)" "stored n = length (store_order n)"
    using node_wf_fifo [OF wf]
    by (auto simp: fifo_ok_def fcard.rep_eq stored_def simp flip: distinct_card)
  moreover have "filter (\<lambda>i. fmlookup (frame_store n) i \<noteq> None) (store_order n) = store_order n"
    using node_wf_fifo(2) [OF wf] by (auto simp: fifo_ok_def fmlookup_dom_iff filter_id_conv)
  ultimately show ?thesis
    using node_wf_fifo [OF wf] wf by (simp add: fifo_ok_def outbound_def List.map_filter_def)
qed



text \<open>
  The hop budget. A frame carried along a line of nodes that have not met it reaches exactly the first
  \<open>ttl\<close> of them (the first one whatever the budget): those deliver it to their inbox if it is addressed to them;
  every node further on is left untouched.
\<close>

lemma ttl_bounds_hops:
  assumes "\<forall>n\<in>set ns. node_wf n \<and> msg_id f |\<notin>| seen n \<and> fmlookup (frame_store n) (msg_id f) = None"
    and "k < length ns"
  shows "if k = 0 \<or> k < unat (ttl f)
    then inbox (carry f ns ! k) = inbox (ns ! k) @ (if recipient f = me (ns ! k) then [fr_payload f] else [])
    else carry f ns ! k = ns ! k"
  using assms
proof (induction ns arbitrary: f k)
  case Nil
  then show ?case by simp
next
  case (Cons n ns)
  let ?n = "snd (handle_incoming n f)"
  have n: "node_wf n" "msg_id f |\<notin>| seen n" "fmlookup (frame_store n) (msg_id f) = None"
    using Cons.prems(1) by auto
  note offer = handle_offers [OF n]
  show ?case
  proof (cases k)
    case 0
    then show ?thesis
      using handle_new(1) [OF n(2)] by (simp add: Let_def split: option.split)
  next
    case (Suc j)
    show ?thesis
    proof (cases "1 < unat (ttl f)")
      case True
      then have "unat (ttl f - 1) = unat (ttl f) - 1" by (simp add: unat_sub_if' word_le_nat_alt)
      then show ?thesis
        using Cons.IH [of "f\<lparr>ttl := ttl f - 1\<rparr>" j] Cons.prems Suc True offer
        by (auto simp: less_diff_conv)
    next
      case False
      then show ?thesis using offer Suc by simp
    qed
  qed
qed

text \<open>
  The mesh transport end to end. A payload one node sends to another is in that node's inbox after the radio
  has fed it everything the sender offers, together with whatever else the sender carries; \<open>receive\<close> then returns it.
\<close>

lemma mesh_transport_delivers:
  fixes pl :: bytes
  assumes "serde_ok S" "node_wf a" "node_wf b" "rng |\<notin>| seen b"
  defines "a' \<equiv> snd (mesh_send rng a (me b) pl)"
  shows "\<exists>ps. fst (mesh_receive (fold (\<lambda>bs n. snd (ingest S n bs)) (pending_broadcast S a') b) (me b)) = Inr ps \<and>
    pl \<in> set ps"
proof -
  let ?f = "\<lparr>msg_id = rng, recipient = me b, ttl = node_ttl a, fr_payload = pl\<rparr>"
  have a': "a' = store_frame ?f (mark_seen rng a)"
    by (simp add: a'_def mesh_send_def originate_def Let_def)
  have wf: "node_wf a'" unfolding a' by (intro node_wf_store node_wf_mark assms)
  have "?f \<in> set (outbound a')"
    using store_frame_lookup [OF node_wf_mark [OF assms(2), of rng], of ?f]
    unfolding outbound_mem [OF wf] by (simp add: a')
  then have "pl \<in> set (inbox (fold (\<lambda>f n. snd (handle_incoming n f)) (outbound a') b))"
    using flood_delivers [OF assms(3) _ distinct_outbound_ids [OF wf], of ?f] assms(4) by simp
  then show ?thesis
    by (simp add: mesh_receive_def take_inbox_def pending_broadcast_def fold_ingest [OF assms(1)])
qed

end
