(* ===== verification/Mesh_Network.thy ===== *)
theory Mesh_Network
  imports Mesh
begin

text \<open>
  Many mesh nodes together: the radio of any node may at any time pick up any frame that another node broadcasts
  (\<open>pending_broadcast\<close>, \<open>ingest\<close> of \<^verbatim>\<open>mesh/src/lib.rs\<close>). The step relation has the receptions that are
  accepted; a duplicate leaves the node as it was.
\<close>

inductive flood_step :: "mesh_frame serde \<Rightarrow> mesh_node list \<Rightarrow> mesh_node list \<Rightarrow> bool" for S where
  hear: "i < length ns \<Longrightarrow> j < length ns \<Longrightarrow> bs \<in> set (pending_broadcast S (ns ! i)) \<Longrightarrow>
     ingest S (ns ! j) bs = (Inr (Accepted fm fwd), n') \<Longrightarrow> flood_step S ns (ns[j := n'])"

inductive_cases flood_stepE: "flood_step S ns ns'"

text \<open>The identifiers around: remembered or carried by some node.\<close>

definition carried :: "mesh_node \<Rightarrow> bytes set" where
  "carried n = fset (fmdom (frame_store n))"

definition ids_around :: "mesh_node list \<Rightarrow> bytes set" where
  "ids_around ns = (\<Union>n\<in>set ns. fset (seen n) \<union> carried n)"

definition seen_total :: "mesh_node list \<Rightarrow> nat" where
  "seen_total ns = (\<Sum>n\<leftarrow>ns. card (fset (seen n)))"

definition net_ok :: "bytes set \<Rightarrow> mesh_node list \<Rightarrow> bool" where
  "net_ok I ns \<longleftrightarrow> (\<forall>n\<in>set ns. node_wf n \<and> fset (seen n) \<subseteq> I \<and> carried n \<subseteq> I)"

lemma net_ok_ids: "\<forall>n\<in>set ns. node_wf n \<Longrightarrow> net_ok (ids_around ns) ns"
  by (auto simp: net_ok_def ids_around_def)

lemma finite_ids_around: "finite (ids_around ns)"
  by (simp add: ids_around_def carried_def)

lemma ingest_offered:
  assumes "serde_ok S" "bs \<in> set (pending_broadcast S n)"
  obtains g where "g \<in> set (outbound n)" "bs = frame_encode S g"
    "\<And>m. ingest S m bs = (let (r, m') = handle_incoming m g in (Inr r, m'))"
  using assms by (auto simp: pending_broadcast_def ingest_def frame_encode_def frame_decode_def)

lemma offered_carried: "node_wf n \<Longrightarrow> g \<in> set (outbound n) \<Longrightarrow> msg_id g \<in> carried n"
  by (simp add: outbound_mem carried_def fmlookup_dom_iff)

lemma carried_offered: "node_wf n \<Longrightarrow> x \<in> carried n \<Longrightarrow> \<exists>g\<in>set (outbound n). msg_id g = x"
  using outbound_mem node_wf_key unfolding carried_def fmlookup_dom_iff by metis

lemma seen_length: "node_wf n \<Longrightarrow> length (seen_order n) = card (fset (seen n))"
  using node_wf_fifo(1) [of n] distinct_card [of "seen_order n"] by (simp add: fifo_ok_def)

lemma carried_length: "node_wf n \<Longrightarrow> length (store_order n) = card (carried n)"
  using node_wf_fifo(2) [of n] distinct_card [of "store_order n"] by (simp add: fifo_ok_def carried_def)

text \<open>An accepted frame was unknown, and is remembered without forgetting another while the identifiers fit.\<close>

lemma accepted_new: "handle_incoming n g = (Accepted fm fwd, n') \<Longrightarrow> msg_id g |\<notin>| seen n"
  by (auto simp: handle_incoming_def)

lemma accepted_seen:
  assumes "node_wf n" "handle_incoming n g = (Accepted fm fwd, n')"
    "finite I" "card I \<le> SEEN_CAP" "fset (seen n) \<subseteq> I" "msg_id g \<in> I"
  shows "fset (seen n') = insert (msg_id g) (fset (seen n))"
proof -
  have new: "msg_id g |\<notin>| seen n" by (rule accepted_new [OF assms(2)])
  then have "fset (seen n) \<subset> I" using assms(5,6) by blast
  then have "length (seen_order n) < SEEN_CAP"
    using psubset_card_mono [OF assms(3) \<open>fset (seen n) \<subset> I\<close>] seen_length [OF assms(1)] assms(4) by linarith
  then show ?thesis using seen_fifo.add_room [OF new] handle_new(3) [OF new] assms(2) by simp
qed

lemma accepted_store:
  assumes "handle_incoming n g = (Accepted fm fwd, n')"
  obtains m where "node_wf n \<Longrightarrow> node_wf m" "carried m = carried n" "store_order m = store_order n"
    "carried n' = (if fwd then carried (store_frame (g\<lparr>ttl := saturating_sub (ttl g) 1\<rparr>) m) else carried n)"
proof (rule that [of "if recipient g = me n then (mark_seen (msg_id g) n)\<lparr>inbox := inbox n @ [fr_payload g]\<rparr>
    else mark_seen (msg_id g) n"])
qed (use assms in \<open>auto simp: handle_incoming_def Let_def carried_def node_wf_mark split: if_splits\<close>)

lemma accepted_carried_sub:
  assumes "node_wf n" "handle_incoming n g = (Accepted fm fwd, n')"
  shows "carried n' \<subseteq> insert (msg_id g) (carried n)"
proof -
  obtain m where m: "node_wf m" "carried m = carried n"
    "carried n' = (if fwd then carried (store_frame (g\<lparr>ttl := saturating_sub (ttl g) 1\<rparr>) m) else carried n)"
    using accepted_store [OF assms(2)] assms(1) by metis
  show ?thesis
    using store_fifo.add_members_sub [OF node_wf_fifo(2) [OF m(1)], of "g\<lparr>ttl := saturating_sub (ttl g) 1\<rparr>"] m(2,3)
    by (auto simp: carried_def split: if_splits)
qed

lemma accepted_carried_keeps:
  assumes "node_wf n" "handle_incoming n g = (Accepted fm fwd, n')"
    "finite I" "card I \<le> STORE_CAP" "carried n \<subseteq> I" "msg_id g \<in> I"
  shows "carried n \<subseteq> carried n'"
proof -
  let ?g = "g\<lparr>ttl := saturating_sub (ttl g) 1\<rparr>"
  obtain m where m: "node_wf m" "carried m = carried n"
    "carried n' = (if fwd then carried (store_frame ?g m) else carried n)"
    using accepted_store [OF assms(2)] assms(1) by metis
  have "carried m \<subseteq> carried (store_frame ?g m)"
  proof (cases "msg_id g \<in> carried m")
    case True
    then show ?thesis using store_fifo.add_present [of ?g m] by (simp add: carried_def)
  next
    case False
    then have "carried m \<subset> I" using assms(5,6) m(2) by blast
    then have "length (store_order m) < STORE_CAP"
      using psubset_card_mono [OF assms(3) \<open>carried m \<subset> I\<close>] carried_length [OF m(1)] assms(4) by linarith
    then show ?thesis using store_fifo.add_room [of ?g m] False by (auto simp: carried_def)
  qed
  then show ?thesis using m(2,3) by simp
qed

text \<open>One step of the flood.\<close>

lemma flood_step_frame:
  assumes "serde_ok S" "net_ok I ns" "flood_step S ns ns'"
  obtains j g fm fwd n' where "j < length ns" "ns' = ns[j := n']" "msg_id g \<in> I"
    "handle_incoming (ns ! j) g = (Accepted fm fwd, n')"
  using assms(3)
proof (cases rule: flood_step.cases)
  case (hear i j bs fm fwd n')
  have i: "node_wf (ns ! i)" "carried (ns ! i) \<subseteq> I" using assms(2) hear(2) by (auto simp: net_ok_def)
  obtain g where g: "g \<in> set (outbound (ns ! i))"
    "\<And>m. ingest S m bs = (let (r, m') = handle_incoming m g in (Inr r, m'))"
    using ingest_offered [OF assms(1) hear(4)] by metis
  have "handle_incoming (ns ! j) g = (Accepted fm fwd, n')" using hear(5) g(2) by (simp split: prod.splits)
  moreover have "msg_id g \<in> I" using offered_carried [OF i(1) g(1)] i(2) by blast
  ultimately show thesis using that hear by blast
qed

lemma seen_total_update:
  "j < length ns \<Longrightarrow> card (fset (seen n')) = Suc (card (fset (seen (ns ! j)))) \<Longrightarrow>
   seen_total (ns[j := n']) = Suc (seen_total ns)"
proof (induction ns arbitrary: j)
  case (Cons n ns)
  then show ?case by (cases j) (auto simp: seen_total_def)
qed simp

lemma flood_step_progress:
  assumes "serde_ok S" "net_ok I ns" "finite I" "card I \<le> SEEN_CAP" "flood_step S ns ns'"
  shows "net_ok I ns' \<and> length ns' = length ns \<and> seen_total ns' = Suc (seen_total ns)"
proof -
  obtain j g fm fwd n' where s: "j < length ns" "ns' = ns[j := n']" "msg_id g \<in> I"
    "handle_incoming (ns ! j) g = (Accepted fm fwd, n')"
    by (rule flood_step_frame [OF assms(1,2,5)])
  have j: "node_wf (ns ! j)" "fset (seen (ns ! j)) \<subseteq> I" "carried (ns ! j) \<subseteq> I"
    using assms(2) s(1) by (auto simp: net_ok_def)
  have seen: "fset (seen n') = insert (msg_id g) (fset (seen (ns ! j)))"
    by (rule accepted_seen [OF j(1) s(4) assms(3,4) j(2) s(3)])
  have "node_wf n' \<and> fset (seen n') \<subseteq> I \<and> carried n' \<subseteq> I"
    using node_wf_incoming [OF j(1), of g] accepted_carried_sub [OF j(1) s(4)] seen j s(3,4) by auto
  then have "net_ok I ns'"
    using assms(2) set_update_subset_insert [of ns j n'] s(2) unfolding net_ok_def by blast
  moreover have "card (fset (seen n')) = Suc (card (fset (seen (ns ! j))))"
    using accepted_new [OF s(4)] seen by simp
  ultimately show ?thesis using seen_total_update s(1,2) by simp
qed

lemma flood_step_carries:
  assumes "serde_ok S" "net_ok I ns" "finite I" "card I \<le> STORE_CAP" "flood_step S ns ns'" "k < length ns"
  shows "carried (ns ! k) \<subseteq> carried (ns' ! k)"
proof -
  obtain j g fm fwd n' where s: "j < length ns" "ns' = ns[j := n']" "msg_id g \<in> I"
    "handle_incoming (ns ! j) g = (Accepted fm fwd, n')"
    by (rule flood_step_frame [OF assms(1,2,5)])
  have "node_wf (ns ! j)" "carried (ns ! j) \<subseteq> I" using assms(2) s(1) by (auto simp: net_ok_def)
  then show ?thesis using accepted_carried_keeps [OF _ s(4) assms(3,4) _ s(3)] s(1,2) assms(6) by (cases "k = j") auto
qed

text \<open>Runs of the flood.\<close>

lemma flood_run_progress:
  assumes "serde_ok S" "net_ok I ns" "finite I" "card I \<le> SEEN_CAP" "(flood_step S ^^ k) ns ns'"
  shows "net_ok I ns' \<and> length ns' = length ns \<and> seen_total ns' = seen_total ns + k"
  using assms(5)
proof (induction k arbitrary: ns')
  case (Suc k)
  then obtain m where m: "(flood_step S ^^ k) ns m" "flood_step S m ns'" by auto
  have I: "net_ok I m \<and> length m = length ns \<and> seen_total m = seen_total ns + k" by (rule Suc.IH [OF m(1)])
  then show ?case using flood_step_progress [OF assms(1) _ assms(3,4) m(2)] by simp
qed (use assms(2) in simp)

lemma flood_run_carries:
  assumes "serde_ok S" "net_ok I ns" "finite I" "card I \<le> STORE_CAP" "(flood_step S ^^ k) ns ns'" "i < length ns"
  shows "carried (ns ! i) \<subseteq> carried (ns' ! i)"
  using assms(5)
proof (induction k arbitrary: ns')
  case (Suc k)
  then obtain m where m: "(flood_step S ^^ k) ns m" "flood_step S m ns'" by auto
  have "card I \<le> SEEN_CAP" using assms(4) by (simp add: SEEN_CAP_def STORE_CAP_def)
  then have "net_ok I m" "length m = length ns" using flood_run_progress [OF assms(1-3) _ m(1)] by auto
  then show ?case using Suc.IH [OF m(1)] flood_step_carries [OF assms(1) _ assms(3,4) m(2)] assms(6) by fastforce
qed simp

lemma seen_total_le:
  assumes "finite I" "net_ok I ns"
  shows "seen_total ns \<le> length ns * card I"
proof -
  have "card (fset (seen n)) \<le> card I" if "n \<in> set ns" for n
    by (rule card_mono [OF assms(1)]) (use assms(2) that in \<open>auto simp: net_ok_def\<close>)
  then have "(\<Sum>n\<leftarrow>ns. card (fset (seen n))) \<le> (\<Sum>n\<leftarrow>ns. card I)" by (intro sum_list_mono) auto
  then show ?thesis by (simp add: seen_total_def sum_list_triv)
qed

lemma stuck_seen:
  assumes "serde_ok S" "\<And>ns'. \<not> flood_step S ns ns'" "i < length ns" "j < length ns" "g \<in> set (outbound (ns ! i))"
  shows "msg_id g |\<in>| seen (ns ! j)"
proof (rule ccontr)
  assume new: "msg_id g |\<notin>| seen (ns ! j)"
  obtain fm fwd n' where "handle_incoming (ns ! j) g = (Accepted fm fwd, n')"
    using new by (simp add: handle_incoming_def Let_def)
  then have "ingest S (ns ! j) (frame_encode S g) = (Inr (Accepted fm fwd), n')"
    using assms(1) by (simp add: ingest_def frame_encode_def frame_decode_def)
  moreover have "frame_encode S g \<in> set (pending_broadcast S (ns ! i))"
    using assms(5) by (simp add: pending_broadcast_def)
  ultimately show False using flood_step.hear [OF assms(3,4)] assms(2) by blast
qed

lemma flood_run_bounded:
  assumes "serde_ok S" "\<forall>n\<in>set ns. node_wf n" "card (ids_around ns) \<le> SEEN_CAP" "(flood_step S ^^ k) ns ns'"
  shows "k \<le> length ns * card (ids_around ns) - seen_total ns"
  using flood_run_progress [OF assms(1) net_ok_ids [OF assms(2)] finite_ids_around assms(3,4)]
    seen_total_le [OF finite_ids_around, of ns ns'] by simp

lemma flood_settles:
  assumes "serde_ok S" "\<forall>n\<in>set ns. node_wf n" "card (ids_around ns) \<le> SEEN_CAP"
  shows "\<exists>k ns'. (flood_step S ^^ k) ns ns' \<and> (\<nexists>ns''. flood_step S ns' ns'')"
proof -
  let ?P = "\<lambda>k. \<exists>ns'. (flood_step S ^^ k) ns ns'"
  let ?B = "Suc (length ns * card (ids_around ns) - seen_total ns)"
  have start: "?P 0" by simp
  have bound: "\<forall>k. ?P k \<longrightarrow> k < ?B" using flood_run_bounded [OF assms] le_imp_less_Suc by blast
  obtain k where k: "?P k" "\<forall>k'. ?P k' \<longrightarrow> k' \<le> k"
    using ex_has_greatest_nat [of ?P 0 "\<lambda>k. k" ?B, OF start bound] by blast
  then obtain ns' where ns': "(flood_step S ^^ k) ns ns'" by blast
  have "\<not> flood_step S ns' ns''" for ns'' using k(2) [rule_format, of "Suc k"] ns' by auto
  then show ?thesis using ns' by blast
qed

lemma flood_reaches:
  assumes "serde_ok S" "\<forall>n\<in>set ns. node_wf n" "card (ids_around ns) \<le> SEEN_CAP" "(flood_step S ^^ k) ns ns'"
    and cap: "card (ids_around ns) \<le> STORE_CAP" and stuck: "\<nexists>ns''. flood_step S ns' ns''"
    and n: "n \<in> set ns" "x \<in> carried n" and m: "m \<in> set ns'"
  shows "x \<in> fset (seen m)"
proof -
  note I = net_ok_ids [OF assms(2)] and fin = finite_ids_around [of ns]
  note run = flood_run_progress [OF assms(1) I fin assms(3,4)]
  obtain i where i: "i < length ns" "ns ! i = n" using n(1) by (metis in_set_conv_nth)
  obtain j where j: "j < length ns'" "ns' ! j = m" using m by (metis in_set_conv_nth)
  have x: "x \<in> carried (ns' ! i)" using flood_run_carries [OF assms(1) I fin cap assms(4) i(1)] n(2) i(2) by blast
  have len: "i < length ns'" using run i(1) by simp
  then have "node_wf (ns' ! i)" using run by (auto simp: net_ok_def)
  then obtain g where "g \<in> set (outbound (ns' ! i))" "msg_id g = x" using carried_offered x by blast
  then show ?thesis using stuck_seen [OF assms(1) _ len j(1)] stuck j(2) by blast
qed



end
