(* ===== verification/Relay_Store.thy ===== *)
theory Relay_Store
  imports Handshake
begin

text \<open>
  The relay's state of \<^verbatim>\<open>relay/src/store.rs\<close>: the prekey directory, the mailboxes with their caps and
  expiry, and file-backed persistence. Every method locks, works and unlocks, so a method is a function on
  the store. Unix times are natural numbers (\<open>u64\<close> seconds, only compared and subtracted with saturation),
  an \<open>Instant\<close> is a number of nanoseconds. The file system is a map from paths to contents; a fault argument
  says where an I/O call fails.
\<close>

definition SNAPSHOT_VERSION :: u8 where
  "SNAPSHOT_VERSION = 1"

definition FLUSH_INTERVAL_SECS :: nat where
  "FLUSH_INTERVAL_SECS = 1"

record store_limits =
  mail_ttl_secs :: nat
  max_message_bytes :: nat
  max_mailbox_messages :: nat
  max_mailbox_bytes :: nat

definition default_limits :: store_limits where
  "default_limits = \<lparr>mail_ttl_secs = 30 * 24 * 60 * 60, max_message_bytes = 256 * 1024,
     max_mailbox_messages = 10000, max_mailbox_bytes = 32 * 1024 * 1024\<rparr>"

datatype store_error = MessageTooLarge

record stored_keys =
  base_bundle :: prekey_bundle
  one_time :: "(u32 \<times> bytes) list"

record queued_message =
  enqueued_at :: nat
  qm_bytes :: bytes

record relay_inner =
  dir_keys :: "(bytes, stored_keys) fmap"
  queues :: "(bytes, queued_message list) fmap"

record snapshot =
  sn_version :: u8
  sn_inner :: relay_inner

record persistence =
  state_path :: string
  dirty :: bool
  last_flush :: int

record relay_store =
  rs_inner :: relay_inner
  limits :: store_limits
  persistence_of :: "persistence option"

definition inner_default :: relay_inner where
  "inner_default = \<lparr>dir_keys = fmempty, queues = fmempty\<rparr>"

definition store_with_limits :: "store_limits \<Rightarrow> relay_store" where
  "store_with_limits l = \<lparr>rs_inner = inner_default, limits = l, persistence_of = None\<rparr>"

definition store_new :: relay_store where
  "store_new = store_with_limits default_limits"

text \<open>The outcome of \<open>std::fs::read\<close>.\<close>

datatype read_result = ReadOk bytes | NotFound | ReadErr string

definition store_open :: "snapshot serde \<Rightarrow> int \<Rightarrow> string \<Rightarrow> store_limits \<Rightarrow> read_result \<Rightarrow> string + relay_store" where
  "store_open S now path l rd =
     (let build = (\<lambda>inner. Inr \<lparr>rs_inner = inner, limits = l,
            persistence_of = Some \<lparr>state_path = path, dirty = False, last_flush = now\<rparr>\<rparr>)
      in case rd of
           ReadOk bs \<Rightarrow>
             (case de S bs of
                Inl e \<Rightarrow> Inl (''corrupt relay state: '' @ e)
              | Inr snap \<Rightarrow>
                  if sn_version snap \<noteq> SNAPSHOT_VERSION
                  then Inl (''relay state version '' @ show_nat (unat (sn_version snap)) @
                            '' unsupported (expected '' @ show_nat (unat SNAPSHOT_VERSION) @ '')'')
                  else build (sn_inner snap))
         | NotFound \<Rightarrow> build inner_default
         | ReadErr e \<Rightarrow> Inl e)"

definition mark_dirty :: "relay_store \<Rightarrow> relay_store" where
  "mark_dirty st = st\<lparr>persistence_of := map_option (\<lambda>p. p\<lparr>dirty := True\<rparr>) (persistence_of st)\<rparr>"

definition publish :: "relay_store \<Rightarrow> prekey_bundle \<Rightarrow> (u32 \<times> bytes) list \<Rightarrow> relay_store" where
  "publish st b otps =
     (let identity = pb_identity_ed b;
          b' = b\<lparr>pb_one_time_prekey := None, pb_one_time_prekey_id := None\<rparr>;
          inner = rs_inner st
      in mark_dirty (st\<lparr>rs_inner := inner\<lparr>dir_keys :=
           fmupd identity \<lparr>base_bundle = b', one_time = otps\<rparr> (dir_keys inner)\<rparr>\<rparr>))"

definition fetch_bundle :: "relay_store \<Rightarrow> bytes \<Rightarrow> prekey_bundle option \<times> relay_store" where
  "fetch_bundle st identity =
     (let inner = rs_inner st
      in case fmlookup (dir_keys inner) identity of
           None \<Rightarrow> (None, st)
         | Some sk \<Rightarrow>
             (case one_time sk of
                [] \<Rightarrow> (Some (base_bundle sk), st)
              | (i, pub) # rest \<Rightarrow>
                  (Some ((base_bundle sk)\<lparr>pb_one_time_prekey := Some pub, pb_one_time_prekey_id := Some i\<rparr>),
                   mark_dirty (st\<lparr>rs_inner := inner\<lparr>dir_keys :=
                     fmupd identity (sk\<lparr>one_time := rest\<rparr>) (dir_keys inner)\<rparr>\<rparr>))))"

definition one_time_remaining :: "relay_store \<Rightarrow> bytes \<Rightarrow> nat" where
  "one_time_remaining st identity =
     (case fmlookup (dir_keys (rs_inner st)) identity of None \<Rightarrow> 0 | Some sk \<Rightarrow> length (one_time sk))"

definition queue_bytes :: "queued_message list \<Rightarrow> nat" where
  "queue_bytes q = sum_list (map (\<lambda>m. length (qm_bytes m)) q)"

text \<open>The two loops that drop the oldest messages.\<close>

fun drop_count :: "nat \<Rightarrow> queued_message list \<Rightarrow> queued_message list" where
  "drop_count cap q = (if length q > cap then drop_count cap (tl q) else q)"

declare drop_count.simps [simp del]

fun drop_bytes :: "nat \<Rightarrow> nat \<Rightarrow> queued_message list \<Rightarrow> queued_message list" where
  "drop_bytes cap tot [] = []"
| "drop_bytes cap tot (m # q) =
     (if tot > cap then drop_bytes cap (tot - length (qm_bytes m)) q else m # q)"

definition enqueue_at :: "relay_store \<Rightarrow> bytes \<Rightarrow> bytes \<Rightarrow> nat \<Rightarrow> (store_error + unit) \<times> relay_store" where
  "enqueue_at st rcpt msg now =
     (if length msg > max_message_bytes (limits st) then (Inl MessageTooLarge, st)
      else let inner = rs_inner st;
               q0 = (case fmlookup (queues inner) rcpt of None \<Rightarrow> [] | Some q \<Rightarrow> q);
               q1 = q0 @ [\<lparr>enqueued_at = now, qm_bytes = msg\<rparr>];
               q2 = drop_count (max_mailbox_messages (limits st)) q1;
               q3 = drop_bytes (max_mailbox_bytes (limits st)) (queue_bytes q2) q2
           in (Inr (), mark_dirty (st\<lparr>rs_inner := inner\<lparr>queues := fmupd rcpt q3 (queues inner)\<rparr>\<rparr>)))"

definition poll_at :: "relay_store \<Rightarrow> bytes \<Rightarrow> nat \<Rightarrow> bytes list \<times> relay_store" where
  "poll_at st rcpt now =
     (let cutoff = now - mail_ttl_secs (limits st);
          inner = rs_inner st
      in case fmlookup (queues inner) rcpt of
           None \<Rightarrow> ([], st)
         | Some drained \<Rightarrow>
             (map qm_bytes (filter (\<lambda>m. enqueued_at m \<ge> cutoff) drained),
              mark_dirty (st\<lparr>rs_inner := inner\<lparr>queues := fmdrop rcpt (queues inner)\<rparr>\<rparr>)))"

text \<open>\<open>HashMap::retain\<close> with a closure that also filters each queue.\<close>

definition live_mail :: "nat \<Rightarrow> queued_message list \<Rightarrow> queued_message list" where
  "live_mail cutoff q = filter (\<lambda>m. enqueued_at m \<ge> cutoff) q"

definition sweep_queues :: "nat \<Rightarrow> (bytes, queued_message list) fmap \<Rightarrow> (bytes, queued_message list) fmap" where
  "sweep_queues cutoff qs = fmfilter (\<lambda>k. fmlookup (fmmap (live_mail cutoff) qs) k \<noteq> Some []) (fmmap (live_mail cutoff) qs)"

definition sweep_removed :: "nat \<Rightarrow> (bytes, queued_message list) fmap \<Rightarrow> nat" where
  "sweep_removed cutoff qs =
     sum_list (map (\<lambda>(k, q). length q - length (live_mail cutoff q)) (sorted_list_of_fmap qs))"

definition sweep_expired_at :: "relay_store \<Rightarrow> nat \<Rightarrow> nat \<times> relay_store" where
  "sweep_expired_at st now =
     (let cutoff = now - mail_ttl_secs (limits st);
          inner = rs_inner st;
          removed = sweep_removed cutoff (queues inner);
          st' = st\<lparr>rs_inner := inner\<lparr>queues := sweep_queues cutoff (queues inner)\<rparr>\<rparr>
      in (removed, if removed > 0 then mark_dirty st' else st'))"

text \<open>
  \<open>now_unix\<close> on a system clock that reads nanoseconds since 1970; a clock before 1970 makes \<open>expect\<close> panic (\<open>None\<close>). The
  public methods read it and call the ones above.
\<close>

definition now_unix :: "int \<Rightarrow> nat option" where
  "now_unix clock = (if clock < 0 then None else Some (nat clock div 1000000000))"

definition enqueue :: "int \<Rightarrow> relay_store \<Rightarrow> bytes \<Rightarrow> bytes \<Rightarrow> ((store_error + unit) \<times> relay_store) option" where
  "enqueue clock st rcpt msg = map_option (enqueue_at st rcpt msg) (now_unix clock)"

definition poll :: "int \<Rightarrow> relay_store \<Rightarrow> bytes \<Rightarrow> (bytes list \<times> relay_store) option" where
  "poll clock st rcpt = map_option (poll_at st rcpt) (now_unix clock)"

definition sweep_expired :: "int \<Rightarrow> relay_store \<Rightarrow> (nat \<times> relay_store) option" where
  "sweep_expired clock st = map_option (sweep_expired_at st) (now_unix clock)"

text \<open>
  \<open>Path::with_extension("tmp")\<close>: the extension of the last component is replaced, or added when there is
  none; a leading dot does not start an extension.
\<close>

definition with_extension_tmp :: "string \<Rightarrow> string" where
  "with_extension_tmp path =
     (let name = rev (takeWhile (\<lambda>c. c \<noteq> CHR ''/'') (rev path));
          dir = rev (dropWhile (\<lambda>c. c \<noteq> CHR ''/'') (rev path));
          stem = (case dropWhile (\<lambda>c. c \<noteq> CHR ''.'') (rev name) of
                    [] \<Rightarrow> name | [_] \<Rightarrow> name | _ # st \<Rightarrow> rev st)
      in dir @ stem @ ''.tmp'')"

type_synonym disk = "(string, bytes) fmap"

text \<open>Where a snapshot write fails: opening the temporary file, writing it (leaving part of it), or at the rename.\<close>

datatype io_fault = NoFault | CreateFault | WriteFault nat | RenameFault

definition elapsed_secs :: "int \<Rightarrow> int \<Rightarrow> nat" where
  "elapsed_secs now since = nat (now - since) div 1000000000"

definition maybe_flush :: "snapshot serde \<Rightarrow> io_fault \<Rightarrow> int \<Rightarrow> int \<Rightarrow> relay_store \<Rightarrow> disk
    \<Rightarrow> (string + unit) \<times> relay_store \<times> disk" where
  "maybe_flush S fault now done_at st d =
     (case persistence_of st of
        None \<Rightarrow> (Inr (), st, d)
      | Some p \<Rightarrow>
          if \<not> dirty p \<or> elapsed_secs now (last_flush p) < FLUSH_INTERVAL_SECS then (Inr (), st, d)
          else let bs = ser S \<lparr>sn_version = SNAPSHOT_VERSION, sn_inner = rs_inner st\<rparr>;
                   tmp = with_extension_tmp (state_path p)
               in case fault of
                    CreateFault \<Rightarrow> (Inl ''write failed'', st, d)
                  | WriteFault k \<Rightarrow> (Inl ''write failed'', st, fmupd tmp (take k bs) d)
                  | RenameFault \<Rightarrow> (Inl ''rename failed'', st, fmupd tmp bs d)
                  | NoFault \<Rightarrow>
                      (Inr (),
                       st\<lparr>persistence_of := Some (p\<lparr>dirty := False, last_flush := done_at\<rparr>)\<rparr>,
                       fmupd (state_path p) bs (fmdrop tmp d)))"

text \<open>
  \<open>flush\<close> moves \<open>last_flush\<close> two seconds back first; \<open>Instant::checked_sub\<close> fails below the platform's
  earliest instant \<open>earliest\<close>.
\<close>

definition flush :: "snapshot serde \<Rightarrow> io_fault \<Rightarrow> int \<Rightarrow> int \<Rightarrow> int \<Rightarrow> int \<Rightarrow> relay_store \<Rightarrow> disk
    \<Rightarrow> (string + unit) \<times> relay_store \<times> disk" where
  "flush S fault earliest t0 now done_at st d =
     (let back = t0 - int (FLUSH_INTERVAL_SECS + 1) * 1000000000;
          lf = (if earliest \<le> back then back else t0);
          st' = st\<lparr>persistence_of :=
            map_option (\<lambda>p. p\<lparr>dirty := True, last_flush := lf\<rparr>) (persistence_of st)\<rparr>
      in maybe_flush S fault now done_at st' d)"

definition split_bundle :: "'c crypto_scheme \<Rightarrow> account \<Rightarrow> prekey_bundle \<times> (u32 \<times> bytes) list" where
  "split_bundle C a =
     ((account_bundle C a)\<lparr>pb_one_time_prekey := None, pb_one_time_prekey_id := None\<rparr>,
      account_one_time_prekey_publics C a)"

text \<open>What the file at \<open>path\<close> is to \<open>std::fs::read\<close>.\<close>

definition read_file :: "disk \<Rightarrow> string \<Rightarrow> read_result" where
  "read_file d path = (case fmlookup d path of None \<Rightarrow> NotFound | Some bs \<Rightarrow> ReadOk bs)"

text \<open>A mailbox within the caps.\<close>

definition mailbox_ok :: "store_limits \<Rightarrow> queued_message list \<Rightarrow> bool" where
  "mailbox_ok l q \<longleftrightarrow> length q \<le> max_mailbox_messages l \<and> queue_bytes q \<le> max_mailbox_bytes l"

definition mailbox :: "relay_store \<Rightarrow> bytes \<Rightarrow> queued_message list" where
  "mailbox st rcpt = (case fmlookup (queues (rs_inner st)) rcpt of None \<Rightarrow> [] | Some q \<Rightarrow> q)"

text \<open>
  The states a file-backed relay can be in, with the disk beside it: it starts on an empty disk and runs any
  sequence of operations; a snapshot write may fail at any point, and the process may die and restart from what
  the disk holds at any time.
\<close>

inductive relay_reach :: "snapshot serde \<Rightarrow> string \<Rightarrow> store_limits \<Rightarrow> relay_store \<Rightarrow> disk \<Rightarrow> bool"
  for S path l where
  boot: "store_open S now path l NotFound = Inr st \<Longrightarrow> relay_reach S path l st fmempty"
| publishes: "relay_reach S path l st d \<Longrightarrow> relay_reach S path l (publish st b otps) d"
| fetches: "relay_reach S path l st d \<Longrightarrow> relay_reach S path l (snd (fetch_bundle st identity)) d"
| enqueues: "relay_reach S path l st d \<Longrightarrow> relay_reach S path l (snd (enqueue_at st rcpt msg now)) d"
| polls: "relay_reach S path l st d \<Longrightarrow> relay_reach S path l (snd (poll_at st rcpt now)) d"
| sweeps: "relay_reach S path l st d \<Longrightarrow> relay_reach S path l (snd (sweep_expired_at st now)) d"
| flushes: "relay_reach S path l st d \<Longrightarrow> maybe_flush S fault now done_at st d = (r, st', d') \<Longrightarrow>
     relay_reach S path l st' d'"
| forces: "relay_reach S path l st d \<Longrightarrow> flush S fault earliest t0 now done_at st d = (r, st', d') \<Longrightarrow>
     relay_reach S path l st' d'"
| restarts: "relay_reach S path l st d \<Longrightarrow> store_open S now path l (read_file d path) = Inr st' \<Longrightarrow>
     relay_reach S path l st' d"

text \<open>Fetching a bundle several times.\<close>

primrec fetch_many :: "nat \<Rightarrow> bytes \<Rightarrow> relay_store \<Rightarrow> prekey_bundle option list" where
  "fetch_many 0 identity st = []"
| "fetch_many (Suc k) identity st =
     (let (b, st') = fetch_bundle st identity in b # fetch_many k identity st')"

text \<open>Queueing several messages for one mailbox, each with its arrival time.\<close>

definition enqueue_all :: "bytes \<Rightarrow> (bytes \<times> nat) list \<Rightarrow> relay_store \<Rightarrow> relay_store" where
  "enqueue_all rcpt ms st = fold (\<lambda>(m, t) s. snd (enqueue_at s rcpt m t)) ms st"

definition inner_ok :: "store_limits \<Rightarrow> relay_inner \<Rightarrow> bool" where
  "inner_ok l inner \<longleftrightarrow> (\<forall>r q. fmlookup (queues inner) r = Some q \<longrightarrow> mailbox_ok l q)"

text \<open>What the disk holds for the relay: nothing yet, or a complete snapshot of some state.\<close>

definition disk_inner :: "snapshot serde \<Rightarrow> string \<Rightarrow> disk \<Rightarrow> relay_inner \<Rightarrow> bool" where
  "disk_inner S path d inner \<longleftrightarrow>
     (case fmlookup d path of
        None \<Rightarrow> inner = inner_default
      | Some bs \<Rightarrow> bs = ser S \<lparr>sn_version = SNAPSHOT_VERSION, sn_inner = inner\<rparr>)"

text \<open>Equal directories and equal mailboxes; a mailbox with no mail is as good as none.\<close>

definition inner_equiv :: "relay_inner \<Rightarrow> relay_inner \<Rightarrow> bool" where
  "inner_equiv a b \<longleftrightarrow> dir_keys a = dir_keys b \<and>
     (\<forall>r. (case fmlookup (queues a) r of None \<Rightarrow> [] | Some q \<Rightarrow> q) =
          (case fmlookup (queues b) r of None \<Rightarrow> [] | Some q \<Rightarrow> q))"

definition relay_inv :: "snapshot serde \<Rightarrow> string \<Rightarrow> store_limits \<Rightarrow> relay_store \<Rightarrow> disk \<Rightarrow> bool" where
  "relay_inv S path l st d \<longleftrightarrow>
     limits st = l \<and> inner_ok l (rs_inner st) \<and>
     (\<exists>p. persistence_of st = Some p \<and> state_path p = path \<and>
        (\<exists>inner. disk_inner S path d inner \<and> inner_ok l inner \<and>
           (\<not> dirty p \<longrightarrow> inner_equiv inner (rs_inner st))))"

text \<open>Concrete formats for bundles and snapshots.\<close>

definition prekey_bundle_fmt :: "prekey_bundle fmt" where
  "prekey_bundle_fmt = fmt_via
     (\<lambda>b. (pb_identity_ed b, pb_identity_dh b, pb_identity_dh_sig b, pb_signed_prekey b, pb_signed_prekey_id b,
           pb_signed_prekey_sig b, pb_kyber_prekey b, pb_kyber_prekey_id b, pb_kyber_prekey_sig b,
           pb_one_time_prekey b, pb_one_time_prekey_id b))
     (\<lambda>(a, b, c, d, e, f, g, h, i, j, k). \<lparr>pb_identity_ed = a, pb_identity_dh = b, pb_identity_dh_sig = c,
        pb_signed_prekey = d, pb_signed_prekey_id = e, pb_signed_prekey_sig = f, pb_kyber_prekey = g,
        pb_kyber_prekey_id = h, pb_kyber_prekey_sig = i, pb_one_time_prekey = j, pb_one_time_prekey_id = k\<rparr>)
     (fmt_pair fmt_bytes (fmt_pair fmt_bytes (fmt_pair fmt_bytes (fmt_pair fmt_bytes (fmt_pair fmt_u32
       (fmt_pair fmt_bytes (fmt_pair fmt_bytes (fmt_pair fmt_u32 (fmt_pair fmt_bytes
         (fmt_pair (fmt_option fmt_bytes) (fmt_option fmt_u32)))))))))))"

definition fmt_nat :: "nat fmt" where
  "fmt_nat = fmt_via (\<lambda>n. replicate n ()) length (fmt_list fmt_unit)"

definition fmt_fmap :: "('k::linorder) fmt \<Rightarrow> 'v fmt \<Rightarrow> ('k, 'v) fmap fmt" where
  "fmt_fmap K V = fmt_via sorted_list_of_fmap fm_collect (fmt_list (fmt_pair K V))"

definition stored_keys_fmt :: "stored_keys fmt" where
  "stored_keys_fmt = fmt_via (\<lambda>k. (base_bundle k, one_time k)) (\<lambda>(a, b). \<lparr>base_bundle = a, one_time = b\<rparr>)
     (fmt_pair prekey_bundle_fmt (fmt_list (fmt_pair fmt_u32 fmt_bytes)))"

definition queued_message_fmt :: "queued_message fmt" where
  "queued_message_fmt = fmt_via (\<lambda>m. (enqueued_at m, qm_bytes m)) (\<lambda>(a, b). \<lparr>enqueued_at = a, qm_bytes = b\<rparr>)
     (fmt_pair fmt_nat fmt_bytes)"

definition snapshot_fmt :: "snapshot fmt" where
  "snapshot_fmt = fmt_via
     (\<lambda>s. (sn_version s, dir_keys (sn_inner s), queues (sn_inner s)))
     (\<lambda>(a, b, c). \<lparr>sn_version = a, sn_inner = \<lparr>dir_keys = b, queues = c\<rparr>\<rparr>)
     (fmt_pair fmt_u8 (fmt_pair (fmt_fmap fmt_bytes stored_keys_fmt)
       (fmt_fmap fmt_bytes (fmt_list queued_message_fmt))))"

section \<open>Dropping the oldest messages\<close>

lemma drop_count_eq: "drop_count cap q = drop (length q - cap) q"
proof (induction cap q rule: drop_count.induct)
  case (1 cap q)
  show ?case
  proof (cases "length q > cap")
    case True
    then have "length q - cap = Suc (length (tl q) - cap)" by simp
    then show ?thesis using 1 True by (simp add: drop_count.simps [of cap q] drop_Suc)
  next
    case False
    then show ?thesis by (simp add: drop_count.simps [of cap q])
  qed
qed

lemma queue_bytes_simps [simp]:
  "queue_bytes [] = 0" "queue_bytes (m # q) = length (qm_bytes m) + queue_bytes q"
  "queue_bytes (p @ q) = queue_bytes p + queue_bytes q"
  by (simp_all add: queue_bytes_def)

text \<open>The byte loop keeps the longest suffix within the cap.\<close>

lemma drop_bytes_eq:
  "\<exists>k. drop_bytes cap (queue_bytes q) q = drop k q \<and> queue_bytes (drop k q) \<le> cap \<and>
     (\<forall>j<k. queue_bytes (drop j q) > cap)"
proof (induction q)
  case Nil
  then show ?case by (intro exI [of _ 0]) simp
next
  case (Cons m q)
  show ?case
  proof (cases "queue_bytes (m # q) > cap")
    case True
    obtain k where "drop_bytes cap (queue_bytes q) q = drop k q \<and> queue_bytes (drop k q) \<le> cap \<and>
        (\<forall>j<k. queue_bytes (drop j q) > cap)"
      using Cons.IH by blast
    then show ?thesis using True by (intro exI [of _ "Suc k"]) (auto simp: less_Suc_eq_0_disj)
  next
    case False
    then show ?thesis by (intro exI [of _ 0]) simp
  qed
qed

section \<open>Mailboxes\<close>

lemma mark_dirty_fields [simp]:
  "rs_inner (mark_dirty st) = rs_inner st" "limits (mark_dirty st) = limits st"
  "persistence_of (mark_dirty st) = map_option (\<lambda>p. p\<lparr>dirty := True\<rparr>) (persistence_of st)"
  by (simp_all add: mark_dirty_def)

lemma enqueue_large: "length msg > max_message_bytes (limits st) \<Longrightarrow> enqueue_at st r msg now = (Inl MessageTooLarge, st)"
  by (simp add: enqueue_at_def)

lemma trimmed_queue:
  fixes l q
  defines "q2 \<equiv> drop_count (max_mailbox_messages l) q"
  shows "\<exists>k. drop_bytes (max_mailbox_bytes l) (queue_bytes q2) q2 = drop k q \<and> mailbox_ok l (drop k q) \<and>
    (\<forall>j<k. \<not> mailbox_ok l (drop j q))"
proof -
  let ?c = "length q - max_mailbox_messages l"
  have q2: "q2 = drop ?c q" by (simp add: q2_def drop_count_eq)
  obtain k where k: "drop_bytes (max_mailbox_bytes l) (queue_bytes q2) q2 = drop k q2"
    "queue_bytes (drop k q2) \<le> max_mailbox_bytes l" "\<forall>j<k. queue_bytes (drop j q2) > max_mailbox_bytes l"
    using drop_bytes_eq by blast
  have "\<not> mailbox_ok l (drop j q)" if "j < k + ?c" for j
  proof (cases "j < ?c")
    case True
    then show ?thesis by (simp add: mailbox_ok_def)
  next
    case False
    then have "queue_bytes (drop (j - ?c) q2) > max_mailbox_bytes l" using k(3) that by auto
    then show ?thesis using False by (simp add: mailbox_ok_def q2)
  qed
  moreover have "mailbox_ok l (drop (k + ?c) q)" using k(2) by (simp add: mailbox_ok_def q2)
  ultimately show ?thesis using k(1) by (intro exI [of _ "k + ?c"]) (simp add: q2)
qed

lemma enqueue_small:
  assumes "length msg \<le> max_message_bytes (limits st)"
  shows "\<exists>k. let q = mailbox st r @ [\<lparr>enqueued_at = now, qm_bytes = msg\<rparr>] in
    enqueue_at st r msg now = (Inr (), mark_dirty (st\<lparr>rs_inner := (rs_inner st)\<lparr>queues :=
       fmupd r (drop k q) (queues (rs_inner st))\<rparr>\<rparr>)) \<and>
    mailbox_ok (limits st) (drop k q) \<and> (\<forall>j<k. \<not> mailbox_ok (limits st) (drop j q))"
proof -
  let ?q = "mailbox st r @ [\<lparr>enqueued_at = now, qm_bytes = msg\<rparr>]"
  obtain k where "drop_bytes (max_mailbox_bytes (limits st))
      (queue_bytes (drop_count (max_mailbox_messages (limits st)) ?q))
      (drop_count (max_mailbox_messages (limits st)) ?q) = drop k ?q"
    "mailbox_ok (limits st) (drop k ?q)" "\<forall>j<k. \<not> mailbox_ok (limits st) (drop j ?q)"
    using trimmed_queue by blast
  then show ?thesis
    using assms by (intro exI [of _ k]) (simp add: enqueue_at_def mailbox_def Let_def)
qed

lemma enqueue_fits:
  assumes "length msg \<le> max_message_bytes (limits st)"
    and "mailbox_ok (limits st) (mailbox st r @ [\<lparr>enqueued_at = now, qm_bytes = msg\<rparr>])"
  shows "mailbox (snd (enqueue_at st r msg now)) r = mailbox st r @ [\<lparr>enqueued_at = now, qm_bytes = msg\<rparr>]"
    "limits (snd (enqueue_at st r msg now)) = limits st"
proof -
  let ?q = "mailbox st r @ [\<lparr>enqueued_at = now, qm_bytes = msg\<rparr>]"
  obtain k where E: "enqueue_at st r msg now = (Inr (), mark_dirty (st\<lparr>rs_inner := (rs_inner st)\<lparr>queues :=
       fmupd r (drop k ?q) (queues (rs_inner st))\<rparr>\<rparr>))" "\<forall>j<k. \<not> mailbox_ok (limits st) (drop j ?q)"
    using enqueue_small [OF assms(1)] unfolding Let_def by blast
  have "k = 0" using E(2) assms(2) by (cases k) auto
  then show "mailbox (snd (enqueue_at st r msg now)) r = ?q" "limits (snd (enqueue_at st r msg now)) = limits st"
    using E(1) by (simp_all add: mailbox_def)
qed

lemma enqueue_other: "r' \<noteq> r \<Longrightarrow> mailbox (snd (enqueue_at st r msg now)) r' = mailbox st r'"
  by (simp add: enqueue_at_def mailbox_def Let_def)

lemma poll_eq:
  "fst (poll_at st r now) = map qm_bytes (live_mail (now - mail_ttl_secs (limits st)) (mailbox st r))"
  "mailbox (snd (poll_at st r now)) r = []"
  "r' \<noteq> r \<Longrightarrow> mailbox (snd (poll_at st r now)) r' = mailbox st r'"
  "limits (snd (poll_at st r now)) = limits st"
  by (simp_all add: poll_at_def mailbox_def live_mail_def Let_def split: option.split)

lemma sweep_mailbox:
  "mailbox (snd (sweep_expired_at st now)) r = live_mail (now - mail_ttl_secs (limits st)) (mailbox st r)"
  "limits (snd (sweep_expired_at st now)) = limits st"
  by (auto simp: sweep_expired_at_def mailbox_def sweep_queues_def live_mail_def Let_def split: option.split)

lemma enqueue_all_mailbox:
  assumes "\<forall>(m, t)\<in>set ms. length m \<le> max_message_bytes (limits st)"
    and "mailbox_ok (limits st) (mailbox st r @ map (\<lambda>(m, t). \<lparr>enqueued_at = t, qm_bytes = m\<rparr>) ms)"
  shows "mailbox (enqueue_all r ms st) r = mailbox st r @ map (\<lambda>(m, t). \<lparr>enqueued_at = t, qm_bytes = m\<rparr>) ms \<and>
    limits (enqueue_all r ms st) = limits st"
  using assms
proof (induction ms arbitrary: st)
  case Nil
  then show ?case by (simp add: enqueue_all_def)
next
  case (Cons mt ms)
  obtain m t where mt: "mt = (m, t)" by fastforce
  let ?st = "snd (enqueue_at st r m t)" and ?e = "\<lparr>enqueued_at = t, qm_bytes = m\<rparr>"
  have "mailbox_ok (limits st) (mailbox st r @ [?e])"
    using Cons.prems(2) by (simp add: mt mailbox_ok_def)
  moreover have "length m \<le> max_message_bytes (limits st)" using Cons.prems(1) by (simp add: mt)
  ultimately have E: "mailbox ?st r = mailbox st r @ [?e]" "limits ?st = limits st"
    by (rule enqueue_fits [rotated])+
  have "mailbox (enqueue_all r ms ?st) r = mailbox ?st r @ map (\<lambda>(m, t). \<lparr>enqueued_at = t, qm_bytes = m\<rparr>) ms \<and>
      limits (enqueue_all r ms ?st) = limits ?st"
    by (rule Cons.IH) (use Cons.prems E in \<open>auto simp: mt\<close>)
  then show ?case using E by (simp add: mt enqueue_all_def)
qed

section \<open>Crash safety\<close>

lemma inner_equiv_refl [simp]: "inner_equiv a a"
  by (simp add: inner_equiv_def)

lemma relay_inv_dirty:
  assumes "relay_inv S path l st d" "limits st' = limits st" "inner_ok l (rs_inner st')"
    and "persistence_of st' = map_option (\<lambda>p. p\<lparr>dirty := True\<rparr>) (persistence_of st)"
  shows "relay_inv S path l st' d"
  using assms unfolding relay_inv_def by auto

lemma live_mail_ok: "mailbox_ok l q \<Longrightarrow> mailbox_ok l (live_mail c q)"
proof -
  have "queue_bytes (live_mail c q) \<le> queue_bytes q" by (induction q) (auto simp: live_mail_def)
  moreover have "length (live_mail c q) \<le> length q" by (simp add: live_mail_def)
  ultimately show "mailbox_ok l q \<Longrightarrow> mailbox_ok l (live_mail c q)" unfolding mailbox_ok_def by linarith
qed

lemma enqueue_inner_ok:
  "inner_ok (limits st) (rs_inner st) \<Longrightarrow> inner_ok (limits st) (rs_inner (snd (enqueue_at st r msg now)))"
proof (cases "length msg \<le> max_message_bytes (limits st)")
  case True
  assume "inner_ok (limits st) (rs_inner st)"
  then show ?thesis using enqueue_small [OF True, of r now] by (auto simp: inner_ok_def Let_def split: if_splits)
qed (simp add: enqueue_large not_le)

lemma sweep_inner_ok: "inner_ok l (rs_inner st) \<Longrightarrow> inner_ok l (rs_inner (snd (sweep_expired_at st now)))"
  by (auto simp: inner_ok_def sweep_expired_at_def sweep_queues_def Let_def live_mail_ok)

lemma sweep_clean:
  assumes "sweep_removed c qs = 0" "fmlookup qs r = Some q"
  shows "live_mail c q = q"
proof -
  have "(r, q) \<in> set (sorted_list_of_fmap qs)"
    using assms(2) map_of_eq_Some_iff [OF distinct_sorted_list_of_fmap, of qs r q]
    by (simp add: map_of_sorted_list_of_fmap)
  then have "length q - length (live_mail c q) = 0" using assms(1) by (auto simp: sweep_removed_def)
  then show ?thesis by (simp add: live_mail_def filter_id_conv) (metis length_filter_less linorder_not_less)
qed

lemma sweep_equiv:
  "sweep_removed c (queues inner) = 0 \<Longrightarrow> inner_equiv inner (inner\<lparr>queues := sweep_queues c (queues inner)\<rparr>)"
  using sweep_clean [of c "queues inner"]
  by (auto simp: inner_equiv_def sweep_queues_def split: option.split)

lemma inner_equiv_trans: "inner_equiv a b \<Longrightarrow> inner_equiv b c \<Longrightarrow> inner_equiv a c"
  by (simp add: inner_equiv_def)

lemma relay_inv_sweep: "relay_inv S path l st d \<Longrightarrow> relay_inv S path l (snd (sweep_expired_at st now)) d"
proof (cases "sweep_removed (now - mail_ttl_secs (limits st)) (queues (rs_inner st)) = 0")
  case True
  assume I: "relay_inv S path l st d"
  let ?st = "snd (sweep_expired_at st now)"
  have E: "inner_equiv (rs_inner st) (rs_inner ?st)" "limits ?st = limits st" "persistence_of ?st = persistence_of st"
    using True sweep_equiv [OF True] by (simp_all add: sweep_expired_at_def Let_def)
  have "inner_ok l (rs_inner ?st)" using I by (intro sweep_inner_ok) (simp add: relay_inv_def)
  then show ?thesis using I E inner_equiv_trans unfolding relay_inv_def by metis
next
  case False
  assume I: "relay_inv S path l st d"
  show ?thesis
    by (rule relay_inv_dirty [OF I])
      (use False I sweep_inner_ok [of l st now] in \<open>auto simp: sweep_expired_at_def Let_def relay_inv_def\<close>)
qed

lemma relay_inv_flush:
  assumes I: "relay_inv S path l st d" and tmp: "with_extension_tmp path \<noteq> path"
    and F: "maybe_flush S fault now done_at st d = (r, st', d')"
  shows "relay_inv S path l st' d'"
proof -
  obtain p inner where p: "persistence_of st = Some p" "state_path p = path" "limits st = l"
    "inner_ok l (rs_inner st)" "disk_inner S path d inner" "inner_ok l inner" "\<not> dirty p \<longrightarrow> inner_equiv inner (rs_inner st)"
    using I by (auto simp: relay_inv_def)
  have same: "disk_inner S path (fmupd (with_extension_tmp path) x d) i = disk_inner S path d i" for x i
    using tmp by (simp add: disk_inner_def)
  have new: "disk_inner S path (fmupd path (ser S \<lparr>sn_version = SNAPSHOT_VERSION, sn_inner = rs_inner st\<rparr>) d2) (rs_inner st)" for d2
    by (simp add: disk_inner_def)
  show ?thesis
  proof (cases "\<not> dirty p \<or> elapsed_secs now (last_flush p) < FLUSH_INTERVAL_SECS")
    case True
    then show ?thesis using F I p(1) by (simp add: maybe_flush_def)
  next
    case False
    then have "relay_inv S path l st (fmupd (with_extension_tmp path) x d)" for x
      using p unfolding relay_inv_def same by blast
    moreover have "relay_inv S path l (st\<lparr>persistence_of := Some (p\<lparr>dirty := False, last_flush := done_at\<rparr>)\<rparr>)
        (fmupd path (ser S \<lparr>sn_version = SNAPSHOT_VERSION, sn_inner = rs_inner st\<rparr>) d2)" for d2
      unfolding relay_inv_def using p new [of d2] by auto
    ultimately show ?thesis
      using F I p(1,2) False by (cases fault) (auto simp: maybe_flush_def Let_def)
  qed
qed

lemma relay_inv_forced:
  assumes I: "relay_inv S path l st d"
  shows "relay_inv S path l (st\<lparr>persistence_of := map_option (\<lambda>p. p\<lparr>dirty := True, last_flush := x\<rparr>) (persistence_of st)\<rparr>) d"
  using I unfolding relay_inv_def by auto

lemma open_disk:
  assumes "serde_ok S" "disk_inner S path d inner"
  shows "store_open S now path l (read_file d path) = Inr \<lparr>rs_inner = inner, limits = l,
    persistence_of = Some \<lparr>state_path = path, dirty = False, last_flush = now\<rparr>\<rparr>"
  using assms by (auto simp: store_open_def read_file_def disk_inner_def split: option.splits)

lemma relay_inv_publish: "relay_inv S path l st d \<Longrightarrow> relay_inv S path l (publish st b otps) d"
  by (rule relay_inv_dirty) (auto simp: publish_def Let_def relay_inv_def inner_ok_def)

lemma relay_inv_fetch:
  assumes I: "relay_inv S path l st d"
  shows "relay_inv S path l (snd (fetch_bundle st identity)) d"
proof (cases "snd (fetch_bundle st identity) = st")
  case False
  show ?thesis
    by (rule relay_inv_dirty [OF I])
      (use False I in \<open>auto simp: fetch_bundle_def Let_def relay_inv_def inner_ok_def split: option.splits list.splits\<close>)
qed (simp add: I)

lemma relay_inv_enqueue:
  assumes I: "relay_inv S path l st d"
  shows "relay_inv S path l (snd (enqueue_at st rcpt msg now)) d"
proof (cases "length msg \<le> max_message_bytes (limits st)")
  case True
  show ?thesis
    by (rule relay_inv_dirty [OF I])
      (use True I enqueue_inner_ok [of st rcpt msg now] in \<open>auto simp: enqueue_at_def Let_def relay_inv_def\<close>)
qed (use I in \<open>simp add: enqueue_large not_le\<close>)

lemma relay_inv_poll:
  assumes I: "relay_inv S path l st d"
  shows "relay_inv S path l (snd (poll_at st rcpt now)) d"
proof (cases "snd (poll_at st rcpt now) = st")
  case False
  show ?thesis
    by (rule relay_inv_dirty [OF I])
      (use False I in \<open>auto simp: poll_at_def Let_def relay_inv_def inner_ok_def split: option.splits\<close>)
qed (simp add: I)

lemma relay_inv_open:
  assumes "serde_ok S" "disk_inner S path d inner" "inner_ok l inner"
    "store_open S now path l (read_file d path) = Inr st"
  shows "relay_inv S path l st d"
proof -
  have "st = \<lparr>rs_inner = inner, limits = l,
      persistence_of = Some \<lparr>state_path = path, dirty = False, last_flush = now\<rparr>\<rparr>"
    using assms(4) by (simp add: open_disk [OF assms(1,2)])
  then show ?thesis using assms(2,3) inner_equiv_refl [of inner] by (auto simp: relay_inv_def)
qed

lemmas relay_inv_ops = relay_inv_publish relay_inv_fetch relay_inv_enqueue relay_inv_poll relay_inv_sweep

lemma relay_reach_inv:
  assumes "relay_reach S path l st d" and S: "serde_ok S" and tmp: "with_extension_tmp path \<noteq> path"
  shows "relay_inv S path l st d"
  using assms(1)
proof induction
  case (boot now st)
  then show ?case
    by (auto simp: store_open_def relay_inv_def disk_inner_def inner_ok_def inner_default_def)
next
  case (flushes st d fault now done_at r st' d')
  then show ?case using relay_inv_flush tmp by blast
next
  case (forces st d fault earliest t0 now done_at r st' d')
  then show ?case
    using relay_inv_flush [OF relay_inv_forced tmp] by (fastforce simp: flush_def Let_def)
next
  case (restarts st d now st')
  obtain inner where "disk_inner S path d inner" "inner_ok l inner" using restarts.IH by (auto simp: relay_inv_def)
  then show ?case using relay_inv_open [OF S] restarts(2) by blast
qed (simp_all add: relay_inv_ops)

section \<open>The prekey directory\<close>

lemma fetch_many_eq:
  assumes "fmlookup (dir_keys (rs_inner st)) i = Some \<lparr>base_bundle = b, one_time = otps\<rparr>"
  shows "fetch_many k i st = map (\<lambda>j. Some (if j < length otps
      then b\<lparr>pb_one_time_prekey := Some (snd (otps ! j)), pb_one_time_prekey_id := Some (fst (otps ! j))\<rparr> else b)) [0..<k]"
  using assms
proof (induction k arbitrary: st otps)
  case 0
  then show ?case by simp
next
  case (Suc k)
  have split: "[0..<Suc k] = 0 # map Suc [0..<k]" by (simp add: map_Suc_upt upt_conv_Cons del: upt_Suc)
  show ?case
  proof (cases otps)
    case Nil
    then show ?thesis using Suc by (simp add: split fetch_bundle_def Let_def del: upt_Suc)
  next
    case (Cons p rest)
    obtain j q where p: "p = (j, q)" by fastforce
    obtain st' where F: "fetch_bundle st i = (Some (b\<lparr>pb_one_time_prekey := Some q, pb_one_time_prekey_id := Some j\<rparr>), st')"
      "fmlookup (dir_keys (rs_inner st')) i = Some \<lparr>base_bundle = b, one_time = rest\<rparr>"
      using Suc.prems by (simp add: fetch_bundle_def Let_def Cons p)
    show ?thesis
      using Suc.IH [OF F(2)] F(1) unfolding split by (simp add: Cons p del: upt_Suc)
  qed
qed

section \<open>Concrete formats\<close>

lemma snapshot_fmt_ok: "fmt_ok snapshot_fmt"
proof -
  have "fmt_ok prekey_bundle_fmt" unfolding prekey_bundle_fmt_def by (intro fmt_laws) simp
  moreover have "fmt_ok fmt_nat" unfolding fmt_nat_def by (intro fmt_laws) simp
  moreover have fm: "fmt_ok K \<Longrightarrow> fmt_ok V \<Longrightarrow> fmt_ok (fmt_fmap K V)" for K :: "bytes fmt" and V :: "'v fmt"
    unfolding fmt_fmap_def by (intro fmt_laws) simp_all
  ultimately show ?thesis
    unfolding snapshot_fmt_def stored_keys_fmt_def queued_message_fmt_def by (intro fmt_laws fm) simp_all
qed

section \<open>Properties\<close>

text \<open>
  C9: queueing. A message over the size limit is refused and nothing changes. Any other message is appended, and then
  exactly as many of the oldest messages are dropped as it takes to bring the mailbox within both caps: the new
  mailbox is the longest suffix that fits. Other mailboxes and the directory are untouched.
\<close>

theorem enqueue_drops_oldest:
  "(length msg > max_message_bytes (limits st) \<longrightarrow> enqueue_at st r msg now = (Inl MessageTooLarge, st)) \<and>
   (length msg \<le> max_message_bytes (limits st) \<longrightarrow>
     (let q = mailbox st r @ [\<lparr>enqueued_at = now, qm_bytes = msg\<rparr>]; (res, st') = enqueue_at st r msg now in
      res = Inr () \<and> dir_keys (rs_inner st') = dir_keys (rs_inner st) \<and>
      (\<forall>r'. r' \<noteq> r \<longrightarrow> mailbox st' r' = mailbox st r') \<and>
      (\<exists>k. mailbox st' r = drop k q \<and> mailbox_ok (limits st) (drop k q) \<and>
         (\<forall>j<k. \<not> mailbox_ok (limits st) (drop j q)))))"
proof (intro conjI impI)
  assume "length msg \<le> max_message_bytes (limits st)"
  then obtain k where k: "enqueue_at st r msg now = (Inr (), mark_dirty (st\<lparr>rs_inner := (rs_inner st)\<lparr>queues :=
       fmupd r (drop k (mailbox st r @ [\<lparr>enqueued_at = now, qm_bytes = msg\<rparr>])) (queues (rs_inner st))\<rparr>\<rparr>))"
    "mailbox_ok (limits st) (drop k (mailbox st r @ [\<lparr>enqueued_at = now, qm_bytes = msg\<rparr>]))"
    "\<forall>j<k. \<not> mailbox_ok (limits st) (drop j (mailbox st r @ [\<lparr>enqueued_at = now, qm_bytes = msg\<rparr>]))"
    using enqueue_small unfolding Let_def by blast
  show "let q = mailbox st r @ [\<lparr>enqueued_at = now, qm_bytes = msg\<rparr>]; (res, st') = enqueue_at st r msg now in
      res = Inr () \<and> dir_keys (rs_inner st') = dir_keys (rs_inner st) \<and>
      (\<forall>r'. r' \<noteq> r \<longrightarrow> mailbox st' r' = mailbox st r') \<and>
      (\<exists>k. mailbox st' r = drop k q \<and> mailbox_ok (limits st) (drop k q) \<and> (\<forall>j<k. \<not> mailbox_ok (limits st) (drop j q)))"
    using k(2,3) unfolding Let_def k(1) by (simp add: mailbox_def del: drop_append) blast
qed (rule enqueue_large)

theorem enqueue_drops_oldest_witness:
  "mailbox (snd (enqueue_at (snd (enqueue_at (store_with_limits \<lparr>mail_ttl_secs = 9, max_message_bytes = 4,
     max_mailbox_messages = 5, max_mailbox_bytes = 4\<rparr>) [1] [7, 7, 7] 0)) [1] [8, 8] 1)) [1] =
   [\<lparr>enqueued_at = 1, qm_bytes = [8, 8]\<rparr>]"
proof -
  let ?l = "\<lparr>mail_ttl_secs = 9, max_message_bytes = 4, max_mailbox_messages = 5, max_mailbox_bytes = 4\<rparr>"
  let ?st = "snd (enqueue_at (store_with_limits ?l) [1] [7, 7, 7] 0)"
  have st: "limits ?st = ?l" "mailbox ?st [1] = [\<lparr>enqueued_at = 0, qm_bytes = [7, 7, 7]\<rparr>]"
    by (simp_all add: enqueue_at_def store_with_limits_def inner_default_def Let_def mailbox_def
        drop_count.simps)
  obtain k where k: "mailbox (snd (enqueue_at ?st [1] [8, 8] 1)) [1] =
      drop k [\<lparr>enqueued_at = 0, qm_bytes = [7, 7, 7]\<rparr>, \<lparr>enqueued_at = 1, qm_bytes = [8, 8]\<rparr>]"
    "mailbox_ok ?l (drop k [\<lparr>enqueued_at = 0, qm_bytes = [7, 7, 7]\<rparr>, \<lparr>enqueued_at = 1, qm_bytes = [8, 8]\<rparr>])"
    "\<forall>j<k. \<not> mailbox_ok ?l (drop j [\<lparr>enqueued_at = 0, qm_bytes = [7, 7, 7]\<rparr>, \<lparr>enqueued_at = 1, qm_bytes = [8, 8]\<rparr>])"
    using enqueue_drops_oldest [where msg = "[8, 8]" and st = ?st and r = "[1]" and now = 1] by (auto simp: st Let_def split: prod.splits)
  have "k = 1"
  proof (rule ccontr)
    assume "k \<noteq> 1"
    then consider "k = 0" | "1 < k" by linarith
    then show False using k(2) k(3) [rule_format, of 1] by cases (simp_all add: mailbox_ok_def)
  qed
  then show ?thesis using k(1) by simp
qed

text \<open>
  C10: a mailbox is a queue with expiry. Messages queued for a mailbox within its caps come out of the next poll in the
  order they went in, each once, except those older than the mail lifetime; a second poll finds nothing, and other
  mailboxes keep their mail.
\<close>

theorem mailbox_fifo:
  assumes "\<forall>(m, t)\<in>set ms. length m \<le> max_message_bytes (limits st)" "mailbox st r = []"
    and "mailbox_ok (limits st) (map (\<lambda>(m, t). \<lparr>enqueued_at = t, qm_bytes = m\<rparr>) ms)"
  defines "st1 \<equiv> enqueue_all r ms st"
  shows "fst (poll_at st1 r now) = map fst (filter (\<lambda>(m, t). now - mail_ttl_secs (limits st) \<le> t) ms) \<and>
    fst (poll_at (snd (poll_at st1 r now)) r now') = [] \<and>
    (\<forall>r'. r' \<noteq> r \<longrightarrow> mailbox (snd (poll_at st1 r now)) r' = mailbox st1 r')"
proof -
  have st1: "mailbox st1 r = map (\<lambda>(m, t). \<lparr>enqueued_at = t, qm_bytes = m\<rparr>) ms" "limits st1 = limits st"
    using enqueue_all_mailbox [OF assms(1)] assms(2,3) by (simp_all add: st1_def)
  have "map qm_bytes (live_mail c (map (\<lambda>(m, t). \<lparr>enqueued_at = t, qm_bytes = m\<rparr>) ms)) =
      map fst (filter (\<lambda>(m, t). c \<le> t) ms)" for c
    by (induction ms) (auto simp: live_mail_def)
  then show ?thesis by (simp add: poll_eq st1) (simp add: live_mail_def)
qed

theorem mailbox_fifo_witness:
  "fst (poll_at (enqueue_all [1] [([7], 0), ([8], 100), ([9], 100)]
     (store_with_limits \<lparr>mail_ttl_secs = 50, max_message_bytes = 4, max_mailbox_messages = 5, max_mailbox_bytes = 99\<rparr>))
     [1] 120) = [[8], [9]]"
proof -
  let ?st = "store_with_limits \<lparr>mail_ttl_secs = 50, max_message_bytes = 4, max_mailbox_messages = 5, max_mailbox_bytes = 99\<rparr>"
  show ?thesis
    using mailbox_fifo [of "[([7], 0), ([8], 100), ([9], 100)]" ?st "[1]" 120]
    by (simp add: store_with_limits_def inner_default_def mailbox_def mailbox_ok_def)
qed

text \<open>
  The directory dispenses each one-time prekey once. After an account is published, the \<open>k\<close>-th fetch returns its base
  bundle with the \<open>k\<close>-th one-time prekey of the pool, and the bare base bundle once the pool is empty.
\<close>

lemma publish_dispenses_once:
  "fetch_many k (pb_identity_ed b) (publish st b otps) =
     map (\<lambda>j. Some (if j < length otps
        then b\<lparr>pb_one_time_prekey := Some (snd (otps ! j)), pb_one_time_prekey_id := Some (fst (otps ! j))\<rparr>
        else b\<lparr>pb_one_time_prekey := None, pb_one_time_prekey_id := None\<rparr>)) [0..<k]"
  using fetch_many_eq [of "publish st b otps" "pb_identity_ed b"
      "b\<lparr>pb_one_time_prekey := None, pb_one_time_prekey_id := None\<rparr>" otps k]
  by (simp add: publish_def Let_def)

text \<open>
  The file is replaced atomically only if its own extension is not \<open>tmp\<close>: a state file named \<open>relay.tmp\<close> is its own
  temporary file, and a write that fails half-way leaves the torn bytes in place of the last snapshot.
\<close>

lemma tmp_state_file_torn:
  assumes "with_extension_tmp (state_path p) = state_path p" "persistence_of st = Some p" "dirty p"
    "elapsed_secs now (last_flush p) \<ge> FLUSH_INTERVAL_SECS" "maybe_flush S (WriteFault k) now done_at st d = (r, st', d')"
  shows "fmlookup d' (state_path p) = Some (take k (ser S \<lparr>sn_version = SNAPSHOT_VERSION, sn_inner = rs_inner st\<rparr>))"
  using assms by (auto simp: maybe_flush_def Let_def)

lemma tmp_state_file_example: "with_extension_tmp ''state/relay.tmp'' = ''state/relay.tmp''"
  by code_simp



end
