(* ===== verification/Relay_Server.thy ===== *)
theory Relay_Server
  imports Relay_Store
begin

text \<open>
  The HTTP front end of \<^verbatim>\<open>relay/src/server.rs\<close> and the JSON types of \<^verbatim>\<open>relay/src/protocol.rs\<close>: request
  dispatch, the handlers, query parsing, the rate limiter and the request loop. \<open>base64\<close>, \<open>serde_json\<close> and the
  socket side of \<open>tiny_http\<close> are not in the repository: encoders and decoders are fields of \<open>web_codecs\<close>, a
  request is a record, a response a value. \<open>tiny_http\<close> hands on request lines in ASCII only, so a URL is a
  string whose characters are its bytes.
\<close>

definition MAX_BODY_BYTES :: nat where
  "MAX_BODY_BYTES = 4 * 1024 * 1024"

definition SWEEP_INTERVAL_SECS :: nat where
  "SWEEP_INTERVAL_SECS = 60 * 60"

record one_time_entry =
  ot_id :: u32
  ot_public :: string

record publish_request =
  pr_bundle :: string
  pr_one_time :: "one_time_entry list"

record bundle_response =
  br_bundle :: string

record send_request =
  sr_recipient :: string
  sr_message :: string

record poll_response =
  pl_messages :: "string list"

record web_codecs =
  wc_b64 :: "bytes \<Rightarrow> string"
  wc_unb64 :: "string \<Rightarrow> string + bytes"
  wc_bundle :: "prekey_bundle serde"
  wc_publish :: "publish_request serde"
  wc_send :: "send_request serde"
  wc_bundle_resp :: "bundle_response serde"
  wc_poll_resp :: "poll_response serde"

definition b64 :: "web_codecs \<Rightarrow> bytes \<Rightarrow> string" where
  "b64 W bs = wc_b64 W bs"

definition unb64 :: "web_codecs \<Rightarrow> string \<Rightarrow> string + bytes" where
  "unb64 W s = wc_unb64 W s"

definition unb64_key :: "web_codecs \<Rightarrow> string \<Rightarrow> string + bytes" where
  "unb64_key W s =
     (case unb64 W s of
        Inl e \<Rightarrow> Inl e
      | Inr bs \<Rightarrow> if length bs = 32 then Inr bs else Inl ''expected 32-byte key'')"

datatype http_method = Get | Post | OtherMethod

type_synonym ip_addr = u32

record http_request =
  rq_method :: http_method
  rq_url :: string
  rq_body :: bytes
  rq_remote :: "ip_addr option"

text \<open>The body of a response is the text of \<open>respond_text\<close> or the JSON of \<open>respond_json\<close>.\<close>

record http_response =
  rp_status :: nat
  rp_body :: bytes

record request_error =
  re_status :: nat
  re_message :: string

definition bad_request :: "string \<Rightarrow> request_error" where
  "bad_request m = \<lparr>re_status = 400, re_message = m\<rparr>"

text \<open>\<open>From<std::io::Error>\<close>: an error reading the body, or in its JSON, is the client's.\<close>

definition request_error_of_io :: "string \<Rightarrow> request_error" where
  "request_error_of_io e = \<lparr>re_status = 400, re_message = e\<rparr>"

definition respond_text :: "nat \<Rightarrow> string \<Rightarrow> http_response" where
  "respond_text status text = \<lparr>rp_status = status, rp_body = byte_lit text\<rparr>"

definition respond_error :: "request_error \<Rightarrow> http_response" where
  "respond_error e = respond_text (re_status e) (re_message e)"

definition respond_json :: "'a serde \<Rightarrow> nat \<Rightarrow> 'a \<Rightarrow> http_response" where
  "respond_json S status body = \<lparr>rp_status = status, rp_body = ser S body\<rparr>"

text \<open>\<open>String\<close> contents must be UTF-8: well-formed sequences, by their leading byte.\<close>

definition cont_byte :: "u8 \<Rightarrow> bool" where
  "cont_byte b \<longleftrightarrow> 0x80 \<le> b \<and> b \<le> 0xBF"

fun utf8_valid :: "bytes \<Rightarrow> bool" where
  "utf8_valid [] = True"
| "utf8_valid (a # bs) =
     (if a < 0x80 then utf8_valid bs
      else if 0xC2 \<le> a \<and> a \<le> 0xDF then
        (case bs of b # r \<Rightarrow> cont_byte b \<and> utf8_valid r | _ \<Rightarrow> False)
      else if 0xE0 \<le> a \<and> a \<le> 0xEF then
        (case bs of b # c # r \<Rightarrow> cont_byte b \<and> cont_byte c \<and> (a = 0xE0 \<longrightarrow> 0xA0 \<le> b) \<and>
             (a = 0xED \<longrightarrow> b \<le> 0x9F) \<and> utf8_valid r | _ \<Rightarrow> False)
      else if 0xF0 \<le> a \<and> a \<le> 0xF4 then
        (case bs of b # c # d # r \<Rightarrow> cont_byte b \<and> cont_byte c \<and> cont_byte d \<and> (a = 0xF0 \<longrightarrow> 0x90 \<le> b) \<and>
             (a = 0xF4 \<longrightarrow> b \<le> 0x8F) \<and> utf8_valid r | _ \<Rightarrow> False)
      else False)"

definition read_json :: "'a serde \<Rightarrow> http_request \<Rightarrow> string + 'a" where
  "read_json S rq =
     (let body = take MAX_BODY_BYTES (rq_body rq)
      in if \<not> utf8_valid body then Inl ''stream did not contain valid UTF-8'' else de S body)"

definition hex_val :: "char \<Rightarrow> nat option" where
  "hex_val c =
     (let n = of_char c in
      if 48 \<le> n \<and> n \<le> 57 then Some (n - 48)
      else if 97 \<le> n \<and> n \<le> 102 then Some (n - 87)
      else if 65 \<le> n \<and> n \<le> 70 then Some (n - 55)
      else None)"

text \<open>\<open>u8::from_str_radix(s, 16)\<close> on two characters; a leading plus sign is accepted.\<close>

definition from_str_radix2 :: "char \<Rightarrow> char \<Rightarrow> nat option" where
  "from_str_radix2 a b =
     (if a = CHR ''+'' then hex_val b
      else case (hex_val a, hex_val b) of (Some x, Some y) \<Rightarrow> Some (16 * x + y) | _ \<Rightarrow> None)"

fun url_decode :: "string \<Rightarrow> string" where
  "url_decode [] = []"
| "url_decode (c # cs) =
     (if c = CHR ''%'' \<and> 2 \<le> length cs then
        (case from_str_radix2 (cs ! 0) (cs ! 1) of
           Some byte \<Rightarrow> char_of byte # url_decode (drop 2 cs)
         | None \<Rightarrow> CHR ''%'' # url_decode cs)
      else if c = CHR ''+'' then CHR '' '' # url_decode cs
      else c # url_decode cs)"

text \<open>\<open>str::split\<close> on a character, and the first two parts of \<open>splitn(2, '=')\<close>.\<close>

fun split_char :: "char \<Rightarrow> string \<Rightarrow> string list" where
  "split_char d [] = [[]]"
| "split_char d (c # cs) =
     (if c = d then [] # split_char d cs
      else case split_char d cs of p # ps \<Rightarrow> (c # p) # ps | [] \<Rightarrow> [[c]])"

definition split_first :: "char \<Rightarrow> string \<Rightarrow> string \<times> string option" where
  "split_first d s =
     (case dropWhile (\<lambda>c. c \<noteq> d) s of
        [] \<Rightarrow> (s, None)
      | _ # rest \<Rightarrow> (takeWhile (\<lambda>c. c \<noteq> d) s, Some rest))"

primrec find_param :: "string \<Rightarrow> string list \<Rightarrow> string option" where
  "find_param key [] = None"
| "find_param key (pair # ps) =
     (let (k, v) = split_first CHR ''='' pair
      in if k = key then Some (url_decode (case v of Some raw \<Rightarrow> raw | None \<Rightarrow> []))
         else find_param key ps)"

definition query_param :: "string \<Rightarrow> string \<Rightarrow> string option" where
  "query_param query key = find_param key (split_char CHR ''&'' query)"

primrec decode_one_time :: "web_codecs \<Rightarrow> one_time_entry list \<Rightarrow> string + (u32 \<times> bytes) list" where
  "decode_one_time W [] = Inr []"
| "decode_one_time W (otp # otps) =
     (case unb64_key W (ot_public otp) of
        Inl e \<Rightarrow> Inl e
      | Inr key \<Rightarrow> (case decode_one_time W otps of Inl e \<Rightarrow> Inl e | Inr ks \<Rightarrow> Inr ((ot_id otp, key) # ks)))"

definition show_error :: "error \<Rightarrow> string" where
  "show_error e = (case e of
      BadSignature \<Rightarrow> ''signature verification failed'' | MalformedKey \<Rightarrow> ''malformed key or ciphertext''
    | Decrypt \<Rightarrow> ''decryption failed'' | UnknownPrekey \<Rightarrow> ''unknown prekey id''
    | Wire m \<Rightarrow> ''wire encoding error: '' @ m | UnexpectedMessage \<Rightarrow> ''unexpected message for session state'')"

definition handle_publish :: "web_codecs \<Rightarrow> relay_store \<Rightarrow> http_request \<Rightarrow> (request_error + unit) \<times> relay_store" where
  "handle_publish W st rq =
     (case read_json (wc_publish W) rq of
        Inl e \<Rightarrow> (Inl (request_error_of_io e), st)
      | Inr req \<Rightarrow>
          (case unb64 W (pr_bundle req) of
             Inl e \<Rightarrow> (Inl (bad_request e), st)
           | Inr bundle_bytes \<Rightarrow>
               (case bundle_decode (wc_bundle W) bundle_bytes of
                  Inl e \<Rightarrow> (Inl (bad_request (show_error e)), st)
                | Inr bundle \<Rightarrow>
                    (case decode_one_time W (pr_one_time req) of
                       Inl e \<Rightarrow> (Inl (bad_request e), st)
                     | Inr otps \<Rightarrow> (Inr (), publish st bundle otps)))))"

definition key_param :: "web_codecs \<Rightarrow> string \<Rightarrow> string \<Rightarrow> bytes option" where
  "key_param W query key =
     (case query_param query key of
        None \<Rightarrow> None
      | Some s \<Rightarrow> (case unb64_key W s of Inl _ \<Rightarrow> None | Inr k \<Rightarrow> Some k))"

definition handle_bundle :: "web_codecs \<Rightarrow> relay_store \<Rightarrow> string \<Rightarrow> http_response \<times> relay_store" where
  "handle_bundle W st query =
     (case key_param W query ''identity'' of
        None \<Rightarrow> (respond_text 400 ''missing identity'', st)
      | Some identity \<Rightarrow>
          (case fetch_bundle st identity of
             (Some bundle, st') \<Rightarrow>
               (respond_json (wc_bundle_resp W) 200 \<lparr>br_bundle = b64 W (bundle_encode (wc_bundle W) bundle)\<rparr>, st')
           | (None, st') \<Rightarrow> (respond_text 404 ''unknown identity'', st')))"

definition handle_send :: "web_codecs \<Rightarrow> relay_store \<Rightarrow> nat \<Rightarrow> http_request \<Rightarrow> (request_error + unit) \<times> relay_store" where
  "handle_send W st now rq =
     (case read_json (wc_send W) rq of
        Inl e \<Rightarrow> (Inl (request_error_of_io e), st)
      | Inr req \<Rightarrow>
          (case unb64_key W (sr_recipient req) of
             Inl e \<Rightarrow> (Inl (bad_request e), st)
           | Inr rcpt \<Rightarrow>
               (case unb64 W (sr_message req) of
                  Inl e \<Rightarrow> (Inl (bad_request e), st)
                | Inr msg \<Rightarrow>
                    (case enqueue_at st rcpt msg now of
                       (Inl MessageTooLarge, st') \<Rightarrow>
                         (Inl \<lparr>re_status = 413, re_message = ''message too large''\<rparr>, st')
                     | (Inr _, st') \<Rightarrow> (Inr (), st')))))"

definition handle_poll :: "web_codecs \<Rightarrow> relay_store \<Rightarrow> nat \<Rightarrow> string \<Rightarrow> http_response \<times> relay_store" where
  "handle_poll W st now query =
     (case key_param W query ''recipient'' of
        None \<Rightarrow> (respond_text 400 ''missing recipient'', st)
      | Some rcpt \<Rightarrow>
          (let (msgs, st') = poll_at st rcpt now
           in (respond_json (wc_poll_resp W) 200 \<lparr>pl_messages = map (b64 W) msgs\<rparr>, st')))"

definition handle :: "web_codecs \<Rightarrow> relay_store \<Rightarrow> nat \<Rightarrow> http_request \<Rightarrow> http_response \<times> relay_store" where
  "handle W st now rq =
     (let (path, q) = split_first CHR ''?'' (rq_url rq);
          query = (case q of Some s \<Rightarrow> s | None \<Rightarrow> []);
          meth = rq_method rq
      in if meth = Get \<and> path = ''/health'' then (respond_text 200 ''ok'', st)
         else if meth = Post \<and> path = ''/publish'' then
           (case handle_publish W st rq of
              (Inr _, st') \<Rightarrow> (respond_text 200 ''ok'', st') | (Inl e, st') \<Rightarrow> (respond_error e, st'))
         else if meth = Get \<and> path = ''/bundle'' then handle_bundle W st query
         else if meth = Post \<and> path = ''/send'' then
           (case handle_send W st now rq of
              (Inr _, st') \<Rightarrow> (respond_text 200 ''ok'', st') | (Inl e, st') \<Rightarrow> (respond_error e, st'))
         else if meth = Get \<and> path = ''/poll'' then handle_poll W st now query
         else (respond_text 404 ''not found'', st))"

text \<open>The fixed-window rate limiter; the clock is the instant of the call.\<close>

record rate_limiter =
  rl_limit :: u32
  windows :: "(ip_addr, nat \<times> u32) fmap"
  started :: int

definition limiter_new :: "int \<Rightarrow> u32 \<Rightarrow> rate_limiter" where
  "limiter_new now l = \<lparr>rl_limit = l, windows = fmempty, started = now\<rparr>"

definition allow :: "rate_limiter \<Rightarrow> int \<Rightarrow> ip_addr \<Rightarrow> bool \<times> rate_limiter" where
  "allow rl now ip =
     (let minute = elapsed_secs now (started rl) div 60;
          ws = (if fm_len (windows rl) > 10000
                then fmfilter (\<lambda>k. map_option fst (fmlookup (windows rl) k) = Some minute) (windows rl)
                else windows rl);
          entry = (case fmlookup ws ip of Some e \<Rightarrow> e | None \<Rightarrow> (minute, 0));
          entry' = (if fst entry \<noteq> minute then (minute, 0) else entry);
          count = snd entry' + 1
      in (count \<le> rl_limit rl, rl\<lparr>windows := fmupd ip (fst entry', count) ws\<rparr>))"

text \<open>
  One round of the request loop. The clock readings are: the instant of the limiter and of the sweep check, the unix
  times of the handler and the sweep, the instants around the flush.
\<close>

record clock =
  ck_limit :: int
  ck_unix :: nat
  ck_sweep :: int
  ck_sweep_unix :: nat
  ck_sweep_done :: int
  ck_flush :: int
  ck_flush_done :: int

record server =
  sv_limiter :: "rate_limiter option"
  sv_last_sweep :: int
  sv_store :: relay_store
  sv_disk :: disk

definition after_request :: "snapshot serde \<Rightarrow> io_fault \<Rightarrow> clock \<Rightarrow> server \<Rightarrow> server" where
  "after_request S fault ck sv =
     (let sv1 = (if elapsed_secs (ck_sweep ck) (sv_last_sweep sv) \<ge> SWEEP_INTERVAL_SECS
                 then sv\<lparr>sv_store := snd (sweep_expired_at (sv_store sv) (ck_sweep_unix ck)),
                         sv_last_sweep := ck_sweep_done ck\<rparr>
                 else sv);
          (_, st', d') = maybe_flush S fault (ck_flush ck) (ck_flush_done ck) (sv_store sv1) (sv_disk sv1)
      in sv1\<lparr>sv_store := st', sv_disk := d'\<rparr>)"

definition serve_request :: "web_codecs \<Rightarrow> snapshot serde \<Rightarrow> io_fault \<Rightarrow> clock \<Rightarrow> server \<Rightarrow> http_request
    \<Rightarrow> http_response \<times> server" where
  "serve_request W S fault ck sv rq =
     (let (ok, sv1) = (case (sv_limiter sv, rq_remote rq) of
            (Some rl, Some ip) \<Rightarrow> (let (a, rl') = allow rl (ck_limit ck) ip in (a, sv\<lparr>sv_limiter := Some rl'\<rparr>))
          | _ \<Rightarrow> (True, sv))
      in if \<not> ok then (respond_text 429 ''rate limited'', sv1)
         else let (rp, st') = handle W (sv_store sv1) (ck_unix ck) rq
              in (rp, after_request S fault ck (sv1\<lparr>sv_store := st'\<rparr>)))"

text \<open>
  The reference encoding of a query value (\<open>application/x-www-form-urlencoded\<close>): letters, digits and
  \<open>* - . _\<close> stand for themselves, a space becomes a plus sign, any other byte a percent triple.
\<close>

definition hex_digit :: "nat \<Rightarrow> char" where
  "hex_digit d = char_of (if d < 10 then 48 + d else 55 + d)"

definition plain_char :: "char \<Rightarrow> bool" where
  "plain_char c \<longleftrightarrow> (let n = of_char c :: nat in
     (48 \<le> n \<and> n \<le> 57) \<or> (65 \<le> n \<and> n \<le> 90) \<or> (97 \<le> n \<and> n \<le> 122) \<or> n \<in> {42, 45, 46, 95})"

definition percent_char :: "char \<Rightarrow> string" where
  "percent_char c =
     (if plain_char c then [c] else if c = CHR '' '' then [CHR ''+'']
      else [CHR ''%'', hex_digit (of_char c div 16), hex_digit (of_char c mod 16)])"

definition percent_encode :: "string \<Rightarrow> string" where
  "percent_encode s = concat (map percent_char s)"

text \<open>Which of a sequence of calls by one address within one minute the limiter lets through.\<close>

primrec allow_run :: "rate_limiter \<Rightarrow> (int \<times> ip_addr) list \<Rightarrow> bool list" where
  "allow_run rl [] = []"
| "allow_run rl (c # cs) = (let (a, rl') = allow rl (fst c) (snd c) in a # allow_run rl' cs)"

definition minute_of :: "int \<Rightarrow> int \<Rightarrow> nat" where
  "minute_of t0 t = elapsed_secs t t0 div 60"

text \<open>The calls by \<open>ip\<close> in minute \<open>m\<close>.\<close>

definition calls_in :: "int \<Rightarrow> ip_addr \<Rightarrow> nat \<Rightarrow> (int \<times> ip_addr) list \<Rightarrow> nat" where
  "calls_in t0 ip m cs = length (filter (\<lambda>c. snd c = ip \<and> minute_of t0 (fst c) = m) cs)"

text \<open>The limiter's table counts the calls made so far, for every minute from \<open>now\<close> on.\<close>

definition limiter_counts :: "rate_limiter \<Rightarrow> nat \<Rightarrow> (int \<times> ip_addr) list \<Rightarrow> bool" where
  "limiter_counts rl now past \<longleftrightarrow>
     (\<forall>ip. case fmlookup (windows rl) ip of
        None \<Rightarrow> (\<forall>m\<ge>now. calls_in (started rl) ip m past = 0)
      | Some (w, c) \<Rightarrow> w \<le> now \<and>
          (\<forall>m\<ge>now. calls_in (started rl) ip m past = (if m = w then unat c else 0)))"

text \<open>
  What the relay relies on of \<open>base64\<close> and \<open>serde_json\<close>: decoding undoes encoding, and the JSON text of a
  request is UTF-8.
\<close>

definition web_ok :: "web_codecs \<Rightarrow> bool" where
  "web_ok W \<longleftrightarrow> (\<forall>bs. wc_unb64 W (wc_b64 W bs) = Inr bs) \<and> serde_ok (wc_bundle W) \<and>
     serde_ok (wc_publish W) \<and> serde_ok (wc_send W) \<and> serde_ok (wc_bundle_resp W) \<and> serde_ok (wc_poll_resp W) \<and>
     (\<forall>x. utf8_valid (ser (wc_publish W) x)) \<and> (\<forall>x. utf8_valid (ser (wc_send W) x))"

text \<open>A concrete instance: text formats that write every byte as two letters.\<close>

definition nibbles :: "bytes \<Rightarrow> bytes" where
  "nibbles bs = concat (map (\<lambda>b. [65 + b div 16, 65 + b mod 16]) bs)"

fun unnibbles :: "bytes \<Rightarrow> bytes" where
  "unnibbles (a # b # r) = (16 * (a - 65) + (b - 65)) # unnibbles r"
| "unnibbles r = []"

definition text_serde :: "'a fmt \<Rightarrow> 'a serde" where
  "text_serde F = \<lparr>ser = (\<lambda>x. nibbles (put F x)), de = (\<lambda>bs. de (serde_of F) (unnibbles bs))\<rparr>"

definition fmt_string :: "string fmt" where
  "fmt_string = fmt_via (map (\<lambda>c. word_of_nat (of_char c))) (map (\<lambda>b. char_of (unat b))) fmt_bytes"

definition demo_web :: web_codecs where
  "demo_web = \<lparr>
     wc_b64 = (\<lambda>bs. map (\<lambda>b. char_of (unat b)) bs),
     wc_unb64 = (\<lambda>s. Inr (map (\<lambda>c. word_of_nat (of_char c)) s)),
     wc_bundle = serde_of prekey_bundle_fmt,
     wc_publish = text_serde (fmt_via (\<lambda>r. (pr_bundle r, map (\<lambda>e. (ot_id e, ot_public e)) (pr_one_time r)))
       (\<lambda>(a, b). \<lparr>pr_bundle = a, pr_one_time = map (\<lambda>(i, p). \<lparr>ot_id = i, ot_public = p\<rparr>) b\<rparr>)
       (fmt_pair fmt_string (fmt_list (fmt_pair fmt_u32 fmt_string)))),
     wc_send = text_serde (fmt_via (\<lambda>r. (sr_recipient r, sr_message r))
       (\<lambda>(a, b). \<lparr>sr_recipient = a, sr_message = b\<rparr>) (fmt_pair fmt_string fmt_string)),
     wc_bundle_resp = text_serde (fmt_via br_bundle (\<lambda>a. \<lparr>br_bundle = a\<rparr>) fmt_string),
     wc_poll_resp = text_serde (fmt_via pl_messages (\<lambda>a. \<lparr>pl_messages = a\<rparr>) (fmt_list fmt_string))\<rparr>"

section \<open>The concrete codecs\<close>

lemma unnibbles_nibbles: "unnibbles (nibbles bs) = bs"
proof (induction bs)
  case (Cons b bs)
  have "16 * (b div 16) + b mod 16 = b" by (rule mult_div_mod_eq)
  then show ?case using Cons by (simp add: nibbles_def)
qed (simp add: nibbles_def)

lemma utf8_ascii: "\<forall>b\<in>set bs. b < 0x80 \<Longrightarrow> utf8_valid bs"
  by (induction bs) auto

lemma utf8_nibbles: "utf8_valid (nibbles bs)"
proof (rule utf8_ascii, rule ballI)
  fix x
  assume "x \<in> set (nibbles bs)"
  then obtain b where "x = 65 + b div 16 \<or> x = 65 + b mod 16" by (auto simp: nibbles_def)
  moreover have "unat (b div 16) < 16" "unat (b mod 16) < 16"
    using unsigned_less [where 'a = nat, of b] by (simp_all add: unat_div unat_mod div_less_iff_less_mult)
  ultimately show "x < 0x80" by (auto simp: word_less_nat_alt unat_word_ariths)
qed

lemma text_serde_ok: "fmt_ok F \<Longrightarrow> serde_ok (text_serde F)"
  using serde_of_ok [of F] by (simp add: serde_ok_def text_serde_def unnibbles_nibbles) (simp add: serde_of_def)

lemma char_byte: "char_of (unat (word_of_nat (of_char c) :: u8)) = c"
proof -
  have "unat (word_of_nat (of_char c) :: u8) = of_char c mod 256" by (rule unat_byte_of_nat)
  also have "\<dots> = of_char c" by (simp add: of_char_mod_256)
  finally show ?thesis by simp
qed

lemma byte_char: "word_of_nat (of_char (char_of (unat (b :: u8)) :: char)) = b"
  using unsigned_less [where 'a = nat, of b] by (simp add: of_char_of)

lemma fmt_string_ok [fmt_laws]: "fmt_ok fmt_string"
  unfolding fmt_string_def by (intro fmt_laws) (simp add: o_def char_byte)

lemma fmt_size_text [fmt_size]:
  "length (put fmt_string s) = 2 * length s + 1" "length (ser (text_serde F) x) = 2 * length (put F x)"
  by (simp_all add: fmt_string_def text_serde_def nibbles_def length_concat o_def sum_list_triv fmt_size)

lemma demo_b64_length [fmt_size]: "length (b64 demo_web bs) = length bs"
  by (simp add: b64_def demo_web_def)

lemma prekey_bundle_fmt_ok: "fmt_ok prekey_bundle_fmt"
  unfolding prekey_bundle_fmt_def by (intro fmt_laws) simp

lemma demo_web_ok: "web_ok demo_web"
proof -
  have "serde_ok (wc_bundle demo_web)"
    unfolding demo_web_def by (simp add: serde_of_ok prekey_bundle_fmt_ok)
  moreover have entry: "(\<lambda>e. \<lparr>ot_id = ot_id e, ot_public = ot_public e\<rparr>) = (\<lambda>e. e)" by (rule ext) simp
  have "serde_ok (wc_publish demo_web)"
    unfolding demo_web_def web_codecs.simps by (intro text_serde_ok fmt_laws) (simp add: o_def entry)
  moreover have "serde_ok (wc_send demo_web)" "serde_ok (wc_bundle_resp demo_web)" "serde_ok (wc_poll_resp demo_web)"
    unfolding demo_web_def web_codecs.simps by (intro text_serde_ok fmt_laws; simp)+
  moreover have "wc_unb64 demo_web (wc_b64 demo_web bs) = Inr bs" for bs
    by (simp add: demo_web_def o_def byte_char del: of_char_of)
  moreover have "utf8_valid (ser (wc_publish demo_web) x)" "utf8_valid (ser (wc_send demo_web) y)" for x y
    by (simp_all add: demo_web_def text_serde_def utf8_nibbles)
  ultimately show ?thesis by (simp add: web_ok_def)
qed

section \<open>Query values\<close>

lemma hex_val_digit: "d < 16 \<Longrightarrow> hex_val (hex_digit d) = Some d"
  by (auto simp: hex_val_def hex_digit_def Let_def)

lemma hex_digit_not_plus: "d < 16 \<Longrightarrow> hex_digit d \<noteq> CHR ''+''"
  using hex_val_digit [of d] by (auto simp: hex_val_def Let_def)

lemma hex_digit_plain: "d < 16 \<Longrightarrow> plain_char (hex_digit d)"
  by (auto simp: hex_digit_def plain_char_def Let_def)

lemma plain_not_special: "plain_char c \<Longrightarrow> c \<notin> {CHR ''%'', CHR ''+'', CHR ''&'', CHR ''='', CHR '' ''}"
  by (auto simp: plain_char_def Let_def)

lemma of_char_less_256: "(of_char c :: nat) < 256"
proof -
  have "(of_char c :: nat) = of_char (char_of (of_char c :: nat) :: char)" by simp
  also have "\<dots> = of_char c mod 256" by (rule of_char_of)
  finally show ?thesis by simp
qed

lemma url_decode_percent_char: "url_decode (percent_char c @ rest) = c # url_decode rest"
proof (cases "plain_char c \<or> c = CHR '' ''")
  case True
  then show ?thesis using plain_not_special [of c] by (auto simp: percent_char_def)
next
  case False
  let ?n = "of_char c :: nat"
  have d: "?n div 16 < 16" "?n mod 16 < 16"
    using of_char_less_256 [of c] by (simp_all add: div_less_iff_less_mult)
  have "from_str_radix2 (hex_digit (?n div 16)) (hex_digit (?n mod 16)) = Some ?n"
    using d by (simp add: from_str_radix2_def hex_val_digit hex_digit_not_plus)
  then show ?thesis using False by (simp add: percent_char_def)
qed

lemma url_decode_percent: "url_decode (percent_encode s @ rest) = s @ url_decode rest"
  by (induction s) (simp_all add: percent_encode_def url_decode_percent_char)

lemma percent_char_no_amp: "CHR ''&'' \<notin> set (percent_char c)"
proof -
  have d: "of_char c div 16 < (16 :: nat)" "of_char c mod 16 < (16 :: nat)"
    using of_char_less_256 [of c] by (simp_all add: div_less_iff_less_mult)
  show ?thesis
    using plain_not_special [of c] plain_not_special [OF hex_digit_plain [OF d(1)]]
      plain_not_special [OF hex_digit_plain [OF d(2)]]
    by (auto simp: percent_char_def)
qed

lemma percent_encode_no_amp: "CHR ''&'' \<notin> set (percent_encode s)"
  using percent_char_no_amp by (auto simp: percent_encode_def)

lemma split_char_single: "d \<notin> set s \<Longrightarrow> split_char d s = [s]"
  by (induction s) auto

lemma split_first_eq: "d \<notin> set k \<Longrightarrow> split_first d (k @ d # v) = (k, Some v)"
proof -
  assume "d \<notin> set k"
  then have "takeWhile (\<lambda>c. c \<noteq> d) (k @ d # v) = k" "dropWhile (\<lambda>c. c \<noteq> d) (k @ d # v) = d # v"
    by (induction k) auto
  then show ?thesis by (simp add: split_first_def)
qed

lemma split_first_none: "d \<notin> set k \<Longrightarrow> split_first d k = (k, None)"
proof -
  assume "d \<notin> set k"
  then have none: "dropWhile (\<lambda>c. c \<noteq> d) k = []" by (induction k) auto
  show ?thesis unfolding split_first_def none by simp
qed

lemma query_param_encoded:
  assumes "set key \<inter> {CHR ''&'', CHR ''=''} = {}"
  shows "query_param (key @ CHR ''='' # percent_encode v) key = Some v"
proof -
  have "split_char CHR ''&'' (key @ CHR ''='' # percent_encode v) = [key @ CHR ''='' # percent_encode v]"
    using assms percent_encode_no_amp [of v] by (intro split_char_single) auto
  moreover have "split_first CHR ''='' (key @ CHR ''='' # percent_encode v) = (key, Some (percent_encode v))"
    using assms by (intro split_first_eq) auto
  ultimately show ?thesis using url_decode_percent [of v "[]"] by (simp add: query_param_def)
qed

section \<open>The rate limiter\<close>

lemma calls_in_snoc:
  "calls_in t0 ip m (cs @ [c]) = calls_in t0 ip m cs + (if snd c = ip \<and> minute_of t0 (fst c) = m then 1 else 0)"
  by (simp add: calls_in_def)

lemma calls_in_le: "calls_in t0 ip m cs \<le> length cs"
  by (simp add: calls_in_def)

lemma limiter_countsD:
  assumes "limiter_counts rl n past" "n \<le> m"
  shows "fmlookup (windows rl) ip = None \<Longrightarrow> calls_in (started rl) ip m past = 0"
    "fmlookup (windows rl) ip = Some (w, c) \<Longrightarrow> calls_in (started rl) ip m past = (if m = w then unat c else 0)"
    "fmlookup (windows rl) ip = Some (w, c) \<Longrightarrow> w \<le> n"
  using assms(1) [unfolded limiter_counts_def, rule_format, of ip] assms(2) by auto

lemma limiter_countsI:
  assumes "\<And>ip m. fmlookup (windows rl) ip = None \<Longrightarrow> n \<le> m \<Longrightarrow> calls_in (started rl) ip m past = 0"
    and "\<And>ip w c. fmlookup (windows rl) ip = Some (w, c) \<Longrightarrow> w \<le> n"
    and "\<And>ip w c m. fmlookup (windows rl) ip = Some (w, c) \<Longrightarrow> n \<le> m \<Longrightarrow>
      calls_in (started rl) ip m past = (if m = w then unat c else 0)"
  shows "limiter_counts rl n past"
  unfolding limiter_counts_def
proof
  fix ip
  show "case fmlookup (windows rl) ip of None \<Rightarrow> \<forall>m\<ge>n. calls_in (started rl) ip m past = 0
    | Some (w, c) \<Rightarrow> w \<le> n \<and> (\<forall>m\<ge>n. calls_in (started rl) ip m past = (if m = w then unat c else 0))"
    using assms by (cases "fmlookup (windows rl) ip") auto
qed

text \<open>The table, purged or not, still counts every minute from the present one on.\<close>

lemma purge_counts:
  assumes I: "limiter_counts rl n past" and m: "n \<le> m"
    and ws: "ws = fmfilter (\<lambda>k. map_option fst (fmlookup (windows rl) k) = Some m) (windows rl) \<or> ws = windows rl"
  shows "limiter_counts (rl\<lparr>windows := ws\<rparr>) m past"
proof (rule limiter_countsI)
  fix ip k
  assume "fmlookup (windows (rl\<lparr>windows := ws\<rparr>)) ip = None" "m \<le> k"
  then show "calls_in (started (rl\<lparr>windows := ws\<rparr>)) ip k past = 0"
    using limiter_countsD [OF I, of k ip] m ws
    by (cases "fmlookup (windows rl) ip") (auto split: if_splits dest: limiter_countsD(3) [OF I order_refl])
next
  fix ip w c k
  assume "fmlookup (windows (rl\<lparr>windows := ws\<rparr>)) ip = Some (w, c)"
  then have L: "fmlookup (windows rl) ip = Some (w, c)" using ws by (auto split: if_splits)
  show "w \<le> m" using limiter_countsD(3) [OF I order_refl L] m by simp
  assume "m \<le> k"
  then show "calls_in (started (rl\<lparr>windows := ws\<rparr>)) ip k past = (if k = w then unat c else 0)"
    using limiter_countsD(2) [OF I _ L, of k] m by simp
qed

lemma allow_counts:
  assumes I: "limiter_counts rl n past" and t: "n \<le> minute_of (started rl) t" and room: "length past + 1 < 2 ^ 32"
  shows "fst (allow rl t ip) \<longleftrightarrow> calls_in (started rl) ip (minute_of (started rl) t) (past @ [(t, ip)]) \<le> unat (rl_limit rl)"
    "limiter_counts (snd (allow rl t ip)) (minute_of (started rl) t) (past @ [(t, ip)])"
    "started (snd (allow rl t ip)) = started rl" "rl_limit (snd (allow rl t ip)) = rl_limit rl"
proof -
  let ?m = "minute_of (started rl) t"
  define ws where "ws = (if fm_len (windows rl) > 10000
      then fmfilter (\<lambda>k. map_option fst (fmlookup (windows rl) k) = Some ?m) (windows rl) else windows rl)"
  have W: "limiter_counts (rl\<lparr>windows := ws\<rparr>) ?m past"
    by (rule purge_counts [OF I t]) (simp add: ws_def)
  note D = limiter_countsD [OF W, simplified]
  define e where "e = (case fmlookup ws ip of Some e \<Rightarrow> e | None \<Rightarrow> (?m, 0))"
  define c where "c = snd (if fst e \<noteq> ?m then (?m, 0) else e)"
  have A: "allow rl t ip = (c + 1 \<le> rl_limit rl, rl\<lparr>windows := fmupd ip (?m, c + 1) ws\<rparr>)"
    unfolding allow_def Let_def minute_of_def [symmetric] ws_def [symmetric] e_def [symmetric] c_def by simp
  have c: "unat c = calls_in (started rl) ip ?m past"
    using D(1) [OF order_refl, of ip] D(2) [OF order_refl, of ip]
    by (cases "fmlookup ws ip") (auto simp: c_def e_def)
  then have c1: "unat (c + 1) = Suc (calls_in (started rl) ip ?m past)"
    using calls_in_le [of "started rl" ip ?m past] room by (simp add: unat_word_ariths)
  then show "fst (allow rl t ip) \<longleftrightarrow> calls_in (started rl) ip ?m (past @ [(t, ip)]) \<le> unat (rl_limit rl)"
    by (simp add: A calls_in_snoc word_le_nat_alt)
  show "started (snd (allow rl t ip)) = started rl" "rl_limit (snd (allow rl t ip)) = rl_limit rl"
    by (simp_all add: A)
  have old: "calls_in (started rl) ip m past = 0" if "m \<noteq> ?m" "?m \<le> m" for m
    using D(1) [of m ip] D(2) [of m ip] D(3) [OF order_refl, of ip] that by (cases "fmlookup ws ip") auto
  show "limiter_counts (snd (allow rl t ip)) ?m (past @ [(t, ip)])"
  proof (rule limiter_countsI)
    fix ip' m
    assume "fmlookup (windows (snd (allow rl t ip))) ip' = None" "?m \<le> m"
    then show "calls_in (started (snd (allow rl t ip))) ip' m (past @ [(t, ip)]) = 0"
      using D(1) [of m ip'] by (auto simp: A calls_in_snoc split: if_splits)
  next
    fix ip' w k m
    assume L: "fmlookup (windows (snd (allow rl t ip))) ip' = Some (w, k)"
    then show "w \<le> ?m" using D(3) [OF order_refl, of ip'] by (auto simp: A split: if_splits)
    assume "?m \<le> m"
    then show "calls_in (started (snd (allow rl t ip))) ip' m (past @ [(t, ip)]) = (if m = w then unat k else 0)"
      using L D(2) [of m ip' w k] c1 old [of m] by (auto simp: A calls_in_snoc split: if_splits)
  qed
qed

lemma allow_run_counts:
  assumes "limiter_counts rl n past" "sorted (n # map (\<lambda>c. minute_of (started rl) (fst c)) cs)"
    and "length past + length cs < 2 ^ 32" "j < length cs"
  shows "allow_run rl cs ! j \<longleftrightarrow>
    calls_in (started rl) (snd (cs ! j)) (minute_of (started rl) (fst (cs ! j))) (past @ take (Suc j) cs) \<le> unat (rl_limit rl)"
  using assms
proof (induction cs arbitrary: rl n past j)
  case Nil
  then show ?case by simp
next
  case (Cons c cs)
  obtain t ip where c: "c = (t, ip)" by fastforce
  obtain a rl' where A: "allow rl t ip = (a, rl')" by fastforce
  have m: "n \<le> minute_of (started rl) t" using Cons.prems(2) by (simp add: c)
  have room: "length past + 1 < 2 ^ 32" using Cons.prems(3) by simp
  note S = allow_counts [OF Cons.prems(1) m room, of ip, unfolded A, simplified]
  show ?case
  proof (cases j)
    case 0
    then show ?thesis using S(1) by (simp add: c A)
  next
    case (Suc i)
    have "allow_run rl' cs ! i \<longleftrightarrow> calls_in (started rl') (snd (cs ! i)) (minute_of (started rl') (fst (cs ! i)))
        ((past @ [(t, ip)]) @ take (Suc i) cs) \<le> unat (rl_limit rl')"
      using Cons.prems(2-4) Suc S(3) by (intro Cons.IH [OF S(2)]) (simp_all add: c)
    then show ?thesis using S(3,4) by (simp add: c A Suc)
  qed
qed

lemma limiter_new_counts: "limiter_counts (limiter_new t0 l) 0 []"
  by (simp add: limiter_counts_def limiter_new_def calls_in_def)

section \<open>Handlers\<close>

lemma handle_publish_error: "handle_publish W st rq = (Inl e, st') \<Longrightarrow> st' = st \<and> re_status e \<in> {400, 413}"
  by (auto simp: handle_publish_def bad_request_def request_error_of_io_def split: sum.splits)

lemma handle_send_error: "handle_send W st now rq = (Inl e, st') \<Longrightarrow> st' = st \<and> re_status e \<in> {400, 413}"
  by (auto simp: handle_send_def bad_request_def request_error_of_io_def enqueue_at_def Let_def split: sum.splits if_splits store_error.splits)

lemma handle_bundle_error:
  "handle_bundle W st query = (rp, st') \<Longrightarrow> rp_status rp \<in> {200, 400, 404} \<and> (rp_status rp \<noteq> 200 \<longrightarrow> st' = st)"
  by (auto simp: handle_bundle_def respond_json_def respond_text_def fetch_bundle_def Let_def split: option.splits list.splits)

lemma handle_poll_error:
  "handle_poll W st now query = (rp, st') \<Longrightarrow> rp_status rp \<in> {200, 400} \<and> (rp_status rp \<noteq> 200 \<longrightarrow> st' = st)"
  by (auto simp: handle_poll_def respond_json_def respond_text_def split: option.splits prod.splits)

lemma handle_status:
  assumes "handle W st now rq = (rp, st')"
  shows "rp_status rp \<in> {200, 400, 404, 413} \<and> (rp_status rp \<noteq> 200 \<longrightarrow> st' = st)"
proof -
  obtain path q where u: "split_first CHR ''?'' (rq_url rq) = (path, q)" by fastforce
  define query where "query = (case q of Some s \<Rightarrow> s | None \<Rightarrow> [])"
  have H: "(rp, st') = (if rq_method rq = Get \<and> path = ''/health'' then (respond_text 200 ''ok'', st)
         else if rq_method rq = Post \<and> path = ''/publish'' then
           (case handle_publish W st rq of
              (Inr _, st') \<Rightarrow> (respond_text 200 ''ok'', st') | (Inl e, st') \<Rightarrow> (respond_error e, st'))
         else if rq_method rq = Get \<and> path = ''/bundle'' then handle_bundle W st query
         else if rq_method rq = Post \<and> path = ''/send'' then
           (case handle_send W st now rq of
              (Inr _, st') \<Rightarrow> (respond_text 200 ''ok'', st') | (Inl e, st') \<Rightarrow> (respond_error e, st'))
         else if rq_method rq = Get \<and> path = ''/poll'' then handle_poll W st now query
         else (respond_text 404 ''not found'', st))"
    using assms unfolding handle_def u query_def Let_def by simp
  obtain r1 s1 where P: "handle_publish W st rq = (r1, s1)" by fastforce
  obtain r2 s2 where Q: "handle_send W st now rq = (r2, s2)" by fastforce
  obtain r3 s3 where R: "handle_bundle W st query = (r3, s3)" by fastforce
  obtain r4 s4 where T: "handle_poll W st now query = (r4, s4)" by fastforce
  show ?thesis
    using H handle_publish_error [of W st rq] handle_send_error [of W st now rq] handle_bundle_error [OF R]
      handle_poll_error [OF T]
    unfolding P Q R T
    by (cases r1; cases r2) (auto simp: respond_text_def respond_error_def split: if_splits)
qed

section \<open>Properties\<close>

text \<open>
  C32: a request that is not answered with 200 changes nothing. Unknown paths and methods (404), malformed bodies, keys
  or parameters (400), oversized messages (413) and unknown identities (404) leave directory, mailboxes and the dirty
  flag exactly as they were; so does a rate-limited request (429), which does not reach the handlers at all.
\<close>

theorem failed_request_changes_nothing:
  "(rp_status (fst (handle W st now rq)) \<noteq> 200 \<longrightarrow> snd (handle W st now rq) = st) \<and>
   (rp_status (fst (serve_request W S fault ck sv rq)) = 429 \<longrightarrow>
      sv_store (snd (serve_request W S fault ck sv rq)) = sv_store sv \<and>
      sv_disk (snd (serve_request W S fault ck sv rq)) = sv_disk sv)"
proof (intro conjI impI)
  show "rp_status (fst (handle W st now rq)) \<noteq> 200 \<Longrightarrow> snd (handle W st now rq) = st"
    using handle_status [of W st now rq] by (cases "handle W st now rq") simp
  assume "rp_status (fst (serve_request W S fault ck sv rq)) = 429"
  then show "sv_store (snd (serve_request W S fault ck sv rq)) = sv_store sv"
    "sv_disk (snd (serve_request W S fault ck sv rq)) = sv_disk sv"
    by (auto simp: serve_request_def Let_def dest!: handle_status split: option.splits prod.splits if_splits)
qed

theorem failed_request_changes_nothing_witness:
  "handle demo_web store_new 5 \<lparr>rq_method = Get, rq_url = ''/nothing'', rq_body = [], rq_remote = None\<rparr> =
   (respond_text 404 ''not found'', store_new)"
proof -
  let ?rq = "\<lparr>rq_method = Get, rq_url = ''/nothing'', rq_body = [], rq_remote = None\<rparr>"
  have "fst (handle demo_web store_new 5 ?rq) = respond_text 404 ''not found''"
    by (simp add: handle_def split_first_def)
  moreover from this have "snd (handle demo_web store_new 5 ?rq) = store_new"
    using failed_request_changes_nothing [of demo_web store_new 5 ?rq] by (simp add: respond_text_def)
  ultimately show ?thesis by (metis prod.collapse)
qed

text \<open>
  The rate limit is exact. From a fresh limiter, with the clock never running backwards, a call is let through exactly
  when it is among the first \<open>limit\<close> calls of its address in its minute, however many addresses call in between and
  whether or not the table is purged.
\<close>

lemma rate_limit_exact:
  assumes "sorted (map (\<lambda>c. minute_of t0 (fst c)) cs)" "length cs < 2 ^ 32" "j < length cs"
  shows "allow_run (limiter_new t0 l) cs ! j \<longleftrightarrow>
    calls_in t0 (snd (cs ! j)) (minute_of t0 (fst (cs ! j))) (take (Suc j) cs) \<le> unat l"
  using allow_run_counts [OF limiter_new_counts, of t0 l cs j] assms
  by (simp add: limiter_new_def)

end
