(* ===== verification/Transport.thy ===== *)
theory Transport
  imports Mesh
begin

text \<open>
  The transport seam of \<^verbatim>\<open>core/src/transport.rs\<close>: the trait \<open>MessageTransport\<close> as an interface. A transport is a
  state with a \<open>send\<close> and a \<open>receive\<close>; the law both implementations keep is that a successful \<open>receive\<close> drains what
  it returns. The law may rest on a named assumption about third-party code (\<open>lawful\<close>). The mesh is
  interpreted here, the relay transport in theory \<open>Net\<close>.
\<close>

text \<open>Receiving several times in a row, keeping what each successful call returns.\<close>

primrec receive_times :: "('s \<Rightarrow> bytes \<Rightarrow> (transport_error + bytes list) \<times> 's) \<Rightarrow> nat \<Rightarrow> 's \<Rightarrow> bytes \<Rightarrow> bytes list" where
  "receive_times rcv 0 s addr = []"
| "receive_times rcv (Suc k) s addr =
     (case rcv s addr of (Inl _, s') \<Rightarrow> receive_times rcv k s' addr
      | (Inr ps, s') \<Rightarrow> ps @ receive_times rcv k s' addr)"

locale message_transport =
  fixes lawful :: bool
    and send :: "'s \<Rightarrow> bytes \<Rightarrow> bytes \<Rightarrow> (transport_error + unit) \<times> 's"
    and receive :: "'s \<Rightarrow> bytes \<Rightarrow> (transport_error + bytes list) \<times> 's"
  assumes drained: "lawful \<Longrightarrow> receive s addr = (Inr ps, s') \<Longrightarrow> \<exists>s''. receive s' addr = (Inr [], s'')"
begin

lemma receive_times_drained:
  "lawful \<Longrightarrow> receive s addr = (Inr [], s') \<Longrightarrow> receive_times receive k s addr = []"
proof (induction k arbitrary: s s')
  case 0
  then show ?case by simp
next
  case (Suc k)
  obtain s'' where "receive s' addr = (Inr [], s'')" using drained [OF Suc.prems] by blast
  then show ?case using Suc.IH [OF Suc.prems(1)] Suc.prems(2) by simp
qed

text \<open>However often a client asks again, it gets each payload once.\<close>

lemma receive_once:
  assumes "lawful" "receive s addr = (Inr ps, s')"
  shows "receive_times receive (Suc k) s addr = ps"
proof -
  obtain s'' where "receive s' addr = (Inr [], s'')" using drained [OF assms] by blast
  then show ?thesis using receive_times_drained [OF assms(1)] assms(2) by simp
qed

end

interpretation mesh_mt: message_transport True "mesh_send rng" mesh_receive for rng
  by unfold_locales (auto simp: mesh_receive_def take_inbox_def)

section \<open>Properties\<close>

text \<open>
  A client polling the mesh transport any number of times gets every payload of its inbox exactly once.
\<close>

lemma mesh_receive_once: "receive_times mesh_receive (Suc k) n addr = inbox n"
  by (rule mesh_mt.receive_once) (simp_all add: mesh_receive_def take_inbox_def)

end
