(* ===== verification/Net.thy ===== *)
theory Net
  imports Relay_Server Transport
begin

text \<open>
  The relay client of \<^verbatim>\<open>net/src/lib.rs\<close>. The HTTP agent (\<open>ureq\<close>, with or without a proxy) is a parameter: a
  function that performs one request on a world and says what came back. \<open>loopback\<close> is the agent wired straight to the
  relay's own request handler; the theorems run the client against the server.
\<close>

datatype net_error = Config string | Http string | DecodeErr string | Json string | Io string

text \<open>\<open>From<std::io::Error>\<close>, which the operator \<open>?\<close> applies to a body that cannot be read as JSON.\<close>

definition net_error_of_io :: "string \<Rightarrow> net_error" where
  "net_error_of_io e = Io e"

definition show_net_error :: "net_error \<Rightarrow> string" where
  "show_net_error e = (case e of
      Config m \<Rightarrow> ''transport config error: '' @ m
    | Http m \<Rightarrow> ''relay request failed: '' @ m
    | DecodeErr m \<Rightarrow> ''response decode error: '' @ m
    | Json m \<Rightarrow> ''json error: '' @ m
    | Io m \<Rightarrow> ''io error: '' @ m)"

text \<open>What a call of the agent returns: a response, an error status with its response, or a failed connection.\<close>

datatype call_result = Ok http_response | Status nat http_response | Failed string

record 'w agent =
  ag_call :: "http_method \<Rightarrow> string \<Rightarrow> (string \<times> string) list \<Rightarrow> bytes \<Rightarrow> 'w \<Rightarrow> call_result \<times> 'w"
  ag_show :: "call_result \<Rightarrow> string"
    \<comment> \<open>\<open>ureq::Error::to_string\<close>\<close>

record 'w relay_transport =
  base_url :: string
  rt_agent :: "'w agent"

definition direct :: "'w agent \<Rightarrow> string \<Rightarrow> 'w relay_transport" where
  "direct ag base = \<lparr>base_url = base, rt_agent = ag\<rparr>"

text \<open>\<open>ureq::Proxy::new\<close> and the agent built on the proxy are the argument \<open>proxied\<close>.\<close>

definition over_tor :: "(string \<Rightarrow> string + 'w agent) \<Rightarrow> string \<Rightarrow> string \<Rightarrow> net_error + 'w relay_transport" where
  "over_tor proxied base socks_addr =
     (case proxied (''socks5://'' @ socks_addr) of
        Inl e \<Rightarrow> Inl (Config e)
      | Inr ag \<Rightarrow> Inr \<lparr>base_url = base, rt_agent = ag\<rparr>)"

definition trim_slashes :: "string \<Rightarrow> string" where
  "trim_slashes s = rev (dropWhile (\<lambda>c. c = CHR ''/'') (rev s))"

definition rt_url :: "'w relay_transport \<Rightarrow> string \<Rightarrow> string" where
  "rt_url t path = trim_slashes (base_url t) @ path"

definition boxed :: "'w relay_transport \<Rightarrow> call_result \<Rightarrow> net_error" where
  "boxed t r = Http (ag_show (rt_agent t) r)"

definition net_unb64 :: "web_codecs \<Rightarrow> string \<Rightarrow> net_error + bytes" where
  "net_unb64 W s = map_err DecodeErr (unb64 W s)"

definition net_publish :: "web_codecs \<Rightarrow> 'w relay_transport \<Rightarrow> prekey_bundle \<Rightarrow> (u32 \<times> bytes) list \<Rightarrow> 'w
    \<Rightarrow> (net_error + unit) \<times> 'w" where
  "net_publish W t b otps w =
     (let req = \<lparr>pr_bundle = b64 W (bundle_encode (wc_bundle W) b),
                 pr_one_time = map (\<lambda>(i, pub). \<lparr>ot_id = i, ot_public = b64 W pub\<rparr>) otps\<rparr>
      in case ag_call (rt_agent t) Post (rt_url t ''/publish'') [] (ser (wc_publish W) req) w of
           (Ok _, w') \<Rightarrow> (Inr (), w')
         | (r, w') \<Rightarrow> (Inl (boxed t r), w'))"

definition net_fetch_bundle :: "web_codecs \<Rightarrow> 'w relay_transport \<Rightarrow> bytes \<Rightarrow> 'w
    \<Rightarrow> (net_error + prekey_bundle option) \<times> 'w" where
  "net_fetch_bundle W t identity w =
     (case ag_call (rt_agent t) Get (rt_url t ''/bundle'') [(''identity'', b64 W identity)] [] w of
        (Ok resp, w') \<Rightarrow>
          ((case de (wc_bundle_resp W) (rp_body resp) of
              Inl e \<Rightarrow> Inl (net_error_of_io e)
            | Inr body \<Rightarrow> (case net_unb64 W (br_bundle body) of
                Inl e \<Rightarrow> Inl e
              | Inr bs \<Rightarrow> (case bundle_decode (wc_bundle W) bs of
                  Inl e \<Rightarrow> Inl (DecodeErr (show_error e)) | Inr b \<Rightarrow> Inr (Some b)))), w')
      | (r, w') \<Rightarrow> (case r of Status code _ \<Rightarrow> if code = 404 then Inr None else Inl (boxed t r)
                             | _ \<Rightarrow> Inl (boxed t r), w'))"

definition net_send :: "web_codecs \<Rightarrow> 'w relay_transport \<Rightarrow> bytes \<Rightarrow> bytes \<Rightarrow> 'w \<Rightarrow> (net_error + unit) \<times> 'w" where
  "net_send W t rcpt msg w =
     (let req = \<lparr>sr_recipient = b64 W rcpt, sr_message = b64 W msg\<rparr>
      in case ag_call (rt_agent t) Post (rt_url t ''/send'') [] (ser (wc_send W) req) w of
           (Ok _, w') \<Rightarrow> (Inr (), w')
         | (r, w') \<Rightarrow> (Inl (boxed t r), w'))"

primrec collect_b64 :: "web_codecs \<Rightarrow> string list \<Rightarrow> net_error + bytes list" where
  "collect_b64 W [] = Inr []"
| "collect_b64 W (m # ms) =
     (case net_unb64 W m of Inl e \<Rightarrow> Inl e
      | Inr bs \<Rightarrow> (case collect_b64 W ms of Inl e \<Rightarrow> Inl e | Inr bss \<Rightarrow> Inr (bs # bss)))"

definition net_poll :: "web_codecs \<Rightarrow> 'w relay_transport \<Rightarrow> bytes \<Rightarrow> 'w \<Rightarrow> (net_error + bytes list) \<times> 'w" where
  "net_poll W t rcpt w =
     (case ag_call (rt_agent t) Get (rt_url t ''/poll'') [(''recipient'', b64 W rcpt)] [] w of
        (Ok resp, w') \<Rightarrow>
          ((case de (wc_poll_resp W) (rp_body resp) of
              Inl e \<Rightarrow> Inl (net_error_of_io e) | Inr body \<Rightarrow> collect_b64 W (pl_messages body)), w')
      | (r, w') \<Rightarrow> (Inl (boxed t r), w'))"

definition relay_send :: "web_codecs \<Rightarrow> 'w relay_transport \<Rightarrow> 'w \<Rightarrow> bytes \<Rightarrow> bytes \<Rightarrow> (transport_error + unit) \<times> 'w" where
  "relay_send W t w rcpt pl = apfst (map_err (\<lambda>e. TransportError (show_net_error e))) (net_send W t rcpt pl w)"

definition relay_receive :: "web_codecs \<Rightarrow> 'w relay_transport \<Rightarrow> 'w \<Rightarrow> bytes \<Rightarrow> (transport_error + bytes list) \<times> 'w" where
  "relay_receive W t w addr = apfst (map_err (\<lambda>e. TransportError (show_net_error e))) (net_poll W t addr w)"

text \<open>
  The agent connected to the relay at unix time \<open>now\<close>: it drops the base address from the URL, appends the form-encoded
  query, and reports a status of 400 or more as an error.
\<close>

definition query_string :: "(string \<times> string) list \<Rightarrow> string" where
  "query_string qs = (case qs of [] \<Rightarrow> [] | (k, v) # _ \<Rightarrow> CHR ''?'' # k @ CHR ''='' # percent_encode v)"

definition loopback_call :: "web_codecs \<Rightarrow> string \<Rightarrow> nat \<Rightarrow> http_method \<Rightarrow> string \<Rightarrow> (string \<times> string) list \<Rightarrow> bytes
    \<Rightarrow> relay_store \<Rightarrow> call_result \<times> relay_store" where
  "loopback_call W base now meth url qs body st =
     (let path = drop (length (trim_slashes base)) url;
          (rp, st') = handle W st now \<lparr>rq_method = meth, rq_url = path @ query_string qs, rq_body = body, rq_remote = None\<rparr>
      in (if rp_status rp < 400 then Ok rp else Status (rp_status rp) rp, st'))"

definition loopback :: "web_codecs \<Rightarrow> string \<Rightarrow> nat \<Rightarrow> relay_store relay_transport" where
  "loopback W base now = direct \<lparr>ag_call = loopback_call W base now, ag_show = (\<lambda>_. ''status'')\<rparr> base"

section \<open>One request against the relay\<close>

lemma web_okD [simp]:
  assumes "web_ok W"
  shows "unb64 W (b64 W bs) = Inr bs" "net_unb64 W (b64 W bs) = Inr bs"
    "length bs = 32 \<Longrightarrow> unb64_key W (b64 W bs) = Inr bs"
    "bundle_decode (wc_bundle W) (bundle_encode (wc_bundle W) b) = Inr b"
    "de (wc_bundle_resp W) (ser (wc_bundle_resp W) x) = Inr x" "de (wc_poll_resp W) (ser (wc_poll_resp W) y) = Inr y"
  using assms by (simp_all add: web_ok_def unb64_def b64_def net_unb64_def unb64_key_def)

lemma collect_b64_map [simp]: "web_ok W \<Longrightarrow> collect_b64 W (map (b64 W) bss) = Inr bss"
  by (induction bss) simp_all

lemma decode_one_time_map [simp]:
  "web_ok W \<Longrightarrow> \<forall>(i, p)\<in>set otps. length p = 32 \<Longrightarrow>
   decode_one_time W (map (\<lambda>(i, pub). \<lparr>ot_id = i, ot_public = b64 W pub\<rparr>) otps) = Inr otps"
  by (induction otps) auto

lemma read_json_sent:
  assumes "web_ok W" "length (ser (wc_send W) x) \<le> MAX_BODY_BYTES" "rq_body rq = ser (wc_send W) x"
  shows "read_json (wc_send W) rq = Inr x"
  using assms by (simp add: read_json_def web_ok_def)

lemma read_json_published:
  assumes "web_ok W" "length (ser (wc_publish W) x) \<le> MAX_BODY_BYTES" "rq_body rq = ser (wc_publish W) x"
  shows "read_json (wc_publish W) rq = Inr x"
  using assms by (simp add: read_json_def web_ok_def)

lemma key_param_sent:
  assumes "web_ok W" "length k = 32" "set key \<inter> {CHR ''&'', CHR ''=''} = {}"
  shows "key_param W (key @ CHR ''='' # percent_encode (b64 W k)) key = Some k"
  using assms query_param_encoded [OF assms(3), of "b64 W k"] by (simp add: key_param_def)

lemma key_param_same:
  assumes "set key \<inter> {CHR ''&'', CHR ''=''} = {}"
  shows "key_param W (key @ CHR ''='' # percent_encode v) key = (case unb64_key W v of Inl _ \<Rightarrow> None | Inr k \<Rightarrow> Some k)"
  using query_param_encoded [OF assms, of v] by (simp add: key_param_def)

lemma rt_url_loopback: "drop (length (trim_slashes base)) (rt_url (loopback W base now) path) = path"
  by (simp add: rt_url_def loopback_def direct_def)

lemma split_question: "split_first CHR ''?'' (''/poll'' @ CHR ''?'' # q) = (''/poll'', Some q)"
  "split_first CHR ''?'' (''/bundle'' @ CHR ''?'' # q) = (''/bundle'', Some q)"
  by (rule split_first_eq, simp)+

lemma split_plain: "split_first CHR ''?'' ''/send'' = (''/send'', None)"
  "split_first CHR ''?'' ''/publish'' = (''/publish'', None)"
  by (rule split_first_none, simp)+

lemma loopback_poll:
  "ag_call (rt_agent (loopback W base now)) Get (rt_url (loopback W base now) ''/poll'') [(''recipient'', v)] [] st =
   (case unb64_key W v of
      Inl _ \<Rightarrow> (Status 400 (respond_text 400 ''missing recipient''), st)
    | Inr k \<Rightarrow> (Ok (respond_json (wc_poll_resp W) 200 \<lparr>pl_messages = map (b64 W) (fst (poll_at st k now))\<rparr>),
               snd (poll_at st k now)))"
proof -
  let ?rq = "\<lparr>rq_method = Get, rq_url = ''/poll'' @ query_string [(''recipient'', v)], rq_body = [], rq_remote = None\<rparr>"
  have "handle W st now ?rq = handle_poll W st now (''recipient'' @ CHR ''='' # percent_encode v)"
    using split_question(1) [of "''recipient'' @ CHR ''='' # percent_encode v"] by (simp add: handle_def query_string_def)
  then show ?thesis
    using key_param_same [of "''recipient''" W v]
    by (simp add: loopback_def direct_def loopback_call_def rt_url_def handle_poll_def respond_text_def respond_json_def
        Let_def split: sum.split prod.split)
qed

lemma loopback_bundle:
  assumes "web_ok W" "length i = 32"
  shows "ag_call (rt_agent (loopback W base now)) Get (rt_url (loopback W base now) ''/bundle'') [(''identity'', b64 W i)] [] st =
   (case fetch_bundle st i of
      (Some b, st') \<Rightarrow> (Ok (respond_json (wc_bundle_resp W) 200 \<lparr>br_bundle = b64 W (bundle_encode (wc_bundle W) b)\<rparr>), st')
    | (None, st') \<Rightarrow> (Status 404 (respond_text 404 ''unknown identity''), st'))"
proof -
  let ?rq = "\<lparr>rq_method = Get, rq_url = ''/bundle'' @ query_string [(''identity'', b64 W i)], rq_body = [], rq_remote = None\<rparr>"
  have "handle W st now ?rq = handle_bundle W st (''identity'' @ CHR ''='' # percent_encode (b64 W i))"
    using split_question(2) [of "''identity'' @ CHR ''='' # percent_encode (b64 W i)"] by (simp add: handle_def query_string_def)
  then show ?thesis
    using key_param_sent [OF assms, of "''identity''"]
    by (simp add: loopback_def direct_def loopback_call_def rt_url_def handle_bundle_def respond_text_def respond_json_def
        Let_def split: option.split prod.split)
qed

lemma loopback_send:
  assumes "web_ok W" "length r = 32"
    and "length (ser (wc_send W) \<lparr>sr_recipient = b64 W r, sr_message = b64 W m\<rparr>) \<le> MAX_BODY_BYTES"
  shows "net_send W (loopback W base now) r m st =
    (case enqueue_at st r m now of
       (Inl MessageTooLarge, st') \<Rightarrow>
         (Inl (boxed (loopback W base now) (Status 413 (respond_text 413 ''message too large''))), st')
     | (Inr _, st') \<Rightarrow> (Inr (), st'))"
proof -
  let ?req = "\<lparr>sr_recipient = b64 W r, sr_message = b64 W m\<rparr>"
  let ?rq = "\<lparr>rq_method = Post, rq_url = ''/send'', rq_body = ser (wc_send W) ?req, rq_remote = None\<rparr>"
  have "read_json (wc_send W) ?rq = Inr ?req" using assms by (intro read_json_sent) simp_all
  then show ?thesis
    using assms(1,2) split_plain(1)
    by (simp add: net_send_def loopback_def direct_def loopback_call_def rt_url_def query_string_def handle_def
        handle_send_def respond_error_def respond_text_def boxed_def Let_def
        split: prod.split sum.split store_error.split)
qed

lemma loopback_publish:
  assumes "web_ok W" "\<forall>(i, p)\<in>set otps. length p = 32"
    and "length (ser (wc_publish W) \<lparr>pr_bundle = b64 W (bundle_encode (wc_bundle W) b),
        pr_one_time = map (\<lambda>(i, pub). \<lparr>ot_id = i, ot_public = b64 W pub\<rparr>) otps\<rparr>) \<le> MAX_BODY_BYTES"
  shows "net_publish W (loopback W base now) b otps st = (Inr (), publish st b otps)"
proof -
  let ?req = "\<lparr>pr_bundle = b64 W (bundle_encode (wc_bundle W) b),
    pr_one_time = map (\<lambda>(i, pub). \<lparr>ot_id = i, ot_public = b64 W pub\<rparr>) otps\<rparr>"
  let ?rq = "\<lparr>rq_method = Post, rq_url = ''/publish'', rq_body = ser (wc_publish W) ?req, rq_remote = None\<rparr>"
  have "read_json (wc_publish W) ?rq = Inr ?req" using assms by (intro read_json_published) simp_all
  then show ?thesis
    using assms(1,2) split_plain(2)
    by (simp add: net_publish_def loopback_def direct_def loopback_call_def rt_url_def query_string_def handle_def
        handle_publish_def respond_text_def Let_def)
qed

lemma loopback_receive:
  assumes "web_ok W"
  shows "relay_receive W (loopback W base now) st addr =
    (case unb64_key W (b64 W addr) of
       Inl _ \<Rightarrow> (Inl (TransportError (show_net_error
           (boxed (loopback W base now) (Status 400 (respond_text 400 ''missing recipient''))))), st)
     | Inr k \<Rightarrow> (Inr (fst (poll_at st k now)), snd (poll_at st k now)))"
  using assms
  by (simp add: relay_receive_def net_poll_def loopback_poll respond_json_def split: sum.split)

lemma poll_drains: "fst (poll_at (snd (poll_at st k now)) k now') = []"
  by (simp add: poll_eq live_mail_def)

interpretation relay_mt: message_transport "web_ok W" "relay_send W (loopback W base now)"
  "relay_receive W (loopback W base now)" for W base now
  by unfold_locales (auto simp: loopback_receive poll_drains split: sum.splits)

section \<open>Properties\<close>

text \<open>
  The relay transport end to end: what one client sends to a mailbox address another client receives. Through base64,
  JSON, the URL query and the mailbox, \<open>send\<close> followed by \<open>receive\<close> returns the unexpired mail the mailbox held, in
  order, and then the new payload; asking again returns nothing more.
\<close>

lemma relay_transport_delivers:
  assumes "web_ok W" "length r = 32" "length m \<le> max_message_bytes (limits st)"
    and "length (ser (wc_send W) \<lparr>sr_recipient = b64 W r, sr_message = b64 W m\<rparr>) \<le> MAX_BODY_BYTES"
    and "mailbox_ok (limits st) (mailbox st r @ [\<lparr>enqueued_at = t, qm_bytes = m\<rparr>])" "t \<le> t'"
    and "t' \<le> t + mail_ttl_secs (limits st)"
  shows "\<exists>st'. relay_send W (loopback W base t) st r m = (Inr (), st') \<and>
    receive_times (relay_receive W (loopback W base t')) (Suc k) st' r =
      map qm_bytes (live_mail (t' - mail_ttl_secs (limits st)) (mailbox st r)) @ [m]"
proof -
  obtain st' where E: "enqueue_at st r m t = (Inr (), st')"
    using assms(3) by (simp add: enqueue_at_def Let_def)
  have M: "mailbox st' r = mailbox st r @ [\<lparr>enqueued_at = t, qm_bytes = m\<rparr>]" "limits st' = limits st"
    using enqueue_fits [OF assms(3,5)] by (simp_all add: E)
  have "relay_send W (loopback W base t) st r m = (Inr (), st')"
    using loopback_send [OF assms(1,2,4), of base t st] by (simp add: relay_send_def E)
  moreover have "receive_times (relay_receive W (loopback W base t')) (Suc k) st' r = fst (poll_at st' r t')"
    by (rule relay_mt.receive_once [OF assms(1)]) (simp add: loopback_receive assms(1,2))
  moreover have "fst (poll_at st' r t') = map qm_bytes (live_mail (t' - mail_ttl_secs (limits st)) (mailbox st r)) @ [m]"
    using assms(7) by (simp add: poll_eq M live_mail_def)
  ultimately show ?thesis by simp
qed

text \<open>
  The directory end to end: after a client publishes an account's bundle and one-time prekeys, a fetch by identity
  returns the bundle with the first one-time prekey (or none if the pool is empty); an identity nobody published is
  answered with \<open>None\<close>, not an error.
\<close>

lemma relay_directory_serves:
  assumes "web_ok W" "length (pb_identity_ed b) = 32" "\<forall>(i, p)\<in>set otps. length p = 32"
    and "length (ser (wc_publish W) \<lparr>pr_bundle = b64 W (bundle_encode (wc_bundle W) b),
        pr_one_time = map (\<lambda>(i, pub). \<lparr>ot_id = i, ot_public = b64 W pub\<rparr>) otps\<rparr>) \<le> MAX_BODY_BYTES"
  shows "\<exists>st'. net_publish W (loopback W base t) b otps st = (Inr (), st') \<and>
    fst (net_fetch_bundle W (loopback W base t') (pb_identity_ed b) st') =
      Inr (Some (b\<lparr>pb_one_time_prekey := (case otps of [] \<Rightarrow> None | p # _ \<Rightarrow> Some (snd p)),
                    pb_one_time_prekey_id := (case otps of [] \<Rightarrow> None | p # _ \<Rightarrow> Some (fst p))\<rparr>)) \<and>
    (length i = 32 \<and> fmlookup (dir_keys (rs_inner st)) i = None \<and> i \<noteq> pb_identity_ed b \<longrightarrow>
      fst (net_fetch_bundle W (loopback W base t') i st') = Inr None)"
proof -
  let ?st = "publish st b otps"
  have pub: "net_publish W (loopback W base t) b otps st = (Inr (), ?st)"
    by (rule loopback_publish [OF assms(1,3,4)])
  have known: "fst (net_fetch_bundle W (loopback W base t') (pb_identity_ed b) ?st) =
      Inr (Some (b\<lparr>pb_one_time_prekey := (case otps of [] \<Rightarrow> None | p # _ \<Rightarrow> Some (snd p)),
                    pb_one_time_prekey_id := (case otps of [] \<Rightarrow> None | p # _ \<Rightarrow> Some (fst p))\<rparr>))"
    using assms(1,2)
    by (cases otps) (simp_all add: net_fetch_bundle_def loopback_bundle fetch_bundle_def publish_def Let_def
        respond_json_def split: prod.split)
  have unknown: "fst (net_fetch_bundle W (loopback W base t') i ?st) = Inr None"
    if "length i = 32" "fmlookup (dir_keys (rs_inner st)) i = None" "i \<noteq> pb_identity_ed b"
    using assms(1) that by (simp add: net_fetch_bundle_def loopback_bundle fetch_bundle_def publish_def Let_def)
  show ?thesis
    by (rule exI [of _ ?st], intro conjI impI) (rule pub, rule known, rule unknown, simp_all)
qed

end
