(* ===== verification/Peer.thy ===== *)
theory Peer
  imports Net Session Envelope Inbox
begin

text \<open>
  The command-line peer of \<^verbatim>\<open>net/examples/demo_peer.rs\<close>, which puts the components together: it fetches a bundle from
  the relay, opens a session, seals its first message into an envelope, posts it to the recipient's rotating inbox, and
  then polls its own inboxes for the reply; theory \<open>Peer_Main\<close> has its command line. \<open>expect\<close> on a failure is a panic
  with that message. The JSON content schema (\<open>serde_json\<close>) is a pair of parameters: the bytes of a text message, and
  how received bytes classify. The clock readings of the polling loop are a list, one per round until the deadline.

  The lemmas follow one message along the whole path: directory, handshake, ratchet, wire format, envelope, transport and
  mailbox; theory \<open>Spec2Isabelle\<close> joins them.
\<close>

datatype content = Text_Content string | Timer_Content | Other_Content

record peer_rng =
  pr_account :: account_rng
  pr_ephemeral :: bytes
  pr_kem :: bytes
  pr_ratchet :: bytes
  pr_seal :: bytes
  pr_draws :: "nat \<Rightarrow> bytes"
    \<comment> \<open>the ratchet key of the \<open>k\<close>-th decryption\<close>

datatype peer_line =
    Got_Text bytes string | Timer_Control bytes | Got_Raw bytes bytes | Undecryptable error

text \<open>Session, wire message and envelope for one message, without the network.\<close>

definition peer_compose :: "'c crypto_scheme \<Rightarrow> ratchet_header serde \<Rightarrow> message serde \<Rightarrow> peer_rng \<Rightarrow> account
    \<Rightarrow> prekey_bundle \<Rightarrow> bytes \<Rightarrow> string + session \<times> bytes" where
  "peer_compose C S M r self b plain =
     (case session_initiate C (pr_ephemeral r) (pr_kem r) (pr_ratchet r) self b of
        Inl _ \<Rightarrow> Inl ''bundle verified + session opened''
      | Inr s \<Rightarrow> (case session_encrypt C S s plain of
          (Inl _, _) \<Rightarrow> Inl ''encrypt''
        | (Inr m, s') \<Rightarrow> Inr (s', seal_envelope C (pr_seal r) self (pb_identity_dh b) (message_encode M m))))"

definition peer_send :: "'c crypto_scheme \<Rightarrow> ratchet_header serde \<Rightarrow> message serde \<Rightarrow> web_codecs \<Rightarrow> peer_rng
    \<Rightarrow> 'w relay_transport \<Rightarrow> bytes \<Rightarrow> bytes \<Rightarrow> u64 \<Rightarrow> 'w \<Rightarrow> (string + account \<times> session) \<times> 'w" where
  "peer_send C S M W r t their_id plain now w =
     (case net_fetch_bundle W t their_id w of
        (Inl _, w1) \<Rightarrow> (Inl ''relay reachable'', w1)
      | (Inr None, w1) \<Rightarrow> (Inl ''no bundle published for that identity'', w1)
      | (Inr (Some b), w1) \<Rightarrow>
          (let self = generate_account C (pr_account r)
           in case peer_compose C S M r self b plain of
                Inl e \<Rightarrow> (Inl e, w1)
              | Inr (s, blob) \<Rightarrow>
                  (case net_send W t (inbox_id C their_id (epoch_for_unix now)) blob w1 of
                     (Inl _, w2) \<Rightarrow> (Inl ''send'', w2)
                   | (Inr _, w2) \<Rightarrow> (Inr (self, s), w2))))"

text \<open>One mailbox of envelopes. The flag says whether the program returns.\<close>

fun peer_envelopes :: "'c crypto_scheme \<Rightarrow> ratchet_header serde \<Rightarrow> message serde \<Rightarrow> (bytes \<Rightarrow> content) \<Rightarrow> peer_rng
    \<Rightarrow> account \<Rightarrow> nat \<Rightarrow> session \<Rightarrow> bytes list \<Rightarrow> peer_line list \<times> bool \<times> nat \<times> session" where
  "peer_envelopes C S M kind r self k s [] = ([], False, k, s)"
| "peer_envelopes C S M kind r self k s (raw # raws) =
     (case open_envelope C self raw of
        Inl _ \<Rightarrow> peer_envelopes C S M kind r self k s raws
      | Inr opened \<Rightarrow> (case message_decode M (payload opened) of
          Inl _ \<Rightarrow> peer_envelopes C S M kind r self k s raws
        | Inr msg \<Rightarrow> (case session_decrypt C S (pr_draws r k) s msg of
            (Inl e, s') \<Rightarrow> (case peer_envelopes C S M kind r self (Suc k) s' raws of
                (ls, res) \<Rightarrow> (Undecryptable e # ls, res))
          | (Inr plain, s') \<Rightarrow> (case kind plain of
              Text_Content body \<Rightarrow> ([Got_Text (sender_identity_ed opened) body], True, Suc k, s')
            | Timer_Content \<Rightarrow> (case peer_envelopes C S M kind r self (Suc k) s' raws of
                (ls, res) \<Rightarrow> (Timer_Control (sender_identity_ed opened) # ls, res))
            | Other_Content \<Rightarrow> ([Got_Raw (sender_identity_ed opened) plain], True, Suc k, s')))))"

fun peer_inboxes :: "'c crypto_scheme \<Rightarrow> ratchet_header serde \<Rightarrow> message serde \<Rightarrow> (bytes \<Rightarrow> content) \<Rightarrow> web_codecs
    \<Rightarrow> peer_rng \<Rightarrow> 'w relay_transport \<Rightarrow> account \<Rightarrow> bytes list \<Rightarrow> nat \<Rightarrow> session \<Rightarrow> 'w
    \<Rightarrow> peer_line list \<times> bool \<times> nat \<times> session \<times> 'w" where
  "peer_inboxes C S M kind W r t self [] k s w = ([], False, k, s, w)"
| "peer_inboxes C S M kind W r t self (ib # ibs) k s w =
     (case net_poll W t ib w of
        (Inl _, w1) \<Rightarrow> peer_inboxes C S M kind W r t self ibs k s w1
      | (Inr raws, w1) \<Rightarrow> (case peer_envelopes C S M kind r self k s raws of
          (ls, True, k', s') \<Rightarrow> (ls, True, k', s', w1)
        | (ls, False, k', s') \<Rightarrow> (case peer_inboxes C S M kind W r t self ibs k' s' w1 of
            (ls', res) \<Rightarrow> (ls @ ls', res))))"

text \<open>The rounds until the deadline; the exit code is 0 when a reply was printed and 2 when none came.\<close>

fun peer_poll_rounds :: "'c crypto_scheme \<Rightarrow> ratchet_header serde \<Rightarrow> message serde \<Rightarrow> (bytes \<Rightarrow> content) \<Rightarrow> web_codecs
    \<Rightarrow> peer_rng \<Rightarrow> (u64 \<Rightarrow> 'w relay_transport) \<Rightarrow> account \<Rightarrow> u64 list \<Rightarrow> nat \<Rightarrow> session \<Rightarrow> 'w
    \<Rightarrow> peer_line list \<times> nat \<times> session \<times> 'w" where
  "peer_poll_rounds C S M kind W r t self [] k s w = ([], 2, s, w)"
| "peer_poll_rounds C S M kind W r t self (now # nows) k s w =
     (let ep = epoch_for_unix now
      in case peer_inboxes C S M kind W r (t now) self
            (inbox_window C (identity_public C self) (saturating_sub ep 1) (ep + 1)) k s w of
           (ls, True, k', s', w') \<Rightarrow> (ls, 0, s', w')
         | (ls, False, k', s', w') \<Rightarrow> (case peer_poll_rounds C S M kind W r t self nows k' s' w' of
             (ls', res) \<Rightarrow> (ls @ ls', res)))"

text \<open>The bundle of an account that published its keys, as the relay serves it.\<close>

definition first_offer :: "'c crypto_scheme \<Rightarrow> account \<Rightarrow> (u32 \<times> bytes) option" where
  "first_offer C b = (case account_one_time_prekey_publics C b of [] \<Rightarrow> None | p # _ \<Rightarrow> Some p)"

text \<open>The request that posts a message fits the relay's limits, and a mailbox can hold one message.\<close>

definition postable :: "web_codecs \<Rightarrow> store_limits \<Rightarrow> bytes \<Rightarrow> bytes \<Rightarrow> bool" where
  "postable W l rcpt msg \<longleftrightarrow> length msg \<le> max_message_bytes l \<and>
     length (ser (wc_send W) \<lparr>sr_recipient = b64 W rcpt, sr_message = b64 W msg\<rparr>) \<le> MAX_BODY_BYTES"

definition sane_limits :: "store_limits \<Rightarrow> bool" where
  "sane_limits l \<longleftrightarrow> 0 < max_mailbox_messages l \<and> max_message_bytes l \<le> max_mailbox_bytes l"

section \<open>The path of one message\<close>

lemma first_offer_offered: "offered C b (first_offer C b)"
  by (simp add: first_offer_def offered_def split: list.split)

lemma fetch_published:
  assumes "sig_ok C" "web_ok W"
  shows "\<exists>st'. net_fetch_bundle W (loopback W base t) (identity_public C b)
      (publish st (fst (split_bundle C b)) (snd (split_bundle C b))) =
        (Inr (Some (served_bundle C b (first_offer C b))), st') \<and>
    limits st' = limits st \<and> (\<forall>r. mailbox st' r = mailbox st r)"
proof -
  have len: "length (identity_public C b) = 32" using assms(1) by (simp add: sig_ok_def identity_public_def)
  have id: "pb_identity_ed (account_bundle C b) = identity_public C b"
    using served_bundle_fields(1) [of C b None] by (simp add: served_bundle_def)
  let ?st = "publish st (fst (split_bundle C b)) (snd (split_bundle C b))"
  obtain F: "fst (fetch_bundle ?st (identity_public C b)) = Some (served_bundle C b (first_offer C b))"
    and st': "limits (snd (fetch_bundle ?st (identity_public C b))) = limits st"
      "queues (rs_inner (snd (fetch_bundle ?st (identity_public C b)))) = queues (rs_inner st)"
    by (cases "account_one_time_prekey_publics C b")
      (auto simp: fetch_bundle_def publish_def split_bundle_def id first_offer_def served_bundle_def Let_def
        split: prod.splits)
  have "net_fetch_bundle W (loopback W base t) (identity_public C b) ?st =
      (Inr (Some (served_bundle C b (first_offer C b))), snd (fetch_bundle ?st (identity_public C b)))"
    using assms(2) F
    by (cases "fetch_bundle ?st (identity_public C b)")
      (simp add: net_fetch_bundle_def loopback_bundle [OF assms(2) len] respond_json_def)
  then show ?thesis using st' by (simp add: mailbox_def)
qed

text \<open>Enqueueing keeps the newest message, however many old ones it drops.\<close>

lemma enqueue_keeps_new:
  assumes "sane_limits (limits st)" "length m \<le> max_message_bytes (limits st)"
  shows "\<exists>st' old. enqueue_at st r m t = (Inr (), st') \<and> limits st' = limits st \<and>
    mailbox st' r = old @ [\<lparr>enqueued_at = t, qm_bytes = m\<rparr>] \<and> set old \<subseteq> set (mailbox st r)"
proof -
  let ?q = "mailbox st r @ [\<lparr>enqueued_at = t, qm_bytes = m\<rparr>]"
  obtain k where E: "enqueue_at st r m t = (Inr (), mark_dirty (st\<lparr>rs_inner := (rs_inner st)\<lparr>queues :=
       fmupd r (drop k ?q) (queues (rs_inner st))\<rparr>\<rparr>))" "\<forall>j<k. \<not> mailbox_ok (limits st) (drop j ?q)"
    using enqueue_small [OF assms(2)] unfolding Let_def by blast
  have "mailbox_ok (limits st) (drop (length (mailbox st r)) ?q)"
    using assms by (simp add: mailbox_ok_def sane_limits_def)
  then have "k \<le> length (mailbox st r)" using E(2) not_less by blast
  then show ?thesis
    using E(1) set_drop_subset [of k "mailbox st r"] by (auto simp: mailbox_def intro!: exI [of _ "drop k (mailbox st r)"])
qed

lemma posted_mail_arrives:
  assumes "web_ok W" "length r = 32" "sane_limits (limits st)" "postable W (limits st) r m"
    and "t \<le> t'" "t' \<le> t + mail_ttl_secs (limits st)"
  shows "\<exists>st' old. net_send W (loopback W base t) r m st = (Inr (), st') \<and>
    fst (relay_receive W (loopback W base t') st' r) = Inr (old @ [m])"
proof -
  have post: "length m \<le> max_message_bytes (limits st)"
    "length (ser (wc_send W) \<lparr>sr_recipient = b64 W r, sr_message = b64 W m\<rparr>) \<le> MAX_BODY_BYTES"
    using assms(4) by (simp_all add: postable_def)
  obtain st' old where E: "enqueue_at st r m t = (Inr (), st')" "limits st' = limits st"
    "mailbox st' r = old @ [\<lparr>enqueued_at = t, qm_bytes = m\<rparr>]"
    using enqueue_keeps_new [OF assms(3) post(1)] by blast
  have "net_send W (loopback W base t) r m st = (Inr (), st')"
    using loopback_send [OF assms(1,2) post(2), of base t st] by (simp add: E(1))
  moreover have "fst (relay_receive W (loopback W base t') st' r) =
      Inr (map qm_bytes (live_mail (t' - mail_ttl_secs (limits st)) old) @ [m])"
    using assms(1,2,6) by (simp add: loopback_receive poll_eq E live_mail_def)
  ultimately show ?thesis by blast
qed

lemma sealed_longer:
  assumes "dh_len C" "aead_tag_len C"
  shows "length pl \<le> length (seal_envelope C eph a q pl)"
  using bucket_room [of "length pl"] assms by (simp add: seal_envelope_def Let_def length_aead_seal dh_len_def)

lemma composed_message_opens:
  assumes laws: "sig_ok C" "aead_ok C" "dh_ok C" "kem_ok C" "dh_len C" "aead_tag_len C" "serde_ok M"
    and b: "kyber_wf C (kyber b)" "offered C b opk"
    and keys: "distinct (map (x25519_public C) [signed_prekey_secret b, pr_ratchet r, new'])"
  shows "\<exists>s blob m. peer_compose C S M r self (served_bundle C b opk) plain = Inr (s, blob) \<and>
    blob = seal_envelope C (pr_seal r) self (identity_dh_public C b) (message_encode M m) \<and>
    (length (message_encode M m) < 2 ^ 32 \<longrightarrow>
      open_envelope C b blob = Inr \<lparr>sender_identity_ed = identity_public C self,
        sender_identity_dh = identity_dh_public C self, payload = message_encode M m\<rparr>) \<and>
    message_decode M (message_encode M m) = Inr m \<and>
    (\<exists>sb. session_respond C S new' b m = (Inr (sb, plain), spend opk b) \<and> ad_prefix sb = ad_prefix s \<and>
      (\<forall>new'' reply. x25519_public C new'' \<notin> x25519_public C ` {signed_prekey_secret b, pr_ratchet r, new'} \<longrightarrow>
         (\<exists>m' sb'. session_encrypt C S sb reply = (Inr m', sb') \<and> fst (session_decrypt C S new'' s m') = Inr reply)))"
proof -
  obtain s ms s' sb where E: "session_initiate C (pr_ephemeral r) (pr_kem r) (pr_ratchet r) self (served_bundle C b opk) = Inr s"
    "session_encrypt_all C S s [plain] = (map Inr ms, s')" "length ms = 1"
    "session_respond C S new' b (ms ! 0) = (Inr (sb, plain), spend opk b)" "ad_prefix sb = ad_prefix s'"
    "\<forall>new'' reply. x25519_public C new'' \<notin> x25519_public C ` {signed_prekey_secret b, pr_ratchet r, new'} \<longrightarrow>
       (\<exists>h ct sb'. session_encrypt C S sb reply = (Inr (Normal h ct), sb') \<and>
         fst (session_decrypt C S new'' s' (Normal h ct)) = Inr reply)"
    using early_message_accepted [OF laws(1-4) b keys, of "[plain]" 0 "pr_ephemeral r" "pr_kem r" self S] by auto
  obtain m where ms: "ms = [m]" using E(3) by (auto simp: length_Suc_conv)
  have enc: "session_encrypt C S s plain = (Inr m, s')"
    using E(2) by (auto simp: ms split: prod.splits)
  have dh: "pb_identity_dh (served_bundle C b opk) = identity_dh_public C b"
    by (simp add: identity_dh_public_def)
  have "\<forall>new'' reply. x25519_public C new'' \<notin> x25519_public C ` {signed_prekey_secret b, pr_ratchet r, new'} \<longrightarrow>
      (\<exists>m' sb'. session_encrypt C S sb reply = (Inr m', sb') \<and> fst (session_decrypt C S new'' s' m') = Inr reply)"
    using E(6) by blast
  moreover have "session_respond C S new' b m = (Inr (sb, plain), spend opk b) \<and> ad_prefix sb = ad_prefix s'"
    using E(4,5) by (simp add: ms)
  moreover have "peer_compose C S M r self (served_bundle C b opk) plain =
      Inr (s', seal_envelope C (pr_seal r) self (identity_dh_public C b) (message_encode M m))"
    using E(1) enc dh by (simp add: peer_compose_def)
  ultimately show ?thesis
    using laws open_sealed [OF laws(2,3,5,1,6), of b "pr_seal r" self "message_encode M m"]
    by (intro exI [of _ s'] exI [of _ "seal_envelope C (pr_seal r) self (identity_dh_public C b) (message_encode M m)"]
        exI [of _ m]) auto
qed

text \<open>
  The whole path, for whatever account \<open>b\<close> the directory serves under the identity that was asked for: the message
  arrives in the inbox of that identity, and \<open>b\<close> reads it.
\<close>

lemma sent_message_read:
  fixes now :: u64
  assumes laws: "sig_ok C" "aead_ok C" "dh_ok C" "kem_ok C" "dh_len C" "aead_tag_len C" "hash_len C" "serde_ok M" "web_ok W"
    and b: "kyber_wf C (kyber b)" "offered C b opk"
    and keys: "distinct (map (x25519_public C) [signed_prekey_secret b, pr_ratchet r, new'])"
    and lim: "sane_limits (limits st)" "max_message_bytes (limits st) < 2 ^ 32"
    and time: "t \<le> t'" "t' \<le> t + mail_ttl_secs (limits st)"
    and F: "net_fetch_bundle W (loopback W base t) their_id st = (Inr (Some (served_bundle C b opk)), st1)" "limits st1 = limits st"
  defines "self \<equiv> generate_account C (pr_account r)" and "addr \<equiv> inbox_id C their_id (epoch_for_unix now)"
  shows "\<exists>s blob. peer_compose C S M r self (served_bundle C b opk) plain = Inr (s, blob) \<and>
    (postable W (limits st) addr blob \<longrightarrow>
      (\<exists>st' old env m sb.
        peer_send C S M W r (loopback W base t) their_id plain now st = (Inr (self, s), st') \<and>
        fst (relay_receive W (loopback W base t') st' addr) = Inr (old @ [blob]) \<and>
        open_envelope C b blob = Inr env \<and> sender_identity_ed env = identity_public C self \<and>
        message_decode M (payload env) = Inr m \<and>
        session_respond C S new' b m = (Inr (sb, plain), spend opk b)))"
proof -
  obtain s blob m sb where comp: "peer_compose C S M r self (served_bundle C b opk) plain = Inr (s, blob)"
    and blob: "blob = seal_envelope C (pr_seal r) self (identity_dh_public C b) (message_encode M m)"
    and opens: "length (message_encode M m) < 2 ^ 32 \<Longrightarrow> open_envelope C b blob = Inr \<lparr>sender_identity_ed = identity_public C self,
        sender_identity_dh = identity_dh_public C self, payload = message_encode M m\<rparr>"
    and resp: "session_respond C S new' b m = (Inr (sb, plain), spend opk b)"
    using composed_message_opens [OF laws(1-6,8) b keys] by metis
  have addr: "length addr = 32" using laws(7) by (simp add: addr_def inbox_id_def hash_len_def)
  have "\<exists>st' old. peer_send C S M W r (loopback W base t) their_id plain now st = (Inr (self, s), st') \<and>
      fst (relay_receive W (loopback W base t') st' addr) = Inr (old @ [blob])"
    if "postable W (limits st) addr blob"
    using posted_mail_arrives [OF laws(9) addr, of st1 blob t t' base] lim time that F(2)
    by (auto simp: peer_send_def F(1) comp self_def [symmetric] addr_def [symmetric])
  moreover have "length (message_encode M m) < 2 ^ 32" if "postable W (limits st) addr blob"
  proof -
    have "length (message_encode M m) \<le> length blob" unfolding blob by (rule sealed_longer [OF laws(5,6)])
    then show ?thesis using that lim(2) by (simp add: postable_def)
  qed
  ultimately show ?thesis using comp opens resp laws(8) by fastforce
qed

section \<open>A concrete message format, and the size of a first message in it\<close>

definition ratchet_header_fmt :: "ratchet_header fmt" where
  "ratchet_header_fmt = fmt_via (\<lambda>h. (rh_dh_pub h, rh_pn h, rh_n h))
     (\<lambda>(a, b, c). \<lparr>rh_dh_pub = a, rh_pn = b, rh_n = c\<rparr>) (fmt_pair fmt_bytes (fmt_pair fmt_u32 fmt_u32))"

definition message_fmt :: "message fmt" where
  "message_fmt = fmt_via
     (\<lambda>m. case m of PreKey hs h ct \<Rightarrow> Inl (hs, h, ct) | Normal h ct \<Rightarrow> Inr (h, ct))
     (\<lambda>y. case y of Inl (hs, h, ct) \<Rightarrow> PreKey hs h ct | Inr (h, ct) \<Rightarrow> Normal h ct)
     (fmt_sum (fmt_pair handshake_header_fmt (fmt_pair ratchet_header_fmt fmt_bytes)) (fmt_pair ratchet_header_fmt fmt_bytes))"

lemma message_fmt_ok: "fmt_ok message_fmt"
  unfolding message_fmt_def ratchet_header_fmt_def by (intro fmt_laws) (simp_all split: message.split)

lemma first_message_size:
  assumes laws: "sig_ok C" "kem_ok C" "dh_len C" "aead_tag_len C" and b: "kyber_wf C (kyber b)"
    and comp: "peer_compose C S M r self (served_bundle C b opk) plain = Inr (s, blob)"
  shows "\<exists>m. blob = seal_envelope C (pr_seal r) self (identity_dh_public C b) (message_encode M m) \<and>
    length (put message_fmt m) \<le> 3500 + 2 * length plain"
proof -
  obtain ct ss where K: "encapsulate C (pr_kem r) (public_bytes C (kyber b)) = Inr (ct, ss)" "length ct = 1568"
  proof -
    obtain ct ss where "encapsulate C (pr_kem r) (public_bytes C (kyber b)) = Inr (ct, ss)"
      "kyber_decapsulate C (kyber b) ct = Inr ss"
      using kyber_agree [OF laws(2) b] .
    then show ?thesis
      by (intro that [of ct ss]) (auto simp: kyber_decapsulate_def KYBER_CIPHERTEXT_LEN_def split: if_splits)
  qed
  obtain root hs where H: "handshake_initiate C (pr_ephemeral r) (pr_kem r) self (served_bundle C b opk) =
      Inr (root, hs, x25519_public C (signed_prekey_secret b))" and len: "length (hh_identity_ed hs) = 32"
      "length (hh_identity_dh hs) = 32" "length (hh_ephemeral_dh hs) = 32" "length (hh_kyber_ciphertext hs) = 1568"
    using laws(1,3) by (simp add: handshake_initiate_def K Let_def identity_ed_bytes_def identity_public_def sig_ok_def dh_len_def)
  obtain h cph where m: "blob = seal_envelope C (pr_seal r) self (identity_dh_public C b) (message_encode M (PreKey hs h cph))"
    "length (rh_dh_pub h) = 32" "length cph = length plain + 16"
    using comp initiate_starts [OF laws(1) H, of "pr_ratchet r"] laws(3,4)
    by (auto simp: peer_compose_def session_encrypt_def ratchet_encrypt_def init_initiator_def identity_dh_public_def
        dh_len_def length_aead_seal Let_def split: prod.splits)
  have "length (put message_fmt (PreKey hs h cph)) \<le> 3500 + 2 * length plain"
    by (simp add: message_fmt_def ratchet_header_fmt_def handshake_header_fmt_def fmt_size len m(2,3) split: option.split)
  then show ?thesis using m(1) by blast
qed

definition demo_peer :: peer_rng where
  "demo_peer = \<lparr>pr_account = demo_rng 7, pr_ephemeral = [20], pr_kem = [21], pr_ratchet = [22], pr_seal = [23],
     pr_draws = (\<lambda>k. [24, word_of_nat k])\<rparr>"

lemma demo_postable:
  assumes "length rcpt = 32" "length msg \<le> 10000"
  shows "postable demo_web default_limits rcpt msg"
proof -
  have "length (ser (wc_send demo_web) \<lparr>sr_recipient = b64 demo_web rcpt, sr_message = b64 demo_web msg\<rparr>) = 4 * length msg + 132"
    using assms(1) by (simp add: fmt_size demo_web_def [THEN arg_cong [where f = wc_send]])
  then show ?thesis using assms(2) by (simp add: postable_def default_limits_def MAX_BODY_BYTES_def)
qed

lemma demo_envelope_size:
  assumes "length pl \<le> 4000"
  shows "length (seal_envelope demo_crypto eph a q pl) \<le> 10000"
proof -
  have "bucket (length pl) \<le> 8192"
    using bucket_small [of "length pl"] bucket_pow2 [of "length pl"] assms by (cases "length pl + 4 \<le> 512") auto
  then show ?thesis
    using demo_aead_tag_len demo_dh_len by (simp add: seal_envelope_def Let_def length_aead_seal dh_len_def INNER_PREFIX_LEN_def)
qed

lemma demo_first_size:
  assumes "peer_compose demo_crypto S (serde_of message_fmt) r self (served_bundle demo_crypto (demo_account x) opk) plain = Inr (s, blob)"
    "length plain \<le> 100"
  shows "length blob \<le> 10000"
proof -
  obtain m where "blob = seal_envelope demo_crypto (pr_seal r) self (identity_dh_public demo_crypto (demo_account x))
      (message_encode (serde_of message_fmt) m)" "length (put message_fmt m) \<le> 3700"
    using first_message_size [OF demo_sig_ok demo_kem_ok demo_dh_len demo_aead_tag_len demo_account_wf assms(1)] assms(2) by fastforce
  then show ?thesis using demo_envelope_size by (simp add: message_encode_def serde_of_def)
qed

end
