(* ===== verification/Mesh_Delivery.thy ===== *)
theory Mesh_Delivery
  imports Mesh_Network Peer
begin

text \<open>
  A first message without any server: the sealed envelope of \<^verbatim>\<open>core/src/envelope.rs\<close> as the payload of a mesh frame
  (\<open>MeshTransport::send\<close>), flooded among the nodes in range until nothing new is heard, and read by its addressee. The
  mesh routes by the recipient's identity.
\<close>

text \<open>
  What a node knows of message \<open>x\<close>: any frame it carries for it is addressed and filled as sent, and if the node is the
  addressee and has seen it, the payload is in its inbox.
\<close>

definition knows :: "bytes \<Rightarrow> bytes \<Rightarrow> bytes \<Rightarrow> mesh_node \<Rightarrow> bool" where
  "knows x rcpt pl n \<longleftrightarrow> (\<forall>g. fmlookup (frame_store n) x = Some g \<longrightarrow> recipient g = rcpt \<and> fr_payload g = pl) \<and>
     (x |\<in>| seen n \<and> me n = rcpt \<longrightarrow> pl \<in> set (inbox n))"

lemma mark_seen_sub: "y |\<in>| seen (mark_seen i n) \<Longrightarrow> y = i \<or> y |\<in>| seen n"
  by (auto simp: mark_seen_def Let_def split: if_splits list.splits)

lemma store_frame_from:
  "fmlookup (frame_store (store_frame f n)) x = Some g \<Longrightarrow> g = f \<and> msg_id f = x \<or> fmlookup (frame_store n) x = Some g"
  by (auto simp: store_frame_def Let_def split: option.splits if_splits list.splits)

lemma accepted_knows:
  assumes "knows x rcpt pl n" "handle_incoming n g = (Accepted fm fwd, n')"
    and g: "msg_id g = x \<Longrightarrow> recipient g = rcpt \<and> fr_payload g = pl"
  shows "knows x rcpt pl n' \<and> me n' = me n"
proof -
  have new: "msg_id g |\<notin>| seen n" by (rule accepted_new [OF assms(2)])
  have n': "inbox n' = inbox n @ (if recipient g = me n then [fr_payload g] else [])" "me n' = me n"
    "seen n' = seen (mark_seen (msg_id g) n)"
    using handle_new [OF new] assms(2) by simp_all
  let ?g = "g\<lparr>ttl := saturating_sub (ttl g) 1\<rparr>"
  let ?m = "if recipient g = me n then (mark_seen (msg_id g) n)\<lparr>inbox := inbox n @ [fr_payload g]\<rparr> else mark_seen (msg_id g) n"
  have "frame_store ?m = frame_store n" "frame_store n' = frame_store (if fwd then store_frame ?g ?m else ?m)"
    using assms(2) by (auto simp: handle_incoming_def Let_def split: if_splits)
  then have "fmlookup (frame_store n) x = Some h \<or> h = ?g \<and> msg_id g = x" if "fmlookup (frame_store n') x = Some h" for h
    using that store_frame_from [of ?g ?m x h] by (cases fwd) auto
  then have "recipient h = rcpt \<and> fr_payload h = pl" if "fmlookup (frame_store n') x = Some h" for h
    using that g assms(1) by (fastforce simp: knows_def)
  moreover have "pl \<in> set (inbox n')" if "x |\<in>| seen n'" "me n' = rcpt"
    using that mark_seen_sub [of x "msg_id g" n] g assms(1) by (auto simp: n' knows_def)
  ultimately show ?thesis using n'(2) by (simp add: knows_def)
qed

lemma flood_step_knows:
  assumes "serde_ok S" "net_ok I ns" "flood_step S ns ns'" "\<forall>n\<in>set ns. knows x rcpt pl n"
  shows "(\<forall>n\<in>set ns'. knows x rcpt pl n) \<and> map me ns' = map me ns"
  using assms(3)
proof cases
  case (hear i j bs fm fwd n')
  have "node_wf (ns ! i)" using assms(2) hear(2) by (auto simp: net_ok_def)
  obtain g where g: "g \<in> set (outbound (ns ! i))" "\<And>m. ingest S m bs = (let (r, m') = handle_incoming m g in (Inr r, m'))"
    using ingest_offered [OF assms(1) hear(4)] by metis
  have "msg_id g = x \<Longrightarrow> recipient g = rcpt \<and> fr_payload g = pl"
    using outbound_mem [OF \<open>node_wf (ns ! i)\<close>] g(1) assms(4) hear(2) by (auto simp: knows_def)
  moreover have "handle_incoming (ns ! j) g = (Accepted fm fwd, n')" using hear(5) g(2) by (auto split: prod.splits)
  ultimately have n': "knows x rcpt pl n'" "me n' = me (ns ! j)"
    using accepted_knows [of x rcpt pl "ns ! j"] assms(4) hear(3) by auto
  have "map me (ns[j := n']) = map me ns" using n'(2) by (simp add: map_update) (metis list_update_id map_update)
  moreover have "\<forall>n\<in>set (ns[j := n']). knows x rcpt pl n"
    using assms(4) n'(1) set_update_subset_insert [of ns j n'] by blast
  ultimately show ?thesis by (simp add: hear(1))
qed

lemma flood_run_knows:
  assumes "serde_ok S" "net_ok I ns" "finite I" "card I \<le> SEEN_CAP" "(flood_step S ^^ k) ns ns'" "\<forall>n\<in>set ns. knows x rcpt pl n"
  shows "(\<forall>n\<in>set ns'. knows x rcpt pl n) \<and> map me ns' = map me ns"
  using assms(5)
proof (induction k arbitrary: ns')
  case (Suc k)
  then obtain m where m: "(flood_step S ^^ k) ns m" "flood_step S m ns'" by auto
  have "net_ok I m" using flood_run_progress [OF assms(1-4) m(1)] by simp
  then show ?case using flood_step_knows [OF assms(1) _ m(2)] Suc.IH [OF m(1)] by metis
qed (use assms(6) in simp)

text \<open>A sent message, once the flood is over.\<close>

lemma sent_payload_arrives:
  assumes "serde_ok S" "\<forall>n\<in>set ns. node_wf n" "x \<notin> ids_around ns" "i < length ns" "j < length ns"
    and "me (ns ! i) \<noteq> rcpt" "me (ns ! j) = rcpt"
    and start: "start = ns[i := snd (mesh_send x (ns ! i) rcpt pl)]"
    and cap: "card (ids_around start) \<le> SEEN_CAP" "card (ids_around start) \<le> STORE_CAP"
    and run: "(flood_step S ^^ k) start ns'" "\<nexists>ns''. flood_step S ns' ns''"
  shows "j < length ns' \<and> pl \<in> set (inbox (ns' ! j))"
proof -
  let ?f = "\<lparr>msg_id = x, recipient = rcpt, ttl = node_ttl (ns ! i), fr_payload = pl\<rparr>"
  let ?n = "store_frame ?f (mark_seen x (ns ! i))"
  have st: "start = ns[i := ?n]" by (simp add: start mesh_send_def originate_def Let_def)
  have wf_i: "node_wf (ns ! i)" using assms(2,4) by simp
  have wf: "\<forall>n\<in>set start. node_wf n"
    using assms(2) node_wf_originate [OF wf_i] set_update_subset_insert [of ns i ?n] unfolding st
    by (auto simp: originate_def Let_def)
  have "knows x rcpt pl n" if "n \<in> set ns" for n
    using assms(3) that by (auto simp: knows_def ids_around_def carried_def fmlookup_dom_iff)
  moreover have "knows x rcpt pl ?n"
    using store_frame_from [of ?f "mark_seen x (ns ! i)" x] assms(3,4,6) nth_mem [OF assms(4)]
    by (fastforce simp: knows_def ids_around_def carried_def fmlookup_dom_iff)
  ultimately have "\<forall>n\<in>set start. knows x rcpt pl n" using set_update_subset_insert [of ns i ?n] unfolding st by blast
  note K = flood_run_knows [OF assms(1) net_ok_ids [OF wf] finite_ids_around cap(1) run(1) this]
  have len: "length ns' = length ns" using K by (metis length_list_update length_map st)
  have "map me start = map me ns" unfolding st by (simp add: map_update) (metis list_update_id map_update)
  then have "me (ns' ! j) = rcpt" using K assms(5,7) len by (metis nth_map)
  moreover have "x \<in> carried ?n"
    using store_frame_lookup [OF node_wf_mark [OF wf_i], of ?f] by (simp add: carried_def fmlookup_dom_iff)
  then have "x \<in> fset (seen (ns' ! j))"
    using flood_reaches [OF assms(1) wf cap(1) run(1) cap(2) run(2), of ?n x "ns' ! j"] assms(4,5) len
    by (simp add: st set_update_memI)
  ultimately show ?thesis using K assms(5) len by (simp add: knows_def)
qed

section \<open>The property\<close>

text \<open>
  C29: a first message needs no server. A peer that holds the recipient's bundle seals its message and sends it over the
  mesh to the recipient's identity; when the nodes in range have heard each other until nothing new is accepted, in
  whatever order, and while their bounded memories suffice, the recipient takes the envelope out of its inbox, opens it,
  learns the true sender, and \<open>Session::respond\<close> returns exactly the text and spends exactly the one-time prekey offered.
\<close>

theorem mesh_message_arrives:
  assumes laws: "sig_ok C" "aead_ok C" "dh_ok C" "kem_ok C" "dh_len C" "aead_tag_len C" "serde_ok M" "serde_ok F"
    and b: "kyber_wf C (kyber b)" "offered C b opk"
    and keys: "distinct (map (x25519_public C) [signed_prekey_secret b, pr_ratchet r, new'])"
    and nodes: "\<forall>n\<in>set ns. node_wf n" "i < length ns" "j < length ns" "me (ns ! i) \<noteq> identity_public C b"
      "me (ns ! j) = identity_public C b" "x \<notin> ids_around ns"
    and first: "peer_compose C S M r self (served_bundle C b opk) plain = Inr (s, blob)" "length blob < 2 ^ 32"
      "start = ns[i := snd (mesh_send x (ns ! i) (identity_public C b) blob)]"
    and cap: "card (ids_around start) \<le> SEEN_CAP" "card (ids_around start) \<le> STORE_CAP"
    and run: "(flood_step F ^^ k) start ns'" "\<nexists>ns''. flood_step F ns' ns''"
  shows "\<exists>ps env m sb. fst (mesh_receive (ns' ! j) (identity_public C b)) = Inr ps \<and> blob \<in> set ps \<and>
    open_envelope C b blob = Inr env \<and> sender_identity_ed env = identity_public C self \<and>
    message_decode M (payload env) = Inr m \<and> session_respond C S new' b m = (Inr (sb, plain), spend opk b)"
proof -
  obtain m sb where blob: "blob = seal_envelope C (pr_seal r) self (identity_dh_public C b) (message_encode M m)"
    and opens: "length (message_encode M m) < 2 ^ 32 \<Longrightarrow> open_envelope C b blob = Inr \<lparr>sender_identity_ed = identity_public C self,
        sender_identity_dh = identity_dh_public C self, payload = message_encode M m\<rparr>"
    and resp: "message_decode M (message_encode M m) = Inr m" "session_respond C S new' b m = (Inr (sb, plain), spend opk b)"
    using composed_message_opens [OF laws(1-7) b keys, of S self plain] first(1) by auto
  have "length (message_encode M m) < 2 ^ 32"
    using sealed_longer [OF laws(5,6), of "message_encode M m" "pr_seal r" self "identity_dh_public C b"] first(2) by (simp add: blob)
  moreover have "blob \<in> set (inbox (ns' ! j))"
    using sent_payload_arrives [OF laws(8) nodes(1,6,2,3,4,5) first(3) cap run] by simp
  ultimately show ?thesis using opens resp by (auto simp: mesh_receive_def take_inbox_def)
qed

theorem mesh_message_arrives_witness:
  "\<exists>s blob k ns' ps m sb.
     peer_compose demo_crypto demo_header_serde (serde_of message_fmt) demo_peer (demo_account 7)
       (served_bundle demo_crypto (demo_account 8) demo_opk) [104, 105] = Inr (s, blob) \<and>
     (flood_step (serde_of mesh_frame_fmt) ^^ k)
       [snd (mesh_send [9] (new_node [1]) (identity_public demo_crypto (demo_account 8)) blob),
        new_node [2], new_node (identity_public demo_crypto (demo_account 8))] ns' \<and>
     fst (mesh_receive (ns' ! 2) (identity_public demo_crypto (demo_account 8))) = Inr ps \<and> blob \<in> set ps \<and>
     session_respond demo_crypto demo_header_serde [25] (demo_account 8) m = (Inr (sb, [104, 105]), spend demo_opk (demo_account 8))"
proof -
  let ?id = "identity_public demo_crypto (demo_account 8)" and ?F = "serde_of mesh_frame_fmt" and ?M = "serde_of message_fmt"
  let ?ns = "[new_node [1], new_node [2], new_node ?id]"
  note laws = demo_sig_ok demo_aead_ok demo_dh_ok demo_kem_ok demo_dh_len demo_aead_tag_len serde_of_ok [OF message_fmt_ok]
  have keys: "distinct (map (x25519_public demo_crypto) [signed_prekey_secret (demo_account 8), pr_ratchet demo_peer, [25]])"
    by (simp add: demo_account_def generate_with_prekeys_def demo_rng_def demo_crypto_def pad_to_def demo_peer_def)
  obtain s blob where comp: "peer_compose demo_crypto demo_header_serde ?M demo_peer (demo_account 7)
      (served_bundle demo_crypto (demo_account 8) demo_opk) [104, 105] = Inr (s, blob)"
    using composed_message_opens [OF laws demo_account_wf demo_offered keys, of demo_header_serde "demo_account 7" "[104, 105]"] by metis
  have "length blob \<le> 10000" by (rule demo_first_size [OF comp]) simp
  then have small: "length blob < 2 ^ 32" by simp
  let ?start = "?ns[0 := snd (mesh_send [9] (?ns ! 0) ?id blob)]"
  have F: "serde_ok ?F" by (rule serde_of_ok [OF mesh_frame_fmt_ok])
  have me: "me (new_node y) = y" for y by (simp add: new_node_def with_ttl_def)
  have "length ?id = 32" using demo_sig_ok by (simp add: sig_ok_def identity_public_def)
  then have id: "[1] \<noteq> ?id" by (auto dest: arg_cong [where f = length])
  have ids: "[9] \<notin> ids_around ?ns" "ids_around ?start = {[9]}"
    by (simp_all add: ids_around_def carried_def mesh_send_def originate_def new_node_def with_ttl_def mark_seen_def
        store_frame_def Let_def SEEN_CAP_def STORE_CAP_def)
  have cap: "card (ids_around ?start) \<le> SEEN_CAP" "card (ids_around ?start) \<le> STORE_CAP"
    unfolding ids(2) by (simp_all add: SEEN_CAP_def STORE_CAP_def)
  have wf: "\<forall>n\<in>set ?ns. node_wf n" "\<forall>n\<in>set ?start. node_wf n"
    using node_wf_originate [of "new_node [1]"] by (simp_all add: mesh_send_def new_node_def node_wf_new)
  obtain k ns' where run: "(flood_step ?F ^^ k) ?start ns'" "\<nexists>ns''. flood_step ?F ns' ns''"
    using flood_settles [OF F wf(2) cap(1)] by blast
  have "\<exists>ps env m sb. fst (mesh_receive (ns' ! 2) ?id) = Inr ps \<and> blob \<in> set ps \<and>
      open_envelope demo_crypto (demo_account 8) blob = Inr env \<and>
      sender_identity_ed env = identity_public demo_crypto (demo_account 7) \<and> message_decode ?M (payload env) = Inr m \<and>
      session_respond demo_crypto demo_header_serde [25] (demo_account 8) m = (Inr (sb, [104, 105]), spend demo_opk (demo_account 8))"
    by (rule mesh_message_arrives [OF laws F demo_account_wf demo_offered keys wf(1) _ _ _ _ ids(1) comp small refl cap run])
      (use id in \<open>simp_all add: me\<close>)
  moreover have "?start = [snd (mesh_send [9] (new_node [1]) ?id blob), new_node [2], new_node ?id]" by simp
  note run(1) [unfolded this]
  ultimately show ?thesis using comp by blast
qed

end
