(* ===== verification/Relay_Main.thy ===== *)
theory Relay_Main
  imports Relay_Server Safety
begin

text \<open>
  The relay binary of \<^verbatim>\<open>relay/src/main.rs\<close> and the server start-up of \<^verbatim>\<open>relay/src/server.rs\<close>
  (\<open>serve_with\<close>, \<open>serve_on_with\<close>): the command line, the opening of the store, the binding of the listening socket
  and the request loop over the requests that arrive. Arguments are Unicode strings, given by their characters'
  bytes. The listening socket is \<open>tiny_http\<close>'s and a parameter (\<open>bind\<close>); what the process prints on its error
  stream before exiting is part of the outcome.
\<close>

record relay_options =
  ro_addr :: string
  ro_state :: "string option"
  ro_limits :: store_limits
  ro_rate_limit :: u32

definition default_options :: relay_options where
  "default_options = \<lparr>ro_addr = ''0.0.0.0:8080'', ro_state = None, ro_limits = default_limits, ro_rate_limit = 240\<rparr>"

text \<open>\<open>exit(code)\<close> with the line printed before it.\<close>

type_synonym process_exit = "nat \<times> string"

definition expect_value :: "string \<Rightarrow> string option \<Rightarrow> process_exit + string" where
  "expect_value flag v = (case v of Some s \<Rightarrow> Inr s | None \<Rightarrow> Inl (2, flag @ '' requires a value''))"

text \<open>\<open>FromStr\<close> of the unsigned integer types: an optional plus sign, then digits, within the type's range.\<close>

definition digits_value :: "string \<Rightarrow> nat" where
  "digits_value ds = foldl (\<lambda>n c. 10 * n + (of_char c - 48)) 0 ds"

definition from_str :: "string \<Rightarrow> 'w::len word option" where
  "from_str s =
     (let ds = (case s of c # r \<Rightarrow> if c = CHR ''+'' then r else s | [] \<Rightarrow> [])
      in if ds = [] \<or> \<not> list_all is_digit ds then None
         else if digits_value ds < 2 ^ LENGTH('w) then Some (word_of_nat (digits_value ds)) else None)"

definition parse_value :: "string \<Rightarrow> string option \<Rightarrow> process_exit + 'w::len word" where
  "parse_value flag v =
     (case expect_value flag v of
        Inl e \<Rightarrow> Inl e
      | Inr s \<Rightarrow> (case from_str s of Some w \<Rightarrow> Inr w | None \<Rightarrow> Inl (2, flag @ '' requires a numeric value'')))"

definition next_arg :: "string list \<Rightarrow> string option" where
  "next_arg args = (case args of [] \<Rightarrow> None | a # _ \<Rightarrow> Some a)"

definition usage_line :: string where
  "usage_line = ''usage: clarity-relay [BIND_ADDR] [--state FILE] [--ttl-days N] [--rate-limit N]''"

text \<open>
  The loop over the arguments after the program's name. The seconds of \<open>--ttl-days\<close> are a \<open>u64\<close> product, which
  wraps in the release profile.
\<close>

fun parse_args :: "relay_options \<Rightarrow> string list \<Rightarrow> process_exit + relay_options" where
  "parse_args opts [] = Inr opts"
| "parse_args opts (arg # args) =
     (if arg = ''--state'' then
        (case expect_value arg (next_arg args) of
           Inl e \<Rightarrow> Inl e | Inr v \<Rightarrow> parse_args (opts\<lparr>ro_state := Some v\<rparr>) (tl args))
      else if arg = ''--ttl-days'' then
        (case parse_value arg (next_arg args) of
           Inl e \<Rightarrow> Inl e
         | Inr days \<Rightarrow>
             parse_args (opts\<lparr>ro_limits := (ro_limits opts)\<lparr>mail_ttl_secs := unat (days * 24 * 60 * 60 :: u64)\<rparr>\<rparr>)
               (tl args))
      else if arg = ''--rate-limit'' then
        (case parse_value arg (next_arg args) of
           Inl e \<Rightarrow> Inl e | Inr n \<Rightarrow> parse_args (opts\<lparr>ro_rate_limit := n\<rparr>) (tl args))
      else if arg = ''--help'' \<or> arg = ''-h'' then Inl (0, usage_line)
      else if take 2 arg = ''--'' then Inl (2, ''unknown flag: '' @ arg)
      else parse_args (opts\<lparr>ro_addr := arg\<rparr>) args)"

record serve_options =
  rate_limit_per_min :: "u32 option"

text \<open>The instants read while the process starts: opening the store, the limiter's start, the first sweep mark.\<close>

record boot_clock =
  bk_open :: int
  bk_limiter :: int
  bk_sweep :: int

text \<open>The request loop: each arriving request comes with the clock readings and the disk fault of its round.\<close>

type_synonym arrivals = "(io_fault \<times> clock \<times> http_request) list"

primrec serve_loop :: "web_codecs \<Rightarrow> snapshot serde \<Rightarrow> server \<Rightarrow> arrivals \<Rightarrow> http_response list \<times> server" where
  "serve_loop W S sv [] = ([], sv)"
| "serve_loop W S sv (r # rs) =
     (let (fault, ck, rq) = r;
          (rp, sv1) = serve_request W S fault ck sv rq;
          (rps, sv2) = serve_loop W S sv1 rs
      in (rp # rps, sv2))"

definition serve_on_with :: "web_codecs \<Rightarrow> snapshot serde \<Rightarrow> boot_clock \<Rightarrow> relay_store \<Rightarrow> disk \<Rightarrow> serve_options
    \<Rightarrow> arrivals \<Rightarrow> http_response list \<times> server" where
  "serve_on_with W S bk st d options rs =
     serve_loop W S \<lparr>sv_limiter = map_option (limiter_new (bk_limiter bk)) (rate_limit_per_min options),
       sv_last_sweep = bk_sweep bk, sv_store = st, sv_disk = d\<rparr> rs"

definition serve_with :: "web_codecs \<Rightarrow> snapshot serde \<Rightarrow> (string \<Rightarrow> string + unit) \<Rightarrow> boot_clock \<Rightarrow> relay_store \<Rightarrow> disk
    \<Rightarrow> string \<Rightarrow> serve_options \<Rightarrow> arrivals \<Rightarrow> string + http_response list \<times> server" where
  "serve_with W S bind bk st d addr options rs =
     (case bind addr of Inl e \<Rightarrow> Inl e | Inr _ \<Rightarrow> Inr (serve_on_with W S bk st d options rs))"

text \<open>\<open>serve\<close> and \<open>serve_on\<close>: the same without a rate limit.\<close>

definition serve_on :: "web_codecs \<Rightarrow> snapshot serde \<Rightarrow> boot_clock \<Rightarrow> relay_store \<Rightarrow> disk \<Rightarrow> arrivals
    \<Rightarrow> http_response list \<times> server" where
  "serve_on W S bk st d rs = serve_on_with W S bk st d \<lparr>rate_limit_per_min = None\<rparr> rs"

definition serve :: "web_codecs \<Rightarrow> snapshot serde \<Rightarrow> (string \<Rightarrow> string + unit) \<Rightarrow> boot_clock \<Rightarrow> relay_store \<Rightarrow> disk
    \<Rightarrow> string \<Rightarrow> arrivals \<Rightarrow> string + http_response list \<times> server" where
  "serve W S bind bk st d addr rs = serve_with W S bind bk st d addr \<lparr>rate_limit_per_min = None\<rparr> rs"

definition relay_main :: "web_codecs \<Rightarrow> snapshot serde \<Rightarrow> (string \<Rightarrow> string + unit) \<Rightarrow> boot_clock \<Rightarrow> disk \<Rightarrow> string list
    \<Rightarrow> arrivals \<Rightarrow> process_exit + http_response list \<times> server" where
  "relay_main W S bind bk d args rs =
     (case parse_args default_options args of
        Inl e \<Rightarrow> Inl e
      | Inr opts \<Rightarrow>
          (case (case ro_state opts of
                   Some path \<Rightarrow> store_open S (bk_open bk) path (ro_limits opts) (read_file d path)
                 | None \<Rightarrow> Inr (store_with_limits (ro_limits opts))) of
             Inl e \<Rightarrow> Inl (1, ''clarity-relay fatal error: '' @ e)
           | Inr st \<Rightarrow>
               (let options = \<lparr>rate_limit_per_min =
                      (if ro_rate_limit opts > 0 then Some (ro_rate_limit opts) else None)\<rparr>
                in case serve_with W S bind bk st d (ro_addr opts) options rs of
                     Inl e \<Rightarrow> Inl (1, ''clarity-relay fatal error: '' @ e)
                   | Inr served \<Rightarrow> Inr served)))"

text \<open>A written command line: any sequence of settings, in any order, the later ones overriding.\<close>

datatype setting = BindAddr string | StateFile string | TtlDays nat | RateLimit nat

fun render :: "setting \<Rightarrow> string list" where
  "render (BindAddr a) = [a]"
| "render (StateFile p) = [''--state'', p]"
| "render (TtlDays n) = [''--ttl-days'', show_nat n]"
| "render (RateLimit n) = [''--rate-limit'', show_nat n]"

fun setting_ok :: "setting \<Rightarrow> bool" where
  "setting_ok (BindAddr a) \<longleftrightarrow> take 2 a \<noteq> ''--'' \<and> a \<noteq> ''-h''"
| "setting_ok (StateFile p) \<longleftrightarrow> True"
| "setting_ok (TtlDays n) \<longleftrightarrow> n * 86400 < 2 ^ 64"
| "setting_ok (RateLimit n) \<longleftrightarrow> n < 2 ^ 32"

fun apply_setting :: "setting \<Rightarrow> relay_options \<Rightarrow> relay_options" where
  "apply_setting (BindAddr a) opts = opts\<lparr>ro_addr := a\<rparr>"
| "apply_setting (StateFile p) opts = opts\<lparr>ro_state := Some p\<rparr>"
| "apply_setting (TtlDays n) opts = opts\<lparr>ro_limits := (ro_limits opts)\<lparr>mail_ttl_secs := n * 86400\<rparr>\<rparr>"
| "apply_setting (RateLimit n) opts = opts\<lparr>ro_rate_limit := word_of_nat n\<rparr>"

text \<open>Several lives of the relay on one disk: each starts from what the one before left.\<close>

type_synonym life = "boot_clock \<times> string list \<times> arrivals"

primrec relay_lives :: "web_codecs \<Rightarrow> snapshot serde \<Rightarrow> (string \<Rightarrow> string + unit) \<Rightarrow> disk \<Rightarrow> life list \<Rightarrow> disk" where
  "relay_lives W S bind d [] = d"
| "relay_lives W S bind d (x # xs) =
     (let (bk, args, rs) = x
      in relay_lives W S bind
           (case relay_main W S bind bk d args rs of Inl _ \<Rightarrow> d | Inr (_, sv) \<Rightarrow> sv_disk sv) xs)"

text \<open>The command lines that keep their state at \<open>path\<close>, or do not start the relay.\<close>

definition keeps_state_at :: "string \<Rightarrow> string list \<Rightarrow> bool" where
  "keeps_state_at path args \<longleftrightarrow>
     (case parse_args default_options args of Inl _ \<Rightarrow> True | Inr opts \<Rightarrow> ro_state opts = Some path)"

text \<open>Decimal numerals read back.\<close>

lemma digits_value_snoc: "digits_value (ds @ [c]) = 10 * digits_value ds + (of_char c - 48)"
  by (simp add: digits_value_def)

lemma digit_char_value: "d < 10 \<Longrightarrow> of_char (digit_char d) - 48 = d"
  by (simp add: digit_char_def of_char_of)

lemma digits_value_show: "digits_value (show_nat n) = n"
proof (induction n rule: show_nat.induct)
  case (1 n)
  have one: "digits_value [c] = of_char c - 48" for c by (simp add: digits_value_def)
  show ?case
  proof (cases "n < 10")
    case True
    then show ?thesis by (simp add: show_nat.simps [of n] one digit_char_value)
  next
    case False
    then show ?thesis using 1 by (simp add: show_nat.simps [of n] digits_value_snoc digit_char_value)
  qed
qed

lemma show_nat_not_empty: "show_nat n \<noteq> []"
  by (simp add: show_nat.simps [of n])

lemma from_str_show: "n < 2 ^ LENGTH('w) \<Longrightarrow> from_str (show_nat n) = Some (word_of_nat n :: 'w::len word)"
proof -
  assume n: "n < 2 ^ LENGTH('w)"
  obtain c r where cr: "show_nat n = c # r" using show_nat_not_empty by (cases "show_nat n") auto
  have "is_digit c" using show_nat_digits [of n] by (simp add: cr)
  then have "c \<noteq> CHR ''+''" by (auto simp: is_digit_def)
  then show ?thesis using n show_nat_digits [of n] digits_value_show [of n] by (simp add: from_str_def cr)
qed

lemma parse_value_show:
  "n < 2 ^ LENGTH('w) \<Longrightarrow> parse_value flag (Some (show_nat n)) = Inr (word_of_nat n :: 'w::len word)"
  by (simp add: parse_value_def expect_value_def from_str_show)

lemma ttl_seconds: "n * 86400 < 2 ^ 64 \<Longrightarrow> unat (word_of_nat n * 24 * 60 * 60 :: u64) = n * 86400"
proof -
  assume n: "n * 86400 < 2 ^ 64"
  have "(word_of_nat n * 24 * 60 * 60 :: u64) = word_of_nat (n * 86400)" by simp
  then show ?thesis using n by (simp only: unat_of_nat) (simp add: take_bit_nat_eq_self)
qed

lemma parse_setting:
  "setting_ok s \<Longrightarrow> parse_args opts (render s @ args) = parse_args (apply_setting s opts) args"
proof (cases s)
  case (BindAddr a)
  assume "setting_ok s"
  then have "take 2 a \<noteq> ''--''" "a \<noteq> ''-h''" by (simp_all add: BindAddr)
  moreover from this(1) have "a \<noteq> ''--state''" "a \<noteq> ''--ttl-days''" "a \<noteq> ''--rate-limit''" "a \<noteq> ''--help''"
    by auto
  ultimately show ?thesis by (simp add: BindAddr)
next
  case (TtlDays n)
  assume "setting_ok s"
  then have n: "n * 86400 < 2 ^ 64" by (simp only: TtlDays setting_ok.simps)
  then have "n < 2 ^ LENGTH(64)" by simp
  then show ?thesis
    by (simp add: TtlDays next_arg_def parse_value_show [where 'w = 64] ttl_seconds [OF n, simplified])
qed (simp_all add: next_arg_def expect_value_def parse_value_show [where 'w = 32])

lemma parse_settings:
  "\<forall>s\<in>set ss. setting_ok s \<Longrightarrow>
   parse_args opts (concat (map render ss) @ args) = parse_args (fold apply_setting ss opts) args"
  by (induction ss arbitrary: opts) (simp_all add: parse_setting)

text \<open>The mailbox caps are not on the command line.\<close>

lemma parse_args_caps:
  "parse_args opts args = Inr opts' \<Longrightarrow> inner_ok (ro_limits opts') = inner_ok (ro_limits opts)"
  by (induction opts args rule: parse_args.induct)
    (auto simp: inner_ok_def mailbox_ok_def fun_eq_iff split: if_splits sum.splits)

text \<open>Every round of the request loop keeps the store and the disk in step.\<close>

lemma handle_publish_inv: "relay_inv S path l st d \<Longrightarrow> relay_inv S path l (snd (handle_publish W st rq)) d"
  by (auto simp: handle_publish_def relay_inv_ops split: sum.splits)

lemma handle_bundle_inv: "relay_inv S path l st d \<Longrightarrow> relay_inv S path l (snd (handle_bundle W st q)) d"
  using relay_inv_fetch [of S path l st d] by (auto simp: handle_bundle_def split: option.splits prod.splits) (metis snd_conv)+

lemma handle_send_inv: "relay_inv S path l st d \<Longrightarrow> relay_inv S path l (snd (handle_send W st now rq)) d"
  using relay_inv_enqueue [of S path l st d]
  by (auto simp: handle_send_def split: sum.splits prod.splits store_error.splits) (metis snd_conv)+

lemma handle_poll_inv: "relay_inv S path l st d \<Longrightarrow> relay_inv S path l (snd (handle_poll W st now q)) d"
  using relay_inv_poll [of S path l st d]
  by (auto simp: handle_poll_def Let_def split: option.splits prod.splits) (metis snd_conv)+

lemmas handler_inv = handle_publish_inv handle_bundle_inv handle_send_inv handle_poll_inv

lemma handle_inv:
  assumes "relay_inv S path l st d"
  shows "relay_inv S path l (snd (handle W st now rq)) d"
proof -
  obtain path' q where u: "split_first CHR ''?'' (rq_url rq) = (path', q)" by (metis surj_pair)
  obtain r1 st1 where p: "handle_publish W st rq = (r1, st1)" by (metis surj_pair)
  obtain r2 st2 where s: "handle_send W st now rq = (r2, st2)" by (metis surj_pair)
  have "relay_inv S path l st1 d" "relay_inv S path l st2 d"
    using handle_publish_inv [OF assms, of W rq] handle_send_inv [OF assms, of W now rq] by (simp_all add: p s)
  then show ?thesis
    by (simp add: handle_def u p s Let_def handler_inv [OF assms] assms split: sum.split)
qed

lemma after_request_inv:
  assumes "relay_inv S path l (sv_store sv) (sv_disk sv)" "with_extension_tmp path \<noteq> path"
  shows "relay_inv S path l (sv_store (after_request S fault ck sv)) (sv_disk (after_request S fault ck sv))"
  using assms relay_inv_flush [OF _ assms(2)] relay_inv_sweep [OF assms(1)]
  by (auto simp: after_request_def Let_def split: prod.splits) blast+

lemma serve_request_inv:
  assumes "relay_inv S path l (sv_store sv) (sv_disk sv)" "with_extension_tmp path \<noteq> path"
    "serve_request W S fault ck sv rq = (rp, sv')"
  shows "relay_inv S path l (sv_store sv') (sv_disk sv')"
  using assms handle_inv [OF assms(1), of W "ck_unix ck" rq]
  by (auto simp: serve_request_def Let_def split: prod.splits option.splits if_splits intro!: after_request_inv)

lemma serve_loop_inv:
  assumes "with_extension_tmp path \<noteq> path" "relay_inv S path l (sv_store sv) (sv_disk sv)"
    "serve_loop W S sv rs = (rps, sv')"
  shows "length rps = length rs \<and> relay_inv S path l (sv_store sv') (sv_disk sv')"
  using assms(2,3)
proof (induction rs arbitrary: sv rps)
  case (Cons r rs)
  then show ?case using serve_request_inv [OF Cons.prems(1) assms(1)]
    by (fastforce simp: Let_def split: prod.splits)
qed simp

text \<open>A disk from which the relay can be started.\<close>

definition disk_ok :: "snapshot serde \<Rightarrow> string \<Rightarrow> disk \<Rightarrow> bool" where
  "disk_ok S path d \<longleftrightarrow> (\<exists>inner. disk_inner S path d inner \<and> inner_ok default_limits inner)"

lemma disk_ok_empty: "fmlookup d path = None \<Longrightarrow> disk_ok S path d"
  by (simp add: disk_ok_def disk_inner_def inner_ok_def inner_default_def)

lemma parsed_limits: "parse_args default_options args = Inr opts \<Longrightarrow> inner_ok (ro_limits opts) = inner_ok default_limits"
  using parse_args_caps [of default_options args opts] by (simp add: default_options_def)

lemma relay_inv_disk_ok: "relay_inv S path l st d \<Longrightarrow> inner_ok l = inner_ok default_limits \<Longrightarrow> disk_ok S path d"
  by (auto simp: relay_inv_def disk_ok_def)

lemma relay_main_inv:
  assumes S: "serde_ok S" and tmp: "with_extension_tmp path \<noteq> path" and d: "disk_ok S path d"
    and p: "parse_args default_options args = Inr opts" "ro_state opts = Some path" and b: "bind (ro_addr opts) = Inr u"
  shows "\<exists>rps sv. relay_main W S bind bk d args rs = Inr (rps, sv) \<and> length rps = length rs \<and>
    relay_inv S path (ro_limits opts) (sv_store sv) (sv_disk sv)"
proof -
  obtain inner where i: "disk_inner S path d inner" "inner_ok (ro_limits opts) inner"
    using d parsed_limits [OF p(1)] by (auto simp: disk_ok_def)
  note op = open_disk [OF S i(1), of "bk_open bk" "ro_limits opts"]
  note inv = relay_inv_open [OF S i op]
  let ?st = "\<lparr>rs_inner = inner, limits = ro_limits opts, persistence_of =
    Some \<lparr>state_path = path, dirty = False, last_flush = bk_open bk\<rparr>\<rparr>"
  let ?o = "\<lparr>rate_limit_per_min = if ro_rate_limit opts > 0 then Some (ro_rate_limit opts) else None\<rparr>"
  obtain rps sv where served: "serve_on_with W S bk ?st d ?o rs = (rps, sv)" by (metis surj_pair)
  have "relay_main W S bind bk d args rs = Inr (rps, sv)"
    unfolding relay_main_def by (simp only: p op serve_with_def b Let_def served sum.case option.case)
  moreover have "length rps = length rs \<and> relay_inv S path (ro_limits opts) (sv_store sv) (sv_disk sv)"
    by (rule serve_loop_inv [OF tmp _ served [unfolded serve_on_with_def]]) (simp add: inv)
  ultimately show ?thesis by blast
qed

lemma relay_main_disk_ok:
  assumes "serde_ok S" "with_extension_tmp path \<noteq> path" "disk_ok S path d" "keeps_state_at path args"
    "relay_main W S bind bk d args rs = Inr (rps, sv)"
  shows "disk_ok S path (sv_disk sv)"
proof -
  obtain opts u where p: "parse_args default_options args = Inr opts" "bind (ro_addr opts) = Inr u"
    using assms(5) by (auto simp: relay_main_def serve_with_def Let_def split: sum.splits)
  then have "ro_state opts = Some path" using assms(4) by (simp add: keeps_state_at_def)
  from relay_main_inv [where bind = bind, OF assms(1-3) p(1) this p(2), of W bk rs] assms(5)
  show ?thesis using relay_inv_disk_ok parsed_limits [OF p(1)] by auto
qed

lemma relay_lives_disk_ok:
  assumes "serde_ok S" "with_extension_tmp path \<noteq> path"
  shows "disk_ok S path d \<Longrightarrow> \<forall>(bk, args, rs)\<in>set xs. keeps_state_at path args \<Longrightarrow>
    disk_ok S path (relay_lives W S bind d xs)"
proof (induction xs arbitrary: d)
  case (Cons x xs)
  obtain bk args rs where x: "x = (bk, args, rs)" by (metis prod_cases3)
  have "disk_ok S path (case relay_main W S bind bk d args rs of Inl _ \<Rightarrow> d | Inr (_, sv) \<Rightarrow> sv_disk sv)"
    using relay_main_disk_ok [OF assms Cons.prems(1)] Cons.prems by (auto simp: x split: sum.splits)
  then show ?case using Cons by (simp add: x)
qed simp

text \<open>
  C12: the relay always comes back. However often it was started before with its state kept at \<open>path\<close> (other options
  may differ from start to start, some starts may fail), whatever requests it served and whichever snapshot writes
  failed, a start whose command line parses, keeps its state at \<open>path\<close> and finds its address free does not exit: it
  opens the state file, answers each request, and keeps every mailbox within the default caps; when no change is
  pending at the end, the state file holds exactly the directory and the mail of that moment.
\<close>

theorem relay_always_restarts:
  assumes "serde_ok S" "with_extension_tmp path \<noteq> path" "fmlookup d path = None"
    and "\<forall>(bk, args, rs)\<in>set lives. keeps_state_at path args"
    and "parse_args default_options args = Inr opts" "ro_state opts = Some path" "bind (ro_addr opts) = Inr ()"
  shows "\<exists>rps sv. relay_main W S bind bk (relay_lives W S bind d lives) args rs = Inr (rps, sv) \<and>
    length rps = length rs \<and> inner_ok default_limits (rs_inner (sv_store sv)) \<and>
    (\<exists>p inner. persistence_of (sv_store sv) = Some p \<and> disk_inner S path (sv_disk sv) inner \<and>
       (dirty p \<or> inner_equiv inner (rs_inner (sv_store sv))))"
proof -
  have "disk_ok S path (relay_lives W S bind d lives)"
    by (rule relay_lives_disk_ok [OF assms(1,2) disk_ok_empty [OF assms(3)] assms(4)])
  from relay_main_inv [where bind = bind, OF assms(1,2) this assms(5,6,7), of W bk rs]
  show ?thesis using parsed_limits [OF assms(5)] unfolding relay_inv_def by fastforce
qed

theorem relay_always_restarts_witness:
  "\<exists>rps sv. relay_main demo_web (serde_of snapshot_fmt) (\<lambda>_. Inr ()) \<lparr>bk_open = 5, bk_limiter = 5, bk_sweep = 5\<rparr>
     (relay_lives demo_web (serde_of snapshot_fmt) (\<lambda>_. Inr ()) fmempty
        [(\<lparr>bk_open = 0, bk_limiter = 0, bk_sweep = 0\<rparr>, [''--state'', ''relay.bin''], [])])
     [''--state'', ''relay.bin''] [] = Inr (rps, sv) \<and> length rps = 0"
proof -
  have p: "parse_args default_options [''--state'', ''relay.bin''] = Inr (default_options\<lparr>ro_state := Some ''relay.bin''\<rparr>)"
    by (simp add: next_arg_def expect_value_def)
  have "with_extension_tmp ''relay.bin'' \<noteq> ''relay.bin''" by code_simp
  then show ?thesis
    using relay_always_restarts [where S = "serde_of snapshot_fmt" and path = "''relay.bin''" and d = fmempty
        and lives = "[(\<lparr>bk_open = 0, bk_limiter = 0, bk_sweep = 0\<rparr>, [''--state'', ''relay.bin''], [])]"
        and bind = "\<lambda>_. Inr ()" and W = demo_web and rs = "[]" and bk = "\<lparr>bk_open = 5, bk_limiter = 5, bk_sweep = 5\<rparr>",
        OF serde_of_ok [OF snapshot_fmt_ok] _ _ _ p]
    by (auto simp: keeps_state_at_def next_arg_def expect_value_def)
qed

text \<open>
  The command line means what it says. Any sequence of settings, written out with decimal numbers, is parsed into
  the options that apply the settings one after the other to the defaults, so that a later one replaces an earlier
  one; the number of days must be small enough for its seconds to fit in 64 bits and the rate in 32, and an address
  must not look like a flag.
\<close>

lemma command_line_roundtrip:
  assumes "\<forall>s\<in>set ss. setting_ok s"
  shows "parse_args default_options (concat (map render ss)) = Inr (fold apply_setting ss default_options)"
  using parse_settings [OF assms, of default_options "[]"] by simp

end
