(* ===== verification/Relay_Spec.thy ===== *)
theory Relay_Spec
  imports Relay_Main
begin

text \<open>
  What the relay promises its users, as an abstract service, and the proof that the store of
  \<^verbatim>\<open>relay/src/store.rs\<close> and the server of \<^verbatim>\<open>relay/src/server.rs\<close> keep the promise. The service is a directory of keys and
  a mailbox per address, both total functions: it never sweeps, never writes a file, and expires mail only when it is
  collected. Sweeping and flushing are housekeeping events of the implementation that the service does not have.
\<close>

record relay_spec =
  sp_dir :: "bytes \<Rightarrow> stored_keys option"
  sp_mail :: "bytes \<Rightarrow> queued_message list"

datatype relay_op =
    Publish_Keys prekey_bundle "(u32 \<times> bytes) list" | Fetch_Keys bytes | Count_Keys bytes
  | Deposit bytes bytes | Collect bytes

datatype relay_out =
    Accepted_Keys | Keys "prekey_bundle option" | Count nat | Posted "store_error + unit" | Mail "bytes list"

text \<open>The newest messages that fit a mailbox: the longest suffix within the caps.\<close>

primrec newest :: "store_limits \<Rightarrow> queued_message list \<Rightarrow> queued_message list" where
  "newest l [] = []"
| "newest l (m # q) = (if mailbox_ok l (m # q) then m # q else newest l q)"

text \<open>The abstract service.\<close>

fun spec_step :: "store_limits \<Rightarrow> nat \<Rightarrow> relay_op \<Rightarrow> relay_spec \<Rightarrow> relay_out \<times> relay_spec" where
  "spec_step l now (Publish_Keys b otps) sp =
     (Accepted_Keys, sp\<lparr>sp_dir := (sp_dir sp)(pb_identity_ed b \<mapsto>
        \<lparr>base_bundle = b\<lparr>pb_one_time_prekey := None, pb_one_time_prekey_id := None\<rparr>, one_time = otps\<rparr>)\<rparr>)"
| "spec_step l now (Fetch_Keys i) sp =
     (case sp_dir sp i of
        None \<Rightarrow> (Keys None, sp)
      | Some sk \<Rightarrow> (case one_time sk of
          [] \<Rightarrow> (Keys (Some (base_bundle sk)), sp)
        | (k, pub) # rest \<Rightarrow>
            (Keys (Some ((base_bundle sk)\<lparr>pb_one_time_prekey := Some pub, pb_one_time_prekey_id := Some k\<rparr>)),
             sp\<lparr>sp_dir := (sp_dir sp)(i \<mapsto> sk\<lparr>one_time := rest\<rparr>)\<rparr>)))"
| "spec_step l now (Count_Keys i) sp = (Count (case sp_dir sp i of None \<Rightarrow> 0 | Some sk \<Rightarrow> length (one_time sk)), sp)"
| "spec_step l now (Deposit r m) sp =
     (if length m > max_message_bytes l then (Posted (Inl MessageTooLarge), sp)
      else (Posted (Inr ()), sp\<lparr>sp_mail := (sp_mail sp)(r :=
        newest l (sp_mail sp r @ [\<lparr>enqueued_at = now, qm_bytes = m\<rparr>]))\<rparr>))"
| "spec_step l now (Collect r) sp =
     (Mail (map qm_bytes (live_mail (now - mail_ttl_secs l) (sp_mail sp r))), sp\<lparr>sp_mail := (sp_mail sp)(r := [])\<rparr>)"

text \<open>The same operations on the store.\<close>

fun store_step :: "nat \<Rightarrow> relay_op \<Rightarrow> relay_store \<Rightarrow> relay_out \<times> relay_store" where
  "store_step now (Publish_Keys b otps) st = (Accepted_Keys, publish st b otps)"
| "store_step now (Fetch_Keys i) st = (let (b, st') = fetch_bundle st i in (Keys b, st'))"
| "store_step now (Count_Keys i) st = (Count (one_time_remaining st i), st)"
| "store_step now (Deposit r m) st = (let (res, st') = enqueue_at st r m now in (Posted res, st'))"
| "store_step now (Collect r) st = (let (ms, st') = poll_at st r now in (Mail ms, st'))"

text \<open>Housekeeping: a sweep, or an attempt to write a snapshot with whatever outcome.\<close>

datatype chore = Sweep | Flush "snapshot serde" io_fault int int disk

fun store_tidy :: "nat \<Rightarrow> chore \<Rightarrow> relay_store \<Rightarrow> relay_store" where
  "store_tidy now Sweep st = snd (sweep_expired_at st now)"
| "store_tidy now (Flush S fault t t' d) st = fst (snd (maybe_flush S fault t t' st d))"

datatype ('r, 'k) event = Request (event_time: nat) 'r | Housekeeping (event_time: nat) 'k

text \<open>A run of a service over requests and housekeeping, with the outputs of the requests.\<close>

primrec service_run :: "(nat \<Rightarrow> 'r \<Rightarrow> 's \<Rightarrow> 'o \<times> 's) \<Rightarrow> (nat \<Rightarrow> 'k \<Rightarrow> 's \<Rightarrow> 's) \<Rightarrow> ('r, 'k) event list \<Rightarrow> 's \<Rightarrow> 'o list" where
  "service_run step tidy [] s = []"
| "service_run step tidy (e # es) s =
     (case e of
        Request t r \<Rightarrow> (let (out, s') = step t r s in out # service_run step tidy es s')
      | Housekeeping t k \<Rightarrow> service_run step tidy es (tidy t k s))"

definition in_order :: "nat \<Rightarrow> ('r, 'k) event list \<Rightarrow> bool" where
  "in_order t es \<longleftrightarrow> sorted (t # map event_time es)"

text \<open>The users' view of a store.\<close>

definition spec_of :: "relay_store \<Rightarrow> relay_spec" where
  "spec_of st = \<lparr>sp_dir = fmlookup (dir_keys (rs_inner st)), sp_mail = mailbox st\<rparr>"

text \<open>
  A store presents a view at time \<open>t\<close>: the directories agree, and each mailbox lacks at most some mail at the front that
  has expired by then; what it holds is in order of arrival.
\<close>

definition dated :: "nat \<Rightarrow> queued_message list \<Rightarrow> bool" where
  "dated t q \<longleftrightarrow> sorted (map enqueued_at q) \<and> (\<forall>m\<in>set q. enqueued_at m \<le> t)"

definition expired_by :: "nat \<Rightarrow> queued_message list \<Rightarrow> bool" where
  "expired_by cutoff q \<longleftrightarrow> (\<forall>m\<in>set q. enqueued_at m < cutoff)"

definition mail_view :: "store_limits \<Rightarrow> nat \<Rightarrow> queued_message list \<Rightarrow> queued_message list \<Rightarrow> bool" where
  "mail_view l t q v \<longleftrightarrow> dated t q \<and> (\<exists>old. v = old @ q \<and> expired_by (t - mail_ttl_secs l) old)"

definition store_view :: "store_limits \<Rightarrow> nat \<Rightarrow> relay_store \<Rightarrow> relay_spec \<Rightarrow> bool" where
  "store_view l t st sp \<longleftrightarrow> limits st = l \<and> sp_dir sp = fmlookup (dir_keys (rs_inner st)) \<and>
     (\<forall>r. mail_view l t (mailbox st r) (sp_mail sp r))"

text \<open>
  The request loop without its housekeeping: the rate limiter and the handlers on a store that is never swept and never
  written out.
\<close>

definition admit :: "rate_limiter option \<Rightarrow> clock \<Rightarrow> http_request \<Rightarrow> bool \<times> rate_limiter option" where
  "admit lim ck rq =
     (case (lim, rq_remote rq) of
        (Some rl, Some ip) \<Rightarrow> (let (ok, rl') = allow rl (ck_limit ck) ip in (ok, Some rl'))
      | _ \<Rightarrow> (True, lim))"

primrec plain_loop :: "web_codecs \<Rightarrow> rate_limiter option \<Rightarrow> relay_store \<Rightarrow> arrivals \<Rightarrow> http_response list" where
  "plain_loop W lim st [] = []"
| "plain_loop W lim st (r # rs) =
     (let (fault, ck, rq) = r; (ok, lim') = admit lim ck rq
      in if \<not> ok then respond_text 429 ''rate limited'' # plain_loop W lim' st rs
         else let (rp, st') = handle W st (ck_unix ck) rq in rp # plain_loop W lim' st' rs)"

text \<open>The unix clock does not run backwards from \<open>t\<close> on.\<close>

primrec clocks_in_order :: "nat \<Rightarrow> arrivals \<Rightarrow> bool" where
  "clocks_in_order t [] = True"
| "clocks_in_order t (r # rs) =
     (let (fault, ck, rq) = r
      in t \<le> ck_unix ck \<and> ck_unix ck \<le> ck_sweep_unix ck \<and> clocks_in_order (ck_sweep_unix ck) rs)"

text \<open>A store and one that is never swept, as their users see them.\<close>

definition alike :: "store_limits \<Rightarrow> nat \<Rightarrow> relay_store \<Rightarrow> relay_store \<Rightarrow> bool" where
  "alike l t c a \<longleftrightarrow> limits a = l \<and> store_view l t c (spec_of a)"

section \<open>Services with housekeeping\<close>

locale service_refinement =
  fixes cstep :: "nat \<Rightarrow> 'r \<Rightarrow> 'c \<Rightarrow> 'o \<times> 'c"
    and astep :: "nat \<Rightarrow> 'r \<Rightarrow> 'a \<Rightarrow> 'o \<times> 'a"
    and tidy :: "nat \<Rightarrow> 'k \<Rightarrow> 'c \<Rightarrow> 'c"
    and view :: "nat \<Rightarrow> 'c \<Rightarrow> 'a \<Rightarrow> bool"
  assumes step_output: "view t c a \<Longrightarrow> t \<le> u \<Longrightarrow> fst (cstep u r c) = fst (astep u r a)"
    and step_view: "view t c a \<Longrightarrow> t \<le> u \<Longrightarrow> view u (snd (cstep u r c)) (snd (astep u r a))"
    and tidy_view: "view t c a \<Longrightarrow> t \<le> u \<Longrightarrow> view u (tidy u k c) a"
begin

lemma run_refines:
  "view t c a \<Longrightarrow> in_order t es \<Longrightarrow>
   service_run cstep tidy es c = service_run astep (\<lambda>t k s. s) es a"
proof (induction es arbitrary: t c a)
  case (Cons e es)
  show ?case
  proof (cases e)
    case (Request u r)
    then have u: "t \<le> u" "in_order u es" using Cons.prems(2) by (auto simp: in_order_def)
    obtain out c' where c': "cstep u r c = (out, c')" by fastforce
    obtain a' where a': "astep u r a = (out, a')"
      using step_output [OF Cons.prems(1) u(1), of r] c' by (metis fst_conv surj_pair)
    have "view u c' a'" using step_view [OF Cons.prems(1) u(1), of r] by (simp add: c' a')
    then show ?thesis using Cons.IH u(2) by (simp add: Request c' a')
  next
    case (Housekeeping u k)
    then have u: "t \<le> u" "in_order u es" using Cons.prems(2) by (auto simp: in_order_def)
    then show ?thesis using Cons.IH tidy_view [OF Cons.prems(1) u(1), of k] by (simp add: Housekeeping)
  qed
qed simp

end

section \<open>Mailboxes and their views\<close>

lemma newest_drop: "(\<forall>j<k. \<not> mailbox_ok l (drop j q)) \<Longrightarrow> mailbox_ok l (drop k q) \<Longrightarrow> newest l q = drop k q"
proof (induction q arbitrary: k)
  case (Cons m q)
  show ?case
  proof (cases k)
    case 0
    then show ?thesis using Cons.prems(2) by simp
  next
    case (Suc j)
    have "\<not> mailbox_ok l (m # q)" using Cons.prems(1) Suc by (metis drop0 zero_less_Suc)
    moreover have "newest l q = drop j q" using Cons Suc by (intro Cons.IH) force+
    ultimately show ?thesis by (simp add: Suc)
  qed
qed simp

lemma mailbox_ok_append: "mailbox_ok l (p @ q) \<Longrightarrow> mailbox_ok l q"
  by (auto simp: mailbox_ok_def)

lemma newest_fits: "mailbox_ok l q \<Longrightarrow> newest l q = q"
  by (cases q) simp_all

lemma newest_suffix: "\<exists>p. q = p @ newest l q"
proof (induction q)
  case (Cons m q)
  then show ?case by (metis append_Cons append_Nil newest.simps(2))
qed simp

text \<open>Old mail in front of a queue never displaces any of it.\<close>

lemma newest_append:
  "\<exists>p'. newest l (p @ q) = p' @ newest l q \<and> (\<exists>p0. p = p0 @ p')"
proof (induction p)
  case Nil
  then show ?case by simp
next
  case (Cons m p)
  show ?case
  proof (cases "mailbox_ok l (m # p @ q)")
    case True
    then have "newest l q = q" using mailbox_ok_append [of l "m # p" q] newest_fits by simp
    then show ?thesis using True by (intro exI [of _ "m # p"]) simp
  next
    case False
    then show ?thesis using Cons by (metis append_Cons newest.simps(2))
  qed
qed

lemma expired_live: "expired_by c q \<Longrightarrow> live_mail c q = []"
  by (auto simp: expired_by_def live_mail_def filter_empty_conv not_le)

lemma live_mail_append [simp]: "live_mail c (p @ q) = live_mail c p @ live_mail c q"
  by (simp add: live_mail_def)

lemma expired_by_mono: "expired_by c q \<Longrightarrow> c \<le> d \<Longrightarrow> expired_by d q"
  by (auto simp: expired_by_def)

text \<open>In a dated queue the expired messages are a prefix.\<close>

lemma dated_live: "sorted (map enqueued_at q) \<Longrightarrow> \<exists>old. q = old @ live_mail c q \<and> expired_by c old"
proof (induction q)
  case (Cons m q)
  show ?case
  proof (cases "c \<le> enqueued_at m")
    case True
    then have "live_mail c (m # q) = m # q" using Cons.prems by (auto simp: live_mail_def filter_id_conv)
    then show ?thesis by (intro exI [of _ "[]"]) (simp add: expired_by_def)
  next
    case False
    obtain old where "q = old @ live_mail c q" "expired_by c old" using Cons by auto
    then show ?thesis using False by (intro exI [of _ "m # old"]) (auto simp: live_mail_def expired_by_def)
  qed
qed (simp add: live_mail_def expired_by_def)

lemma dated_suffix: "dated t (p @ q) \<Longrightarrow> dated t q"
  by (auto simp: dated_def sorted_append)

lemma dated_later: "dated t q \<Longrightarrow> t \<le> u \<Longrightarrow> dated u q"
  by (auto simp: dated_def intro: order_trans)

lemma mail_view_later:
  assumes "mail_view l t q v" "t \<le> u"
  shows "mail_view l u q v"
proof -
  obtain old where v: "v = old @ q" "expired_by (t - mail_ttl_secs l) old" "dated t q"
    using assms(1) by (auto simp: mail_view_def)
  have "expired_by (u - mail_ttl_secs l) old" by (rule expired_by_mono [OF v(2) diff_le_mono [OF assms(2)]])
  then show ?thesis unfolding mail_view_def using v(1) dated_later [OF v(3) assms(2)] by blast
qed

lemma mail_view_empty: "mail_view l t [] []"
  by (simp add: mail_view_def dated_def expired_by_def)

lemma mail_view_refl: "dated t q \<Longrightarrow> mail_view l t q q"
  by (auto simp: mail_view_def expired_by_def)

lemma mail_view_live: "mail_view l t q v \<Longrightarrow> t \<le> u \<Longrightarrow> live_mail (u - mail_ttl_secs l) v = live_mail (u - mail_ttl_secs l) q"
  using mail_view_later [of l t q v u] by (auto simp: mail_view_def expired_live)

lemma mail_view_sweep:
  assumes "mail_view l t q v" "t \<le> u"
  shows "mail_view l u (live_mail (u - mail_ttl_secs l) q) v"
proof -
  let ?c = "u - mail_ttl_secs l"
  obtain old where v: "v = old @ q" "expired_by ?c old" "dated u q"
    using mail_view_later [OF assms] by (auto simp: mail_view_def)
  obtain gone where q: "q = gone @ live_mail ?c q" "expired_by ?c gone" using v(3) dated_live [of q ?c] by (auto simp: dated_def)
  have "dated u (live_mail ?c q)" using v(3) q(1) dated_suffix by metis
  moreover have "v = (old @ gone) @ live_mail ?c q" using v(1) q(1) by simp
  moreover have "expired_by ?c (old @ gone)" using v(2) q(2) by (auto simp: expired_by_def)
  ultimately show ?thesis unfolding mail_view_def by blast
qed

lemma mail_view_post:
  assumes "mail_view l t q v" "t \<le> u"
  shows "mail_view l u (newest l (q @ [\<lparr>enqueued_at = u, qm_bytes = m\<rparr>])) (newest l (v @ [\<lparr>enqueued_at = u, qm_bytes = m\<rparr>]))"
proof -
  let ?m = "\<lparr>enqueued_at = u, qm_bytes = m\<rparr>"
  obtain old where v: "v = old @ q" "expired_by (u - mail_ttl_secs l) old" "dated u q"
    using mail_view_later [OF assms] by (auto simp: mail_view_def)
  obtain old' p0 where n: "newest l (v @ [?m]) = old' @ newest l (q @ [?m])" "old = p0 @ old'"
    using newest_append [of l old "q @ [?m]"] v(1) by auto
  have "dated u (q @ [?m])" using v(3) by (auto simp: dated_def sorted_append)
  then have "dated u (newest l (q @ [?m]))" using newest_suffix [of "q @ [?m]" l] dated_suffix by metis
  moreover have "expired_by (u - mail_ttl_secs l) old'" using v(2) n(2) by (auto simp: expired_by_def)
  ultimately show ?thesis unfolding mail_view_def using n(1) by blast
qed

section \<open>The store presents its view\<close>

lemma store_viewD:
  "store_view l t st sp \<Longrightarrow> limits st = l \<and> sp_dir sp = fmlookup (dir_keys (rs_inner st))"
  "store_view l t st sp \<Longrightarrow> t \<le> u \<Longrightarrow> mail_view l u (mailbox st r) (sp_mail sp r)"
  unfolding store_view_def using mail_view_later [of l t "mailbox st r" "sp_mail sp r" u] by simp_all

lemma enqueue_newest:
  assumes "length m \<le> max_message_bytes (limits st)"
  shows "fst (enqueue_at st r m now) = Inr () \<and>
    mailbox (snd (enqueue_at st r m now)) = (mailbox st)(r := newest (limits st) (mailbox st r @ [\<lparr>enqueued_at = now, qm_bytes = m\<rparr>])) \<and>
    limits (snd (enqueue_at st r m now)) = limits st \<and>
    dir_keys (rs_inner (snd (enqueue_at st r m now))) = dir_keys (rs_inner st)"
proof -
  let ?q = "mailbox st r @ [\<lparr>enqueued_at = now, qm_bytes = m\<rparr>]"
  obtain k where E: "enqueue_at st r m now = (Inr (), mark_dirty (st\<lparr>rs_inner := (rs_inner st)\<lparr>queues :=
       fmupd r (drop k ?q) (queues (rs_inner st))\<rparr>\<rparr>))"
    "mailbox_ok (limits st) (drop k ?q)" "\<forall>j<k. \<not> mailbox_ok (limits st) (drop j ?q)"
    using enqueue_small [OF assms] unfolding Let_def by blast
  show ?thesis using newest_drop [OF E(3,2)] by (auto simp: E(1) mailbox_def fun_eq_iff)
qed

lemma poll_keeps: "dir_keys (rs_inner (snd (poll_at st r now))) = dir_keys (rs_inner st)"
  "mailbox (snd (poll_at st r now)) = (mailbox st)(r := [])"
  using poll_eq(2) [of st r now] poll_eq(3) [of _ r st now]
  by (auto simp: poll_at_def Let_def fun_eq_iff split: option.split)

lemma fetch_keeps:
  "mailbox (snd (fetch_bundle st i)) = mailbox st" "limits (snd (fetch_bundle st i)) = limits st"
  by (auto simp: fetch_bundle_def mailbox_def Let_def split: option.split list.split)

lemma publish_keeps:
  "mailbox (publish st b otps) = mailbox st" "limits (publish st b otps) = limits st"
  by (auto simp: publish_def mailbox_def Let_def)

lemmas store_keeps = poll_keeps poll_eq(4) fetch_keeps publish_keeps

lemma store_step_snd [simp]:
  "snd (store_step u (Publish_Keys b otps) st) = publish st b otps" "snd (store_step u (Fetch_Keys i) st) = snd (fetch_bundle st i)"
  "snd (store_step u (Count_Keys i) st) = st" "snd (store_step u (Deposit r m) st) = snd (enqueue_at st r m u)"
  "snd (store_step u (Collect r) st) = snd (poll_at st r u)"
  by (simp_all add: case_prod_beta)

lemma store_step_output:
  assumes "store_view l t st sp" "t \<le> u"
  shows "fst (store_step u op st) = fst (spec_step l u op sp)"
proof (cases op)
  case (Deposit r m)
  then show ?thesis
    using store_viewD(1) [OF assms(1)] enqueue_newest [of m st r u]
    by (cases "max_message_bytes l < length m") (auto simp: enqueue_large split: prod.split)
next
  case (Collect r)
  then show ?thesis
    using store_viewD(1) [OF assms(1)] mail_view_live [OF store_viewD(2) [OF assms] order.refl, of r]
      poll_eq(1) [of st r u] by (cases "poll_at st r u") simp
qed (use store_viewD(1) [OF assms(1)] in
  \<open>auto simp: fetch_bundle_def one_time_remaining_def Let_def split: option.splits list.splits\<close>)

lemma store_step_view:
  assumes "store_view l t st sp" "t \<le> u"
  shows "store_view l u (snd (store_step u op st)) (snd (spec_step l u op sp))"
proof (cases op)
  case (Publish_Keys b otps)
  then show ?thesis
    using store_viewD(1) [OF assms(1)] store_viewD(2) [OF assms]
    by (auto simp: store_view_def store_keeps) (auto simp: publish_def Let_def)
next
  case (Fetch_Keys i)
  have "fmlookup (dir_keys (rs_inner (snd (fetch_bundle st i)))) = sp_dir (snd (spec_step l u op sp))"
    "sp_mail (snd (spec_step l u op sp)) = sp_mail sp"
    using store_viewD(1) [OF assms(1)]
    by (auto simp: Fetch_Keys fetch_bundle_def Let_def fun_eq_iff split: option.split list.split)
  then show ?thesis
    using store_viewD(1) [OF assms(1)] store_viewD(2) [OF assms]
    by (simp add: Fetch_Keys store_view_def fetch_keeps del: store_step.simps)
next
  case (Count_Keys i)
  then show ?thesis using store_viewD(1) [OF assms(1)] store_viewD(2) [OF assms] by (auto simp: store_view_def)
next
  case (Deposit r m)
  then show ?thesis
    using store_viewD(1) [OF assms(1)] store_viewD(2) [OF assms] enqueue_newest [of m st r u]
      mail_view_post [OF store_viewD(2) [OF assms] order.refl]
    by (cases "max_message_bytes l < length m") (auto simp: enqueue_large store_view_def simp del: store_step.simps)
next
  case (Collect r)
  then show ?thesis
    using store_viewD(1) [OF assms(1)] store_viewD(2) [OF assms]
    by (auto simp: store_view_def store_keeps mail_view_empty simp del: store_step.simps)
qed

lemma sweep_keeps_dir: "dir_keys (rs_inner (snd (sweep_expired_at st now))) = dir_keys (rs_inner st)"
  by (simp add: sweep_expired_at_def Let_def)

lemma sweep_view: "store_view l t st sp \<Longrightarrow> t \<le> u \<Longrightarrow> store_view l u (snd (sweep_expired_at st u)) sp"
  unfolding store_view_def using mail_view_sweep by (simp add: sweep_mailbox sweep_keeps_dir) blast

lemma flush_keeps:
  "rs_inner (fst (snd (maybe_flush S fault t t' st d))) = rs_inner st"
  "limits (fst (snd (maybe_flush S fault t t' st d))) = limits st"
  by (simp_all add: maybe_flush_def Let_def split: option.split io_fault.split)

lemma flush_view: "store_view l t st sp \<Longrightarrow> t \<le> u \<Longrightarrow> store_view l u (fst (snd (maybe_flush S fault v v' st d))) sp"
  using store_viewD(2) [of l t st sp u] by (simp add: store_view_def mailbox_def flush_keeps)

lemma store_tidy_view: "store_view l t st sp \<Longrightarrow> t \<le> u \<Longrightarrow> store_view l u (store_tidy u k st) sp"
  by (cases k) (simp_all add: sweep_view flush_view)

interpretation store_service: service_refinement store_step "spec_step l" store_tidy "store_view l" for l
  by unfold_locales (simp_all add: store_step_output store_step_view store_tidy_view)

lemma spec_of_view: "\<forall>r. dated t (mailbox st r) \<Longrightarrow> store_view (limits st) t st (spec_of st)"
  by (simp add: store_view_def spec_of_def mail_view_refl)

section \<open>The server answers like one without housekeeping\<close>

lemma spec_of_step:
  "spec_step (limits st) u op (spec_of st) = (fst (store_step u op st), spec_of (snd (store_step u op st)))"
proof (cases op)
  case (Deposit r m)
  then show ?thesis
    using enqueue_newest [of m st r u]
    by (cases "max_message_bytes (limits st) < length m") (auto simp: spec_of_def enqueue_large case_prod_beta)
next
  case (Collect r)
  then show ?thesis by (simp add: spec_of_def poll_eq poll_keeps case_prod_beta)
qed (auto simp: spec_of_def publish_def fetch_bundle_def one_time_remaining_def mailbox_def Let_def fun_eq_iff case_prod_beta
    split: option.splits list.splits)

lemma store_step_limits: "limits (snd (store_step u op st)) = limits st"
  by (cases op) (simp_all add: store_keeps enqueue_at_def Let_def del: store_step.simps)

lemma alike_step:
  assumes "alike l t c a" "t \<le> u"
  shows "fst (store_step u op c) = fst (store_step u op a) \<and> alike l u (snd (store_step u op c)) (snd (store_step u op a))"
  using store_step_output [of l t c "spec_of a" u op] store_step_view [of l t c "spec_of a" u op] assms
    spec_of_step [of a u op] store_step_limits [of u op a]
  by (simp add: alike_def)

lemma alike_later: "alike l t c a \<Longrightarrow> t \<le> u \<Longrightarrow> alike l u c a"
  using store_viewD(2) [of l t c "spec_of a" u] by (simp add: alike_def store_view_def)

lemma alike_ops:
  assumes "alike l t c a" "t \<le> u"
  shows "alike l u (publish c b otps) (publish a b otps)"
    "fst (fetch_bundle c i) = fst (fetch_bundle a i)" "alike l u (snd (fetch_bundle c i)) (snd (fetch_bundle a i))"
    "fst (enqueue_at c r m u) = fst (enqueue_at a r m u)" "alike l u (snd (enqueue_at c r m u)) (snd (enqueue_at a r m u))"
    "fst (poll_at c r u) = fst (poll_at a r u)" "alike l u (snd (poll_at c r u)) (snd (poll_at a r u))"
  using alike_step [OF assms, of "Publish_Keys b otps"] alike_step [OF assms, of "Fetch_Keys i"]
    alike_step [OF assms, of "Deposit r m"] alike_step [OF assms, of "Collect r"]
  by (simp_all add: case_prod_beta)

lemma handlers_alike:
  assumes "alike l t c a" "t \<le> u"
  shows "fst (handle_publish W c rq) = fst (handle_publish W a rq) \<and>
      alike l u (snd (handle_publish W c rq)) (snd (handle_publish W a rq))"
    "fst (handle_bundle W c q) = fst (handle_bundle W a q) \<and> alike l u (snd (handle_bundle W c q)) (snd (handle_bundle W a q))"
    "fst (handle_send W c u rq) = fst (handle_send W a u rq) \<and> alike l u (snd (handle_send W c u rq)) (snd (handle_send W a u rq))"
    "fst (handle_poll W c u q) = fst (handle_poll W a u q) \<and> alike l u (snd (handle_poll W c u q)) (snd (handle_poll W a u q))"
  using alike_ops [OF assms] alike_later [OF assms]
  by (auto simp: handle_publish_def handle_bundle_def handle_send_def handle_poll_def case_prod_beta Let_def
      split: sum.split option.split store_error.split)

lemma handle_alike:
  assumes "alike l t c a" "t \<le> u"
  shows "fst (handle W c u rq) = fst (handle W a u rq) \<and> alike l u (snd (handle W c u rq)) (snd (handle W a u rq))"
  using handlers_alike [OF assms] alike_later [OF assms]
  by (simp add: handle_def case_prod_beta Let_def split: sum.split)

lemma alike_tidy: "alike l t c a \<Longrightarrow> t \<le> u \<Longrightarrow> alike l u (store_tidy u k c) a"
  unfolding alike_def using store_tidy_view by blast

interpretation http_service:
  service_refinement "\<lambda>t rq st. handle W st t rq" "\<lambda>t rq st. handle W st t rq" store_tidy "alike l" for W l
  using handle_alike alike_tidy by unfold_locales blast+

lemma after_request_alike:
  assumes "alike l t (sv_store sv) a" "t \<le> ck_sweep_unix ck"
  shows "alike l (ck_sweep_unix ck) (sv_store (after_request S fault ck sv)) a"
    "sv_limiter (after_request S fault ck sv) = sv_limiter sv"
proof -
  let ?u = "ck_sweep_unix ck"
  have sweep: "alike l ?u (snd (sweep_expired_at (sv_store sv) ?u)) a" using alike_tidy [OF assms, of Sweep] by simp
  have flush: "alike l ?u (fst (snd (maybe_flush S fault v v' st d))) a" if "alike l ?u st a" for v v' st d
    using alike_tidy [OF that order.refl, of "Flush S fault v v' d"] by simp
  show "alike l ?u (sv_store (after_request S fault ck sv)) a" "sv_limiter (after_request S fault ck sv) = sv_limiter sv"
    using flush [OF sweep] flush [OF alike_later [OF assms]] by (simp_all add: after_request_def Let_def case_prod_beta)
qed

lemma serve_request_admit:
  "serve_request W S fault ck sv rq =
     (let (ok, lim') = admit (sv_limiter sv) ck rq; sv1 = sv\<lparr>sv_limiter := lim'\<rparr>
      in if \<not> ok then (respond_text 429 ''rate limited'', sv1)
         else let (rp, st') = handle W (sv_store sv) (ck_unix ck) rq
              in (rp, after_request S fault ck (sv1\<lparr>sv_store := st'\<rparr>)))"
  by (cases sv) (simp add: serve_request_def admit_def case_prod_beta Let_def split: option.split)

lemma serve_loop_alike:
  "alike l t (sv_store sv) a \<Longrightarrow> clocks_in_order t rs \<Longrightarrow>
   fst (serve_loop W S sv rs) = plain_loop W (sv_limiter sv) a rs"
proof (induction rs arbitrary: t sv a)
  case (Cons r rs)
  obtain fault ck rq where r: "r = (fault, ck, rq)" by (metis prod_cases3)
  obtain ok lim' where lim: "admit (sv_limiter sv) ck rq = (ok, lim')" by fastforce
  from Cons.prems(2) have t: "t \<le> ck_unix ck" "ck_unix ck \<le> ck_sweep_unix ck" "clocks_in_order (ck_sweep_unix ck) rs"
    by (simp_all add: r)
  obtain rp c' where c': "handle W (sv_store sv) (ck_unix ck) rq = (rp, c')" by fastforce
  obtain rp' a' where a': "handle W a (ck_unix ck) rq = (rp', a')" by fastforce
  have h: "rp' = rp" "alike l (ck_unix ck) c' a'" using handle_alike [OF Cons.prems(1) t(1), of W rq] by (simp_all add: c' a')
  show ?case
  proof (cases ok)
    case True
    let ?sv = "sv\<lparr>sv_limiter := lim', sv_store := c'\<rparr>"
    have "alike l (ck_sweep_unix ck) (sv_store (after_request S fault ck ?sv)) a'" "sv_limiter (after_request S fault ck ?sv) = lim'"
      using after_request_alike [of l "ck_unix ck" ?sv a' ck S fault] h(2) t(2) by simp_all
    from Cons.IH [OF this(1) t(3)] this(2) show ?thesis
      by (simp add: r serve_request_admit lim c' a' h(1) True case_prod_beta)
  next
    case False
    have "alike l (ck_sweep_unix ck) (sv_store sv) a" using alike_later [OF Cons.prems(1)] t(1,2) by simp
    then show ?thesis using Cons.IH [of "ck_sweep_unix ck" "sv\<lparr>sv_limiter := lim'\<rparr>" a] t(3)
      by (simp add: r serve_request_admit lim False case_prod_beta)
  qed
qed simp

section \<open>The promises\<close>

lemma store_new_dated: "\<forall>r. dated t (mailbox store_new r)"
  by (simp add: dated_def mailbox_def store_new_def store_with_limits_def inner_default_def)

text \<open>
  C13: the relay store implements the abstract service. Over any sequence of uploads, fetches, counts, posts and
  collections, with sweeps and snapshot writes (failed ones too) anywhere between them and the clock never running
  backwards, the store answers exactly as the service does that has no sweeps and no files: a key directory that hands out
  one-time keys in upload order, and mailboxes that keep the newest mail within the caps and deliver what has not expired.
\<close>

theorem relay_refines_spec:
  assumes "\<forall>r. dated t (mailbox st r)" "in_order t es"
  shows "service_run store_step store_tidy es st = service_run (spec_step (limits st)) (\<lambda>t k s. s) es (spec_of st)"
  by (rule store_service.run_refines [OF spec_of_view [OF assms(1)] assms(2)])

theorem relay_refines_spec_witness:
  "service_run store_step store_tidy
     [Request 5 (Deposit [1] [9]), Housekeeping 7 Sweep, Request 8 (Count_Keys [2]), Request 9 (Collect [1])] store_new =
   [Posted (Inr ()), Count 0, Mail [[9]]]"
proof -
  let ?es = "[Request 5 (Deposit [1] [9]), Housekeeping 7 Sweep, Request 8 (Count_Keys [2]), Request 9 (Collect [1])]"
  have "in_order 0 ?es" by (simp add: in_order_def)
  from relay_refines_spec [OF store_new_dated this] show ?thesis
    by (simp add: spec_of_def mailbox_def store_new_def store_with_limits_def inner_default_def default_limits_def
        mailbox_ok_def live_mail_def)
qed

text \<open>
  C27: housekeeping never shows. Started on a store whose mail is in order of arrival, with a clock that does not run
  backwards, the server answers every sequence of requests exactly as one would that never sweeps expired mail and
  never writes a snapshot, whichever writes fail: the same responses, rate limiting included.
\<close>

theorem housekeeping_invisible:
  assumes "\<forall>r. dated t (mailbox st r)" "clocks_in_order t rs"
  shows "fst (serve_on_with W S bk st d options rs) =
    plain_loop W (map_option (limiter_new (bk_limiter bk)) (rate_limit_per_min options)) st rs"
  using serve_loop_alike [where sv = "\<lparr>sv_limiter = map_option (limiter_new (bk_limiter bk)) (rate_limit_per_min options),
      sv_last_sweep = bk_sweep bk, sv_store = st, sv_disk = d\<rparr>" and a = st and l = "limits st"] spec_of_view [OF assms(1)] assms(2)
  by (simp add: alike_def serve_on_with_def)

theorem housekeeping_invisible_witness:
  "map rp_status (fst (serve_on_with demo_web (serde_of snapshot_fmt) \<lparr>bk_open = 0, bk_limiter = 0, bk_sweep = 0\<rparr>
     store_new fmempty \<lparr>rate_limit_per_min = Some 1\<rparr> (map (\<lambda>u. (NoFault,
       \<lparr>ck_limit = 1, ck_unix = u, ck_sweep = 10 ^ 12, ck_sweep_unix = u, ck_sweep_done = 1, ck_flush = 1, ck_flush_done = 1\<rparr>,
       \<lparr>rq_method = Get, rq_url = ''/health'', rq_body = [], rq_remote = Some 5\<rparr>)) [5, 6]))) = [200, 429]"
proof -
  let ?rs = "map (\<lambda>u. (NoFault,
       \<lparr>ck_limit = 1, ck_unix = u, ck_sweep = 10 ^ 12, ck_sweep_unix = u, ck_sweep_done = 1, ck_flush = 1, ck_flush_done = 1\<rparr>,
       \<lparr>rq_method = Get, rq_url = ''/health'', rq_body = [], rq_remote = Some 5\<rparr>)) [5, 6]"
  have "clocks_in_order 0 ?rs" by simp
  show ?thesis
    unfolding housekeeping_invisible [OF store_new_dated \<open>clocks_in_order 0 ?rs\<close>]
    by (simp add: admit_def allow_def limiter_new_def handle_def split_first_def respond_text_def elapsed_secs_def Let_def word_le_nat_alt)
qed

end
