(* ===== verification/Relay_Threads.thy ===== *)
theory Relay_Threads
  imports Relay_Spec
begin

text \<open>
  The relay store under concurrent use (\<^verbatim>\<open>relay/src/store.rs\<close>, "thread-safe relay store"): any number of threads call
  its methods, and the two mutexes \<open>inner\<close> and \<open>persistence\<close> order them. A method is the sequence of its lock, work and
  unlock steps: the directory and the mailboxes change while \<open>inner\<close> is held, the dirty flag is set afterwards in a
  section of its own under \<open>persistence\<close>, and a flush holds \<open>persistence\<close> while it takes \<open>inner\<close> for the snapshot and
  writes the file. The work done under \<open>inner\<close> is the sequential model's (\<^verbatim>\<open>Relay_Store\<close>), read off a store with a
  clean persistence record. The history of calls and returns and the log of the sections under \<open>inner\<close> are auxiliary:
  no step depends on them.
\<close>

datatype store_call = Serve nat relay_op | Sweep_Expired nat

datatype call_result = Answer relay_out | Removed nat

fun call_step :: "store_call \<Rightarrow> relay_store \<Rightarrow> call_result \<times> relay_store" where
  "call_step (Serve now op) st = (let (out, st') = store_step now op st in (Answer out, st'))"
| "call_step (Sweep_Expired now) st = (let (n, st') = sweep_expired_at st now in (Removed n, st'))"

text \<open>What a call does to the data under \<open>inner\<close>: the result, the new data, and whether it marks the store dirty afterwards.\<close>

definition crit :: "store_limits \<Rightarrow> store_call \<Rightarrow> relay_inner \<Rightarrow> call_result \<times> relay_inner \<times> bool" where
  "crit l call inner =
     (let (res, st') = call_step call \<lparr>rs_inner = inner, limits = l,
            persistence_of = Some \<lparr>state_path = [], dirty = False, last_flush = 0\<rparr>\<rparr>
      in (res, rs_inner st', case persistence_of st' of Some p \<Rightarrow> dirty p | None \<Rightarrow> False))"

text \<open>The call that returns before it locks anything: a message over the size limit.\<close>

fun refused :: "store_limits \<Rightarrow> store_call \<Rightarrow> bool" where
  "refused l (Serve now (Deposit r m)) \<longleftrightarrow> length m > max_message_bytes l"
| "refused l _ \<longleftrightarrow> False"

text \<open>
  Where a thread is. A call carries its number, which is the position of its invocation in the history.
\<close>

datatype pc =
    Idle
  | Called nat store_call | Locked nat store_call
  | Marking nat call_result | Marked nat call_result | Returning nat call_result
  | Forcing | Forced
  | Flushing | Checking | Snapping | Serializing
  | Creating bytes | Writing bytes nat | Renaming bytes | Clearing

datatype hist = Invoke nat store_call | Respond nat call_result

record log_entry =
  le_id :: nat
  le_call :: store_call
  le_result :: call_result

record conc =
  c_inner :: relay_inner
  c_inner_lock :: "nat option"
  c_pers :: "persistence option"
  c_pers_lock :: "nat option"
  c_disk :: disk
  c_threads :: "nat \<Rightarrow> pc"
  c_history :: "hist list"
  c_log :: "log_entry list"

definition conc_of :: "relay_store \<Rightarrow> disk \<Rightarrow> conc" where
  "conc_of st d = \<lparr>c_inner = rs_inner st, c_inner_lock = None, c_pers = persistence_of st, c_pers_lock = None, c_disk = d,
     c_threads = (\<lambda>_. Idle), c_history = [], c_log = []\<rparr>"

definition goto :: "nat \<Rightarrow> pc \<Rightarrow> conc \<Rightarrow> conc" where
  "goto i q c = c\<lparr>c_threads := (c_threads c)(i := q)\<rparr>"

definition flush_due :: "int \<Rightarrow> persistence option \<Rightarrow> bool" where
  "flush_due now p = (case p of None \<Rightarrow> False
     | Some p \<Rightarrow> dirty p \<and> elapsed_secs now (last_flush p) \<ge> FLUSH_INTERVAL_SECS)"

text \<open>
  One step of thread \<open>i\<close>. \<open>std::fs::write\<close> creates an empty temporary file and writes it piece by piece; it may fail
  when it creates the file and after any piece.
\<close>

inductive cstep :: "snapshot serde \<Rightarrow> store_limits \<Rightarrow> nat \<Rightarrow> conc \<Rightarrow> conc \<Rightarrow> bool" for S l i c where
  invoke: "c_threads c i = Idle \<Longrightarrow>
     cstep S l i c (goto i (Called (length (c_history c)) call)
       (c\<lparr>c_history := c_history c @ [Invoke (length (c_history c)) call]\<rparr>))"
| refuse: "c_threads c i = Called k call \<Longrightarrow> refused l call \<Longrightarrow>
     cstep S l i c (goto i (Returning k (Answer (Posted (Inl MessageTooLarge))))
       (c\<lparr>c_log := c_log c @ [\<lparr>le_id = k, le_call = call, le_result = Answer (Posted (Inl MessageTooLarge))\<rparr>]\<rparr>))"
| lock: "c_threads c i = Called k call \<Longrightarrow> \<not> refused l call \<Longrightarrow> c_inner_lock c = None \<Longrightarrow>
     cstep S l i c (goto i (Locked k call) (c\<lparr>c_inner_lock := Some i\<rparr>))"
| body: "c_threads c i = Locked k call \<Longrightarrow> crit l call (c_inner c) = (res, inner', marks) \<Longrightarrow>
     cstep S l i c (goto i (if marks then Marking k res else Returning k res)
       (c\<lparr>c_inner := inner', c_inner_lock := None,
          c_log := c_log c @ [\<lparr>le_id = k, le_call = call, le_result = res\<rparr>]\<rparr>))"
| mark_lock: "c_threads c i = Marking k res \<Longrightarrow> c_pers_lock c = None \<Longrightarrow>
     cstep S l i c (goto i (Marked k res) (c\<lparr>c_pers_lock := Some i\<rparr>))"
| mark: "c_threads c i = Marked k res \<Longrightarrow>
     cstep S l i c (goto i (Returning k res)
       (c\<lparr>c_pers := map_option (\<lambda>p. p\<lparr>dirty := True\<rparr>) (c_pers c), c_pers_lock := None\<rparr>))"
| return: "c_threads c i = Returning k res \<Longrightarrow>
     cstep S l i c (goto i Idle (c\<lparr>c_history := c_history c @ [Respond k res]\<rparr>))"
| call_force: "c_threads c i = Idle \<Longrightarrow> cstep S l i c (goto i Forcing c)"
| force_lock: "c_threads c i = Forcing \<Longrightarrow> c_pers_lock c = None \<Longrightarrow>
     cstep S l i c (goto i Forced (c\<lparr>c_pers_lock := Some i\<rparr>))"
| force: "c_threads c i = Forced \<Longrightarrow>
     cstep S l i c (goto i Flushing
       (c\<lparr>c_pers := map_option (\<lambda>p. p\<lparr>dirty := True, last_flush := t\<rparr>) (c_pers c), c_pers_lock := None\<rparr>))"
| call_flush: "c_threads c i = Idle \<Longrightarrow> cstep S l i c (goto i Flushing c)"
| flush_lock: "c_threads c i = Flushing \<Longrightarrow> c_pers_lock c = None \<Longrightarrow>
     cstep S l i c (goto i Checking (c\<lparr>c_pers_lock := Some i\<rparr>))"
| not_due: "c_threads c i = Checking \<Longrightarrow> \<not> flush_due now (c_pers c) \<Longrightarrow>
     cstep S l i c (goto i Idle (c\<lparr>c_pers_lock := None\<rparr>))"
| due: "c_threads c i = Checking \<Longrightarrow> flush_due now (c_pers c) \<Longrightarrow> cstep S l i c (goto i Snapping c)"
| snap_lock: "c_threads c i = Snapping \<Longrightarrow> c_inner_lock c = None \<Longrightarrow>
     cstep S l i c (goto i Serializing (c\<lparr>c_inner_lock := Some i\<rparr>))"
| serialize: "c_threads c i = Serializing \<Longrightarrow>
     cstep S l i c (goto i (Creating (ser S \<lparr>sn_version = SNAPSHOT_VERSION, sn_inner = c_inner c\<rparr>)) (c\<lparr>c_inner_lock := None\<rparr>))"
| create: "c_threads c i = Creating bs \<Longrightarrow> c_pers c = Some p \<Longrightarrow>
     cstep S l i c (goto i (Writing bs 0) (c\<lparr>c_disk := fmupd (with_extension_tmp (state_path p)) [] (c_disk c)\<rparr>))"
| write_piece: "c_threads c i = Writing bs n \<Longrightarrow> c_pers c = Some p \<Longrightarrow> n < m \<Longrightarrow> m \<le> length bs \<Longrightarrow>
     cstep S l i c (goto i (Writing bs m) (c\<lparr>c_disk := fmupd (with_extension_tmp (state_path p)) (take m bs) (c_disk c)\<rparr>))"
| written: "c_threads c i = Writing bs n \<Longrightarrow> length bs \<le> n \<Longrightarrow> cstep S l i c (goto i (Renaming bs) c)"
| io_error: "c_threads c i \<in> {Creating bs, Writing bs n, Renaming bs} \<Longrightarrow>
     cstep S l i c (goto i Idle (c\<lparr>c_pers_lock := None\<rparr>))"
| rename: "c_threads c i = Renaming bs \<Longrightarrow> c_pers c = Some p \<Longrightarrow>
     cstep S l i c (goto i Clearing
       (c\<lparr>c_disk := fmupd (state_path p) bs (fmdrop (with_extension_tmp (state_path p)) (c_disk c))\<rparr>))"
| clear: "c_threads c i = Clearing \<Longrightarrow>
     cstep S l i c (goto i Idle
       (c\<lparr>c_pers := map_option (\<lambda>p. p\<lparr>dirty := False, last_flush := t\<rparr>) (c_pers c), c_pers_lock := None\<rparr>))"

inductive conc_reach :: "snapshot serde \<Rightarrow> relay_store \<Rightarrow> disk \<Rightarrow> conc \<Rightarrow> bool" for S st d where
  started: "conc_reach S st d (conc_of st d)"
| stepped: "conc_reach S st d c \<Longrightarrow> cstep S (limits st) i c c' \<Longrightarrow> conc_reach S st d c'"

text \<open>The sequential store on a list of calls.\<close>

primrec seq_run :: "store_call list \<Rightarrow> relay_store \<Rightarrow> call_result list \<times> relay_store" where
  "seq_run [] st = ([], st)"
| "seq_run (call # calls) st =
     (let (res, st') = call_step call st; (rs, st'') = seq_run calls st' in (res # rs, st''))"

text \<open>One call returned before another was made.\<close>

definition precedes :: "hist list \<Rightarrow> nat \<Rightarrow> nat \<Rightarrow> bool" where
  "precedes h j k \<longleftrightarrow> (\<exists>h1 h2 res call. h = h1 @ h2 \<and> Respond j res \<in> set h1 \<and> Invoke k call \<in> set h2)"

text \<open>
  A sequential order of calls explains a history of the store: each call is one of the history's and occurs once, every
  call that returned is there with its result, the results are the sequential store's, and no call is ordered before one
  that returned before it was made.
\<close>

definition linearizes :: "relay_store \<Rightarrow> hist list \<Rightarrow> log_entry list \<Rightarrow> bool" where
  "linearizes st h lin \<longleftrightarrow>
     distinct (map le_id lin) \<and> fst (seq_run (map le_call lin) st) = map le_result lin \<and>
     (\<forall>e\<in>set lin. Invoke (le_id e) (le_call e) \<in> set h) \<and>
     (\<forall>k res. Respond k res \<in> set h \<longrightarrow> (\<exists>e\<in>set lin. le_id e = k \<and> le_result e = res)) \<and>
     (\<forall>a b. a < b \<and> b < length lin \<longrightarrow> \<not> precedes h (le_id (lin ! b)) (le_id (lin ! a)))"

section \<open>Calls on the sequential store\<close>

lemma call_step_limits: "limits (snd (call_step call st)) = limits st"
  by (cases call) (simp_all add: store_step_limits case_prod_beta sweep_expired_at_def Let_def del: store_step.simps)

lemma crit_call:
  "fst (call_step call st) = fst (crit (limits st) call (rs_inner st))"
  "rs_inner (snd (call_step call st)) = fst (snd (crit (limits st) call (rs_inner st)))"
proof -
  have "fst (call_step call st) = fst (crit (limits st) call (rs_inner st)) \<and>
    rs_inner (snd (call_step call st)) = fst (snd (crit (limits st) call (rs_inner st)))"
  proof (cases call)
    case (Serve now op)
    then show ?thesis
      by (cases op) (auto simp: crit_def case_prod_beta publish_def fetch_bundle_def one_time_remaining_def enqueue_at_def
          poll_at_def Let_def split: option.splits list.splits)
  qed (simp add: crit_def case_prod_beta sweep_expired_at_def Let_def)
  then show "fst (call_step call st) = fst (crit (limits st) call (rs_inner st))"
    "rs_inner (snd (call_step call st)) = fst (snd (crit (limits st) call (rs_inner st)))" by simp_all
qed

lemma refused_call: "refused (limits st) call \<Longrightarrow> call_step call st = (Answer (Posted (Inl MessageTooLarge)), st)"
  by (induction "limits st" call rule: refused.induct) (simp_all add: enqueue_large)

lemma seq_run_limits: "limits (snd (seq_run calls st)) = limits st"
  by (induction calls arbitrary: st) (simp_all add: case_prod_beta call_step_limits)

lemma seq_run_append:
  "fst (seq_run (calls @ calls') st) = fst (seq_run calls st) @ fst (seq_run calls' (snd (seq_run calls st)))"
  "snd (seq_run (calls @ calls') st) = snd (seq_run calls' (snd (seq_run calls st)))"
  by (induction calls arbitrary: st) (simp_all add: case_prod_beta Let_def)

lemma crit_refused: "refused l call \<Longrightarrow> crit l call inner = (Answer (Posted (Inl MessageTooLarge)), inner, False)"
  using refused_call [of "\<lparr>rs_inner = inner, limits = l, persistence_of = Some \<lparr>state_path = [], dirty = False, last_flush = 0\<rparr>\<rparr>"]
  by (simp add: crit_def)

text \<open>A call that does not mark the store dirty has changed nothing that can be seen.\<close>

lemma crit_unmarked: "crit l call inner = (res, inner', False) \<Longrightarrow> inner_equiv inner inner'"
proof (cases call)
  case (Serve now op)
  assume "crit l call inner = (res, inner', False)"
  then have "inner' = inner"
    by (cases op) (auto simp: Serve crit_def case_prod_beta publish_def fetch_bundle_def enqueue_at_def
        poll_at_def Let_def split: option.splits list.splits if_splits)
  then show ?thesis by (simp add: inner_equiv_refl)
next
  case (Sweep_Expired now)
  assume "crit l call inner = (res, inner', False)"
  then show ?thesis
    using sweep_equiv [of "now - mail_ttl_secs l" inner] by (auto simp: Sweep_Expired crit_def sweep_expired_at_def Let_def split: if_splits)
qed

section \<open>Locks\<close>

fun holds_inner :: "pc \<Rightarrow> bool" where
  "holds_inner (Locked k call) = True"
| "holds_inner Serializing = True"
| "holds_inner _ = False"

fun holds_pers :: "pc \<Rightarrow> bool" where
  "holds_pers (Marked k res) = True"
| "holds_pers Forced = True"
| "holds_pers Checking = True"
| "holds_pers Snapping = True"
| "holds_pers Serializing = True"
| "holds_pers (Creating bs) = True"
| "holds_pers (Writing bs n) = True"
| "holds_pers (Renaming bs) = True"
| "holds_pers Clearing = True"
| "holds_pers _ = False"

definition locks_ok :: "conc \<Rightarrow> bool" where
  "locks_ok c \<longleftrightarrow> (\<forall>i. holds_inner (c_threads c i) \<longleftrightarrow> c_inner_lock c = Some i) \<and>
     (\<forall>i. holds_pers (c_threads c i) \<longleftrightarrow> c_pers_lock c = Some i)"

lemma goto_fields [simp]:
  "c_inner (goto i q c) = c_inner c" "c_inner_lock (goto i q c) = c_inner_lock c" "c_pers (goto i q c) = c_pers c"
  "c_pers_lock (goto i q c) = c_pers_lock c" "c_disk (goto i q c) = c_disk c"
  "c_threads (goto i q c) = (c_threads c)(i := q)" "c_history (goto i q c) = c_history c" "c_log (goto i q c) = c_log c"
  by (simp_all add: goto_def)

lemma cstep_locks: "cstep S l i c c' \<Longrightarrow> locks_ok c \<Longrightarrow> locks_ok c'"
  by (induction rule: cstep.induct) (unfold locks_ok_def, simp_all, (metis holds_inner.simps holds_pers.simps option.inject option.distinct(1))+)

lemma cstep_pers: "cstep S l i c c' \<Longrightarrow> map_option state_path (c_pers c') = map_option state_path (c_pers c)"
  by (induction rule: cstep.induct) (simp_all add: option.map_comp o_def)

section \<open>Linearization\<close>

fun calling :: "pc \<Rightarrow> (nat \<times> store_call) option" where
  "calling (Called k call) = Some (k, call)"
| "calling (Locked k call) = Some (k, call)"
| "calling _ = None"

fun finished :: "pc \<Rightarrow> (nat \<times> call_result) option" where
  "finished (Marking k res) = Some (k, res)"
| "finished (Marked k res) = Some (k, res)"
| "finished (Returning k res) = Some (k, res)"
| "finished _ = None"

text \<open>What a step does to the history, the log and the data: nothing, or it makes, performs or returns a call.\<close>

definition call_view :: "conc \<Rightarrow> relay_inner \<times> hist list \<times> log_entry list" where
  "call_view c = (c_inner c, c_history c, c_log c)"

lemma cstep_kinds:
  assumes "cstep S l i c c'"
  obtains
    (quiet) "call_view c' = call_view c" "calling (c_threads c' i) = calling (c_threads c i)"
      "finished (c_threads c' i) = finished (c_threads c i)"
  | (invoked) k call where "k = length (c_history c)" "call_view c' = (c_inner c, c_history c @ [Invoke k call], c_log c)"
      "calling (c_threads c' i) = Some (k, call)" "finished (c_threads c' i) = None"
      "calling (c_threads c i) = None" "finished (c_threads c i) = None"
  | (performed) k call res inner' marks where "crit l call (c_inner c) = (res, inner', marks)"
      "call_view c' = (inner', c_history c, c_log c @ [\<lparr>le_id = k, le_call = call, le_result = res\<rparr>])"
      "calling (c_threads c i) = Some (k, call)" "calling (c_threads c' i) = None"
      "finished (c_threads c i) = None" "finished (c_threads c' i) = Some (k, res)"
  | (returned) k res where "call_view c' = (c_inner c, c_history c @ [Respond k res], c_log c)"
      "finished (c_threads c i) = Some (k, res)" "finished (c_threads c' i) = None"
      "calling (c_threads c i) = None" "calling (c_threads c' i) = None"
  using assms
proof cases
  case (invoke call)
  then show ?thesis by (intro that(2)) (simp_all add: call_view_def)
next
  case (refuse k call)
  then show ?thesis by (intro that(3) [OF crit_refused [OF refuse(3)]]) (simp_all add: call_view_def)
next
  case (body k call res inner' marks)
  then show ?thesis by (intro that(3) [OF body(3)]) (simp_all add: call_view_def)
next
  case (return k res)
  then show ?thesis by (intro that(4)) (simp_all add: call_view_def)
next
  case (io_error bs n)
  then show ?thesis by (intro that(1)) (auto simp: call_view_def)
qed (intro that(1); simp add: call_view_def)+

lemma cstep_others: "cstep S l i c c' \<Longrightarrow> j \<noteq> i \<Longrightarrow> c_threads c' j = c_threads c j"
  by (induction rule: cstep.induct) simp_all

lemma precedes_invoke: "precedes (h @ [Invoke k call]) a b \<Longrightarrow> precedes h a b \<or> b = k"
proof -
  assume "precedes (h @ [Invoke k call]) a b"
  then obtain h1 h2 res call' where h: "h @ [Invoke k call] = h1 @ h2" "Respond a res \<in> set h1" "Invoke b call' \<in> set h2"
    unfolding precedes_def by blast
  show ?thesis
  proof (cases h2 rule: rev_cases)
    case Nil
    then show ?thesis using h(3) by simp
  next
    case (snoc g x)
    then have "h = h1 @ g" "x = Invoke k call" using h(1) by simp_all
    then show ?thesis using h(2,3) snoc unfolding precedes_def by auto
  qed
qed

lemma precedes_respond: "precedes (h @ [Respond k r]) a b \<Longrightarrow> precedes h a b"
proof -
  assume "precedes (h @ [Respond k r]) a b"
  then obtain h1 h2 res call' where h: "h @ [Respond k r] = h1 @ h2" "Respond a res \<in> set h1" "Invoke b call' \<in> set h2"
    unfolding precedes_def by blast
  show ?thesis
  proof (cases h2 rule: rev_cases)
    case Nil
    then show ?thesis using h(3) by simp
  next
    case (snoc g x)
    then have "h = h1 @ g" "x = Respond k r" using h(1) by simp_all
    then show ?thesis using h(2,3) snoc unfolding precedes_def by auto
  qed
qed

lemma precedes_responded: "precedes h a b \<Longrightarrow> \<exists>res. Respond a res \<in> set h"
  by (auto simp: precedes_def)

text \<open>The number of the call a thread is in.\<close>

definition call_no :: "pc \<Rightarrow> nat option" where
  "call_no q = (case calling q of Some (k, _) \<Rightarrow> Some k | None \<Rightarrow> map_option fst (finished q))"

definition state_after :: "relay_store \<Rightarrow> log_entry list \<Rightarrow> nat \<Rightarrow> relay_inner" where
  "state_after st lin n = rs_inner (snd (seq_run (map le_call (take n lin)) st))"

definition lin_inv :: "relay_store \<Rightarrow> conc \<Rightarrow> bool" where
  "lin_inv st c \<longleftrightarrow> linearizes st (c_history c) (c_log c) \<and>
     state_after st (c_log c) (length (c_log c)) = c_inner c \<and>
     (\<forall>i k call. calling (c_threads c i) = Some (k, call) \<longrightarrow> Invoke k call \<in> set (c_history c) \<and> k \<notin> le_id ` set (c_log c)) \<and>
     (\<forall>i k res. finished (c_threads c i) = Some (k, res) \<longrightarrow>
        (\<exists>e\<in>set (c_log c). le_id e = k \<and> le_result e = res) \<and> (\<forall>r. Respond k r \<notin> set (c_history c))) \<and>
     (\<forall>i j k. call_no (c_threads c i) = Some k \<and> call_no (c_threads c j) = Some k \<longrightarrow> i = j) \<and>
     (\<forall>k call. Invoke k call \<in> set (c_history c) \<longrightarrow> k < length (c_history c))"

lemma lin_invD:
  assumes "lin_inv st c"
  shows "linearizes st (c_history c) (c_log c)" "state_after st (c_log c) (length (c_log c)) = c_inner c"
    "calling (c_threads c i) = Some (k, call) \<Longrightarrow> Invoke k call \<in> set (c_history c) \<and> k \<notin> le_id ` set (c_log c)"
    "finished (c_threads c i) = Some (k, res) \<Longrightarrow>
       (\<exists>e\<in>set (c_log c). le_id e = k \<and> le_result e = res) \<and> (\<forall>r. Respond k r \<notin> set (c_history c))"
    "call_no (c_threads c i) = Some k \<Longrightarrow> call_no (c_threads c j) = Some k \<Longrightarrow> i = j"
    "Invoke k call \<in> set (c_history c) \<Longrightarrow> k < length (c_history c)"
  using assms unfolding lin_inv_def by blast+

lemma linearizesD:
  assumes "linearizes st h lin"
  shows "distinct (map le_id lin)" "fst (seq_run (map le_call lin) st) = map le_result lin"
    "e \<in> set lin \<Longrightarrow> Invoke (le_id e) (le_call e) \<in> set h"
    "Respond k res \<in> set h \<Longrightarrow> \<exists>e\<in>set lin. le_id e = k \<and> le_result e = res"
    "a < b \<Longrightarrow> b < length lin \<Longrightarrow> \<not> precedes h (le_id (lin ! b)) (le_id (lin ! a))"
  using assms unfolding linearizes_def by blast+

lemma linearizes_invoke:
  assumes L: "linearizes st h lin" and k: "k \<notin> le_id ` set lin"
  shows "linearizes st (h @ [Invoke k call]) lin"
proof -
  have "\<not> precedes (h @ [Invoke k call]) (le_id (lin ! b)) (le_id (lin ! a))" if "a < b" "b < length lin" for a b
  proof
    assume "precedes (h @ [Invoke k call]) (le_id (lin ! b)) (le_id (lin ! a))"
    then have "le_id (lin ! a) = k" using precedes_invoke linearizesD(5) [OF L that] by blast
    then show False using k that by (metis imageI less_trans nth_mem)
  qed
  then show ?thesis using linearizesD(1-4) [OF L] unfolding linearizes_def by auto
qed

lemma linearizes_respond:
  assumes L: "linearizes st h lin" and e: "e \<in> set lin" "le_id e = k" "le_result e = res"
  shows "linearizes st (h @ [Respond k res]) lin"
  using linearizesD [OF L] e unfolding linearizes_def by (auto dest: precedes_respond)

lemma linearizes_perform:
  assumes L: "linearizes st h lin" and k: "k \<notin> le_id ` set lin" "Invoke k call \<in> set h"
    and res: "res = fst (call_step call (snd (seq_run (map le_call lin) st)))"
  shows "linearizes st h (lin @ [\<lparr>le_id = k, le_call = call, le_result = res\<rparr>])"
proof -
  let ?lin = "lin @ [\<lparr>le_id = k, le_call = call, le_result = res\<rparr>]"
  have "\<not> precedes h (le_id (?lin ! b)) (le_id (?lin ! a))" if "a < b" "b < length ?lin" for a b
  proof (cases "b < length lin")
    case True
    then show ?thesis using linearizesD(5) [OF L that(1)] that by (simp add: nth_append)
  next
    case False
    then have "le_id (?lin ! b) = k" using that by (simp add: nth_append)
    then show ?thesis using precedes_responded linearizesD(4) [OF L] k(1) by (metis imageI)
  qed
  then show ?thesis
    using linearizesD(1-4) [OF L] k res unfolding linearizes_def
    by (auto simp: seq_run_append case_prod_beta)
qed

lemma call_no_cases: "call_no q = Some k \<longleftrightarrow> (\<exists>call. calling q = Some (k, call)) \<or> (calling q = None \<and> (\<exists>res. finished q = Some (k, res)))"
  by (auto simp: call_no_def split: option.split)

lemma finished_calling: "finished q = Some x \<Longrightarrow> calling q = None"
  by (cases q) simp_all

lemma call_no_known:
  assumes "lin_inv st c" "call_no (c_threads c i) = Some k"
  shows "k < length (c_history c)"
proof -
  have "\<exists>call. Invoke k call \<in> set (c_history c)"
    using assms(2) lin_invD(3,4) [OF assms(1), of i k] linearizesD(3) [OF lin_invD(1) [OF assms(1)]]
    unfolding call_no_cases by blast
  then show ?thesis using lin_invD(6) [OF assms(1)] by blast
qed

lemma state_after_append: "n \<le> length lin \<Longrightarrow> state_after st (lin @ ls) n = state_after st lin n"
  by (simp add: state_after_def)

lemma state_after_snoc:
  "state_after st (lin @ [e]) (Suc (length lin)) = fst (snd (crit (limits st) (le_call e) (state_after st lin (length lin))))"
  by (simp add: state_after_def seq_run_append case_prod_beta crit_call(2) seq_run_limits)

lemma lin_inv_invoked:
  assumes I: "lin_inv st c" and step: "cstep S (limits st) i c c'"
    and invoked: "k = length (c_history c)" "call_view c' = (c_inner c, c_history c @ [Invoke k call], c_log c)"
      "calling (c_threads c' i) = Some (k, call)" "finished (c_threads c' i) = None"
      "calling (c_threads c i) = None" "finished (c_threads c i) = None"
  shows "lin_inv st c'"
proof -
  note V = invoked(2) [unfolded call_view_def, simplified]
  have "le_id e \<noteq> k" if "e \<in> set (c_log c)" for e
    using lin_invD(6) [OF I linearizesD(3) [OF lin_invD(1) [OF I] that]] invoked(1) by simp
  then have new: "k \<notin> le_id ` set (c_log c)" "call_no (c_threads c j) \<noteq> Some k" for j
    using call_no_known [OF I, of j k] invoked(1) by blast+
  have others: "c_threads c' j = c_threads c j" if "j \<noteq> i" for j by (rule cstep_others [OF step that])
  have "call_no (c_threads c' i) = Some k" using invoked by (simp add: call_no_def)
  then have uniq: "j = j'" if "call_no (c_threads c' j) = Some m" "call_no (c_threads c' j') = Some m" for j j' m
    using that lin_invD(5) [OF I] others new(2) by (metis option.inject)
  show ?thesis
    unfolding lin_inv_def
  proof (intro conjI allI impI; (elim conjE)?)
    show "linearizes st (c_history c') (c_log c')" using linearizes_invoke [OF lin_invD(1) [OF I] new(1)] V by simp
  next
    fix j m call'
    assume "calling (c_threads c' j) = Some (m, call')"
    then show "Invoke m call' \<in> set (c_history c')" "m \<notin> le_id ` set (c_log c')"
      using lin_invD(3) [OF I, of j m call'] others [of j] invoked new(1) V by (cases "j = i"; simp)+
  next
    fix j m res r
    assume "finished (c_threads c' j) = Some (m, res)"
    then show "\<exists>e\<in>set (c_log c'). le_id e = m \<and> le_result e = res" "Respond m r \<notin> set (c_history c')"
      using lin_invD(4) [OF I, of j m res] others [of j] invoked V by (cases "j = i"; simp)+
  qed (use uniq lin_invD(2,6) [OF I] V invoked(1) in \<open>auto intro: less_SucI\<close>)
qed

lemma lin_inv_performed:
  assumes I: "lin_inv st c" and step: "cstep S (limits st) i c c'"
    and performed: "crit (limits st) call (c_inner c) = (res, inner', marks)"
      "call_view c' = (inner', c_history c, c_log c @ [\<lparr>le_id = k, le_call = call, le_result = res\<rparr>])"
      "calling (c_threads c i) = Some (k, call)" "calling (c_threads c' i) = None"
      "finished (c_threads c i) = None" "finished (c_threads c' i) = Some (k, res)"
  shows "lin_inv st c'"
proof -
  note V = performed(2) [unfolded call_view_def, simplified]
  note called = lin_invD(3) [OF I performed(3)]
  have others: "c_threads c' j = c_threads c j" if "j \<noteq> i" for j by (rule cstep_others [OF step that])
  have no: "call_no (c_threads c' j) = call_no (c_threads c j)" for j
    using performed others [of j] by (cases "j = i") (simp_all add: call_no_def)
  have inner: "rs_inner (snd (seq_run (map le_call (c_log c)) st)) = c_inner c"
    using lin_invD(2) [OF I] by (simp add: state_after_def)
  have res: "res = fst (call_step call (snd (seq_run (map le_call (c_log c)) st)))"
    by (simp add: crit_call(1) seq_run_limits inner performed(1))
  show ?thesis
    unfolding lin_inv_def
  proof (intro conjI allI impI; (elim conjE)?)
    show "linearizes st (c_history c') (c_log c')"
      using linearizes_perform [OF lin_invD(1) [OF I]] called res V by simp
    show "state_after st (c_log c') (length (c_log c')) = c_inner c'"
      using lin_invD(2) [OF I] by (simp add: V state_after_snoc performed(1))
  next
    fix j m call'
    assume a: "calling (c_threads c' j) = Some (m, call')"
    then have "j \<noteq> i" using performed by auto
    moreover have "m \<noteq> k" using a no lin_invD(5) [OF I, of j k i] \<open>j \<noteq> i\<close> performed(3) others by (auto simp: call_no_cases)
    ultimately show "Invoke m call' \<in> set (c_history c')" "m \<notin> le_id ` set (c_log c')"
      using a lin_invD(3) [OF I, of j m call'] others [of j] V by simp_all
  next
    fix j m r' r
    assume a: "finished (c_threads c' j) = Some (m, r')"
    have "Respond k x \<notin> set (c_history c)" for x using linearizesD(4) [OF lin_invD(1) [OF I], of k x] called by auto
    then show "\<exists>e\<in>set (c_log c'). le_id e = m \<and> le_result e = r'" "Respond m r \<notin> set (c_history c')"
      using a lin_invD(4) [OF I, of j m r'] others [of j] performed(6) V by (cases "j = i"; simp)+
  qed (use no lin_invD(5,6) [OF I] V in auto)
qed

lemma lin_inv_returned:
  assumes I: "lin_inv st c" and step: "cstep S (limits st) i c c'"
    and returned: "call_view c' = (c_inner c, c_history c @ [Respond k res], c_log c)"
      "finished (c_threads c i) = Some (k, res)" "finished (c_threads c' i) = None"
      "calling (c_threads c i) = None" "calling (c_threads c' i) = None"
  shows "lin_inv st c'"
proof -
  note V = returned(1) [unfolded call_view_def, simplified]
  note ret = lin_invD(4) [OF I returned(2)]
  have others: "c_threads c' j = c_threads c j" if "j \<noteq> i" for j by (rule cstep_others [OF step that])
  have no: "call_no (c_threads c' i) = None" "call_no (c_threads c i) = Some k" using returned by (simp_all add: call_no_def)
  have uniq: "j = j'" if "call_no (c_threads c' j) = Some m" "call_no (c_threads c' j') = Some m" for j j' m
    using that lin_invD(5) [OF I] others no(1) by (metis option.distinct(1))
  show ?thesis
    unfolding lin_inv_def
  proof (intro conjI allI impI; (elim conjE)?)
    show "linearizes st (c_history c') (c_log c')" using linearizes_respond [OF lin_invD(1) [OF I]] ret V by auto
  next
    fix j m call'
    assume "calling (c_threads c' j) = Some (m, call')"
    then show "Invoke m call' \<in> set (c_history c')" "m \<notin> le_id ` set (c_log c')"
      using lin_invD(3) [OF I, of j m call'] others [of j] returned V by (cases "j = i"; simp)+
  next
    fix j m r' r
    assume a: "finished (c_threads c' j) = Some (m, r')"
    then have "j \<noteq> i" using returned by auto
    moreover have "m \<noteq> k"
      using lin_invD(5) [OF I, of j m i] no(2) a others [OF \<open>j \<noteq> i\<close>] \<open>j \<noteq> i\<close> finished_calling [OF a]
      by (auto simp: call_no_def)
    ultimately show "\<exists>e\<in>set (c_log c'). le_id e = m \<and> le_result e = r'" "Respond m r \<notin> set (c_history c')"
      using a lin_invD(4) [OF I, of j m r'] others [of j] V by simp_all
  qed (use uniq lin_invD(2,6) [OF I] V in \<open>auto intro: less_SucI\<close>)
qed

lemma lin_inv_step:
  assumes I: "lin_inv st c" and step: "cstep S (limits st) i c c'"
  shows "lin_inv st c'"
  using step
proof (cases rule: cstep_kinds)
  case quiet
  have same: "calling (c_threads c' j) = calling (c_threads c j)" "finished (c_threads c' j) = finished (c_threads c j)" for j
    using quiet cstep_others [OF step, of j] by (cases "j = i"; simp)+
  have "call_no (c_threads c' j) = call_no (c_threads c j)" for j unfolding call_no_def same by (rule refl)
  then show ?thesis using I quiet(1) same unfolding lin_inv_def call_view_def by simp
next
  case (invoked k call)
  then show ?thesis by (rule lin_inv_invoked [OF I step])
next
  case (performed k call res inner' marks)
  then show ?thesis by (rule lin_inv_performed [OF I step])
next
  case (returned k res)
  then show ?thesis by (rule lin_inv_returned [OF I step])
qed

lemma conc_reach_inv:
  assumes "conc_reach S st d c"
  shows "lin_inv st c \<and> locks_ok c \<and> map_option state_path (c_pers c) = map_option state_path (persistence_of st)"
  using assms
proof induction
  case started
  show ?case
    by (auto simp: lin_inv_def linearizes_def state_after_def locks_ok_def conc_of_def precedes_def call_no_def)
next
  case (stepped c i c')
  then show ?case using lin_inv_step cstep_locks cstep_pers by metis
qed

section \<open>Progress\<close>

text \<open>The bytes a thread is writing to the file.\<close>

fun carries :: "pc \<Rightarrow> bytes option" where
  "carries (Creating bs) = Some bs"
| "carries (Writing bs n) = Some bs"
| "carries (Renaming bs) = Some bs"
| "carries _ = None"

text \<open>How far a thread is from the end of its call, and how much of the file it still has to write.\<close>

fun phase :: "pc \<Rightarrow> nat" where
  "phase Idle = 0"
| "phase (Called k call) = 5"
| "phase (Locked k call) = 4"
| "phase (Marking k res) = 3"
| "phase (Marked k res) = 2"
| "phase (Returning k res) = 1"
| "phase Forcing = 10"
| "phase Forced = 9"
| "phase Flushing = 8"
| "phase Checking = 7"
| "phase Snapping = 6"
| "phase Serializing = 5"
| "phase (Creating bs) = 4"
| "phase (Writing bs n) = 3"
| "phase (Renaming bs) = 2"
| "phase Clearing = 1"

fun unwritten :: "pc \<Rightarrow> nat" where
  "unwritten (Writing bs n) = length bs - n"
| "unwritten _ = 0"

definition works :: "snapshot serde \<Rightarrow> store_limits \<Rightarrow> conc \<Rightarrow> conc \<Rightarrow> bool" where
  "works S l c c' \<longleftrightarrow> (\<exists>i. c_threads c i \<noteq> Idle \<and> cstep S l i c c')"

definition load :: "(pc \<Rightarrow> nat) \<Rightarrow> conc \<Rightarrow> nat" where
  "load f c = (\<Sum>i | c_threads c i \<noteq> Idle. f (c_threads c i))"

lemma cstep_thread: "cstep S l i c c' \<Longrightarrow> c_threads c' = (c_threads c)(i := c_threads c' i)"
  by (induction rule: cstep.induct) simp_all

lemma cstep_phase:
  assumes "cstep S l i c c'" "c_threads c i \<noteq> Idle"
  shows "phase (c_threads c' i) < phase (c_threads c i) \<or>
    phase (c_threads c' i) = phase (c_threads c i) \<and> unwritten (c_threads c' i) < unwritten (c_threads c i)"
  using assms by cases auto

lemma finite_busy:
  assumes "finite {i. c_threads c i \<noteq> Idle}" "cstep S l i c c'"
  shows "finite {i. c_threads c' i \<noteq> Idle}"
  by (rule finite_subset [OF _ finite.insertI [OF assms(1), of i]]) (use cstep_others [OF assms(2)] in auto)

lemma load_step:
  assumes fin: "finite {i. c_threads c i \<noteq> Idle}" and f: "f Idle = 0" and step: "cstep S l i c c'"
  shows "load f c' + f (c_threads c i) = load f c + f (c_threads c' i)"
proof -
  let ?B = "insert i {i. c_threads c i \<noteq> Idle}"
  have B: "finite ?B" "i \<in> ?B" using fin by simp_all
  have sup: "load f e = (\<Sum>i\<in>?B. f (c_threads e i))" if "{i. c_threads e i \<noteq> Idle} \<subseteq> ?B" for e
    unfolding load_def by (rule sum.mono_neutral_left [OF B(1) that]) (simp add: f)
  have "{i. c_threads c' i \<noteq> Idle} \<subseteq> ?B" using cstep_others [OF step] by auto
  then have "load f c' = f (c_threads c' i) + (\<Sum>j\<in>?B - {i}. f (c_threads c' j))"
    using sup [of c'] sum.remove [OF B, of "\<lambda>j. f (c_threads c' j)"] by auto
  moreover have "(\<Sum>j\<in>?B - {i}. f (c_threads c' j)) = (\<Sum>j\<in>?B - {i}. f (c_threads c j))"
    by (rule sum.cong) (simp_all add: cstep_others [OF step])
  moreover have "load f c = f (c_threads c i) + (\<Sum>j\<in>?B - {i}. f (c_threads c j))"
    using sup [of c] sum.remove [OF B, of "\<lambda>j. f (c_threads c j)"] by auto
  ultimately show ?thesis by simp
qed

definition busy_order :: "(conc \<times> conc) set" where
  "busy_order = inv_image (less_than <*lex*> less_than) (\<lambda>c. (load phase c, load unwritten c))"

lemma works_decreases:
  assumes "finite {i. c_threads c i \<noteq> Idle}" "works S l c c'"
  shows "(c', c) \<in> busy_order"
proof -
  obtain i where i: "c_threads c i \<noteq> Idle" "cstep S l i c c'" using assms(2) by (auto simp: works_def)
  show ?thesis
    using cstep_phase [OF i(2,1)] load_step [OF assms(1) _ i(2), of phase] load_step [OF assms(1) _ i(2), of unwritten]
    by (auto simp: busy_order_def)
qed

lemma conc_reach_finite: "conc_reach S st d c \<Longrightarrow> finite {i. c_threads c i \<noteq> Idle}"
  by (induction rule: conc_reach.induct) (simp add: conc_of_def, rule finite_busy)

text \<open>A thread past the check of a flush belongs to a file-backed store.\<close>

fun writes :: "pc \<Rightarrow> bool" where
  "writes Snapping = True"
| "writes Serializing = True"
| "writes (Creating bs) = True"
| "writes (Writing bs n) = True"
| "writes (Renaming bs) = True"
| "writes _ = False"

lemma conc_reach_writes: "conc_reach S st d c \<Longrightarrow> writes (c_threads c i) \<Longrightarrow> c_pers c \<noteq> None"
proof (induction arbitrary: i rule: conc_reach.induct)
  case (stepped c j c')
  have "c_pers c \<noteq> None \<Longrightarrow> c_pers c' \<noteq> None" using cstep_pers [OF stepped.hyps(2)] by auto
  moreover have "writes (c_threads c i) \<or> c_pers c' \<noteq> None"
    using stepped.hyps(2) stepped.prems by cases (auto simp: flush_due_def split: if_splits option.splits)
  ultimately show ?case using stepped.IH by blast
qed (simp add: conc_of_def)

definition advances :: "snapshot serde \<Rightarrow> store_limits \<Rightarrow> conc \<Rightarrow> nat \<Rightarrow> bool" where
  "advances S l c j \<longleftrightarrow> (\<exists>c'. cstep S l j c c' \<and> (carries (c_threads c j) \<noteq> None \<longrightarrow> c_threads c' j \<noteq> Idle))"

lemma advancesI: "cstep S l j c c' \<Longrightarrow> (carries (c_threads c j) \<noteq> None \<Longrightarrow> c_threads c' j \<noteq> Idle) \<Longrightarrow> advances S l c j"
  by (auto simp: advances_def)

lemma holder_inner_advances: "holds_inner (c_threads c j) \<Longrightarrow> advances S l c j"
proof (cases "c_threads c j" rule: holds_inner.cases)
  case (1 k call)
  obtain res inner' marks where "crit l call (c_inner c) = (res, inner', marks)" by (metis prod_cases3)
  from cstep.body [where S = S, OF 1 this] show ?thesis by (rule advancesI) (simp add: 1)
next
  case 2
  show ?thesis by (rule advancesI [OF cstep.serialize [OF 2]]) (simp add: 2)
qed simp_all

lemma holder_pers_advances:
  assumes "holds_pers (c_threads c j)" "c_inner_lock c = None" "writes (c_threads c j) \<Longrightarrow> c_pers c \<noteq> None"
  shows "advances S l c j"
proof (cases "c_threads c j")
  case Checking
  then show ?thesis
    using cstep.due [OF Checking, of 0 S l] cstep.not_due [OF Checking, of 0 S l] unfolding advances_def by fastforce
next
  case (Creating bs)
  then obtain p where "c_pers c = Some p" using assms(3) by auto
  from cstep.create [where S = S and l = l, OF Creating this] show ?thesis by (rule advancesI) simp
next
  case (Writing bs n)
  then obtain p where p: "c_pers c = Some p" using assms(3) by auto
  show ?thesis
  proof (cases "n < length bs")
    case True
    show ?thesis by (rule advancesI [OF cstep.write_piece [OF Writing p True order.refl]]) simp
  next
    case False
    show ?thesis by (rule advancesI [OF cstep.written [OF Writing]]) (use False in simp_all)
  qed
next
  case (Renaming bs)
  then obtain p where "c_pers c = Some p" using assms(3) by auto
  from cstep.rename [where S = S and l = l, OF Renaming this] show ?thesis by (rule advancesI) simp
qed (use assms(1,2) in \<open>auto intro: advancesI cstep.intros\<close>)

lemma free_advances:
  assumes "c_threads c j \<noteq> Idle" "c_inner_lock c = None" "c_pers_lock c = None" "\<not> holds_pers (c_threads c j)" "\<not> holds_inner (c_threads c j)"
  shows "advances S l c j"
proof (cases "c_threads c j")
  case (Called k call)
  show ?thesis
  proof (cases "refused l call")
    case True
    show ?thesis by (rule advancesI [OF cstep.refuse [OF Called True]]) (simp add: Called)
  next
    case False
    show ?thesis by (rule advancesI [OF cstep.lock [OF Called False assms(2)]]) (simp add: Called)
  qed
qed (use assms in \<open>auto intro: advancesI cstep.intros\<close>)

lemma some_advances:
  assumes "conc_reach S st d c" "c_threads c i \<noteq> Idle"
  shows "\<exists>j. c_threads c j \<noteq> Idle \<and> advances S (limits st) c j"
proof -
  have locks: "locks_ok c" using conc_reach_inv [OF assms(1)] by simp
  consider j where "c_inner_lock c = Some j" | j where "c_inner_lock c = None" "c_pers_lock c = Some j"
    | "c_inner_lock c = None" "c_pers_lock c = None" by blast
  then show ?thesis
  proof cases
    case (1 j)
    then have "holds_inner (c_threads c j)" using locks by (simp add: locks_ok_def)
    then show ?thesis using holder_inner_advances by (intro exI [of _ j]) auto
  next
    case (2 j)
    then have "holds_pers (c_threads c j)" using locks by (simp add: locks_ok_def)
    then show ?thesis using holder_pers_advances [OF _ 2(1)] conc_reach_writes [OF assms(1)] by (intro exI [of _ j]) auto
  next
    case 3
    then have "\<not> holds_pers (c_threads c i)" "\<not> holds_inner (c_threads c i)" using locks by (simp_all add: locks_ok_def)
    then show ?thesis using free_advances [OF assms(2) 3] assms(2) by blast
  qed
qed

text \<open>A call that has nothing to mark, made and finished by one thread.\<close>

lemma call_completes:
  assumes "conc_reach S st d c" "c_threads c i = Idle" "c_inner_lock c = None" "\<not> refused (limits st) call"
    "crit (limits st) call (c_inner c) = (res, inner', False)"
  defines "k \<equiv> length (c_history c)"
  shows "\<exists>c'. conc_reach S st d c' \<and> c_history c' = c_history c @ [Invoke k call, Respond k res]"
proof -
  let ?one = "goto i (Called k call) (c\<lparr>c_history := c_history c @ [Invoke k call]\<rparr>)"
  let ?two = "goto i (Locked k call) (?one\<lparr>c_inner_lock := Some i\<rparr>)"
  let ?three = "goto i (Returning k res) (?two\<lparr>c_inner := inner', c_inner_lock := None,
    c_log := c_log ?two @ [\<lparr>le_id = k, le_call = call, le_result = res\<rparr>]\<rparr>)"
  have "cstep S (limits st) i c ?one" unfolding k_def by (rule cstep.invoke [OF assms(2)])
  moreover have "cstep S (limits st) i ?one ?two" by (rule cstep.lock) (simp_all add: assms)
  moreover have "cstep S (limits st) i ?two ?three"
    using cstep.body [where c = ?two and i = i and k = k and call = call and res = res and marks = False] assms(5) by simp
  moreover have "cstep S (limits st) i ?three (goto i Idle (?three\<lparr>c_history := c_history ?three @ [Respond k res]\<rparr>))"
    by (rule cstep.return) simp
  ultimately have "conc_reach S st d (goto i Idle (?three\<lparr>c_history := c_history ?three @ [Respond k res]\<rparr>))"
    using conc_reach.stepped [OF conc_reach.stepped [OF conc_reach.stepped [OF conc_reach.stepped [OF assms(1)]]]] by blast
  moreover have "c_history (goto i Idle (?three\<lparr>c_history := c_history ?three @ [Respond k res]\<rparr>)) =
    c_history c @ [Invoke k call, Respond k res]" by simp
  ultimately show ?thesis by blast
qed

section \<open>Properties\<close>



text \<open>
  C26: no deadlock, and every call comes to an end. While a thread is inside a call, some thread can take a step of its
  call, and not only by having a write fail; and without new calls the threads can take only finitely many steps, however
  they are scheduled.
\<close>

theorem store_calls_finish:
  "wf {(c', c). conc_reach S st d c \<and> works S (limits st) c c'} \<and>
   (conc_reach S st d c \<and> c_threads c i \<noteq> Idle \<longrightarrow>
     (\<exists>j c'. c_threads c j \<noteq> Idle \<and> cstep S (limits st) j c c' \<and>
        (carries (c_threads c j) \<noteq> None \<longrightarrow> c_threads c' j \<noteq> Idle)))"
proof -
  have "{(c', c). conc_reach S st d c \<and> works S (limits st) c c'} \<subseteq> busy_order"
    using works_decreases [OF conc_reach_finite] by blast
  then have "wf {(c', c). conc_reach S st d c \<and> works S (limits st) c c'}"
    unfolding busy_order_def by (rule wf_subset [OF wf_inv_image [OF wf_lex_prod [OF wf_less_than wf_less_than]]])
  then show ?thesis using some_advances [of S st d c i] unfolding advances_def by blast
qed

theorem store_calls_finish_witness:
  "\<exists>c. conc_reach (serde_of snapshot_fmt) store_new fmempty c \<and> c_threads c 2 = Flushing \<and>
     (\<exists>j c'. c_threads c j \<noteq> Idle \<and> cstep (serde_of snapshot_fmt) (limits store_new) j c c')"
proof -
  let ?c = "goto 2 Flushing (conc_of store_new fmempty)"
  have c: "conc_reach (serde_of snapshot_fmt) store_new fmempty ?c"
    by (rule conc_reach.stepped [OF conc_reach.started cstep.call_flush]) (simp add: conc_of_def)
  have busy: "c_threads ?c 2 = Flushing" by simp
  then have "c_threads ?c 2 \<noteq> Idle" by (simp only: pc.distinct not_False_eq_True)
  then show ?thesis
    using store_calls_finish [of "serde_of snapshot_fmt" store_new fmempty ?c 2] c busy by blast
qed

end
