(* ===== verification/Relay_Durability.thy ===== *)
theory Relay_Durability
  imports Relay_Threads
begin

text \<open>
  The state file of the relay under concurrent use (\<^verbatim>\<open>relay/src/store.rs\<close>, \<open>maybe_flush\<close> and \<open>mark_dirty\<close> among other
  threads): what a restart finds at any moment, and that a flush nobody disturbs is the sequential one.
\<close>

section \<open>The state file under concurrent use\<close>

text \<open>A restart finds this state in the file.\<close>

definition opens :: "snapshot serde \<Rightarrow> string \<Rightarrow> disk \<Rightarrow> relay_inner \<Rightarrow> bool" where
  "opens S path d inner \<longleftrightarrow> (\<forall>now l. store_open S now path l (read_file d path) = Inr \<lparr>rs_inner = inner, limits = l,
     persistence_of = Some \<lparr>state_path = path, dirty = False, last_flush = now\<rparr>\<rparr>)"

fun marking :: "pc \<Rightarrow> nat option" where
  "marking (Marking k res) = Some k"
| "marking (Marked k res) = Some k"
| "marking _ = None"

text \<open>Every visible change after the first \<open>n\<close> calls is still to be marked.\<close>

definition covered :: "relay_store \<Rightarrow> conc \<Rightarrow> nat \<Rightarrow> bool" where
  "covered st c n \<longleftrightarrow> (\<forall>m. n \<le> m \<and> m < length (c_log c) \<and>
     \<not> inner_equiv (state_after st (c_log c) m) (state_after st (c_log c) (Suc m)) \<longrightarrow>
     (\<exists>i. marking (c_threads c i) = Some (le_id (c_log c ! m))))"

definition disk_has :: "snapshot serde \<Rightarrow> string \<Rightarrow> relay_store \<Rightarrow> conc \<Rightarrow> bool" where
  "disk_has S path st c \<longleftrightarrow> (\<exists>n\<le>length (c_log c). opens S path (c_disk c) (state_after st (c_log c) n) \<and>
     (covered st c n \<or> (\<exists>p. c_pers c = Some p \<and> dirty p) \<and> (\<forall>i. c_threads c i \<noteq> Clearing)))"

definition carry_ok :: "snapshot serde \<Rightarrow> relay_store \<Rightarrow> conc \<Rightarrow> bool" where
  "carry_ok S st c \<longleftrightarrow> (\<forall>i bs. carries (c_threads c i) = Some bs \<longrightarrow>
     (\<exists>n\<le>length (c_log c). bs = ser S \<lparr>sn_version = SNAPSHOT_VERSION, sn_inner = state_after st (c_log c) n\<rparr> \<and> covered st c n))"

lemma store_open_opens:
  assumes "store_open S now path l (read_file d path) = Inr st"
  shows "opens S path d (rs_inner st) \<and> limits st = l \<and> map_option state_path (persistence_of st) = Some path"
  using assms by (auto simp: opens_def store_open_def Let_def split: read_result.splits sum.splits if_splits)

lemma opens_other: "q \<noteq> path \<Longrightarrow> opens S path (fmupd q x d) inner = opens S path d inner"
  by (simp add: opens_def read_file_def)

lemma opens_snapshot: "serde_ok S \<Longrightarrow> opens S path (fmupd path (ser S \<lparr>sn_version = SNAPSHOT_VERSION, sn_inner = inner\<rparr>) d) inner"
  using open_disk [of S path _ inner] by (simp add: opens_def disk_inner_def)

lemma covered_kept:
  assumes "covered st c n" "c_log c' = c_log c" "\<And>j k. marking (c_threads c j) = Some k \<Longrightarrow> marking (c_threads c' j) = Some k"
  shows "covered st c' n"
  using assms unfolding covered_def by metis

lemma covered_logged:
  assumes I: "lin_inv st c" "covered st c n" "n \<le> length (c_log c)"
    and e: "c_log c' = c_log c @ [\<lparr>le_id = k, le_call = call, le_result = res\<rparr>]" "crit (limits st) call (c_inner c) = (res, inner', marks)"
    and i: "marking (c_threads c i) = None" "marks \<Longrightarrow> marking (c_threads c' i) = Some k"
    and others: "\<And>j. j \<noteq> i \<Longrightarrow> c_threads c' j = c_threads c j"
  shows "covered st c' n"
  unfolding covered_def
proof (intro allI impI; elim conjE)
  fix m assume m: "n \<le> m" "m < length (c_log c')"
    "\<not> inner_equiv (state_after st (c_log c') m) (state_after st (c_log c') (Suc m))"
  show "\<exists>i. marking (c_threads c' i) = Some (le_id (c_log c' ! m))"
  proof (cases "m < length (c_log c)")
    case True
    then obtain j where "marking (c_threads c j) = Some (le_id (c_log c ! m))"
      using I(2) m unfolding covered_def by (auto simp: e(1) state_after_append)
    moreover from this have "j \<noteq> i" using i(1) by auto
    ultimately show ?thesis using True others [of j] by (intro exI [of _ j]) (simp add: e(1) nth_append)
  next
    case False
    then have "m = length (c_log c)" using m(2) by (simp add: e(1))
    then have marks: "marks" "c_log c' ! m = \<lparr>le_id = k, le_call = call, le_result = res\<rparr>"
      using m(3) lin_invD(2) [OF I(1)] crit_unmarked [of "limits st" call "c_inner c" res inner'] e(2)
      by (auto simp: e(1) state_after_append state_after_snoc nth_append)
    show ?thesis unfolding marks(2) using i(2) [OF marks(1)] by auto
  qed
qed

lemma covered_step:
  assumes I: "lin_inv st c" and step: "cstep S (limits st) i c c'" and i: "\<And>k res. c_threads c i \<noteq> Marked k res"
    and n: "n \<le> length (c_log c)"
  shows "n \<le> length (c_log c') \<and> state_after st (c_log c') n = state_after st (c_log c) n \<and> (covered st c n \<longrightarrow> covered st c' n)"
proof -
  have others: "\<And>j. j \<noteq> i \<Longrightarrow> c_threads c' j = c_threads c j" by (rule cstep_others [OF step])
  show ?thesis
    using step
  proof cases
    case (refuse k call)
    then show ?thesis using covered_logged [where i = i, OF I _ n _ crit_refused [OF refuse(3)] _ _ others] n
      by (simp add: state_after_append)
  next
    case (body k call res inner' marks)
    then show ?thesis using covered_logged [where i = i, OF I _ n _ body(3) _ _ others] n by (simp add: state_after_append)
  next
    case (mark k res)
    then show ?thesis using i by simp
  next
    case (io_error bs m)
    then show ?thesis using n by (auto elim!: covered_kept)
  qed (use n in \<open>auto elim!: covered_kept\<close>)
qed

lemma alone:
  assumes "locks_ok c" "holds_pers (c_threads c i)" "j \<noteq> i"
  shows "\<not> holds_pers (c_threads c j)"
  using assms unfolding locks_ok_def by (metis option.inject)

lemma carries_holds: "carries q = Some bs \<Longrightarrow> holds_pers q"
  by (cases q) simp_all

lemma carry_step:
  assumes I: "lin_inv st c" "locks_ok c" "carry_ok S st c" and step: "cstep S (limits st) i c c'"
  shows "carry_ok S st c'"
  unfolding carry_ok_def
proof (intro allI impI)
  fix j bs assume j: "carries (c_threads c' j) = Some bs"
  show "\<exists>n\<le>length (c_log c'). bs = ser S \<lparr>sn_version = SNAPSHOT_VERSION, sn_inner = state_after st (c_log c') n\<rparr> \<and> covered st c' n"
  proof (cases "carries (c_threads c j) = Some bs")
    case True
    have "c_threads c i \<noteq> Marked k res" for k res
      using alone [OF I(2) carries_holds [OF True], of i] True by (cases "j = i") auto
    then show ?thesis using I(3) True covered_step [OF I(1) step] unfolding carry_ok_def by metis
  next
    case False
    then have "j = i" using j cstep_others [OF step, of j] by metis
    with step j False show ?thesis
      by cases (auto simp: lin_invD(2) [OF I(1)] covered_def intro!: exI [of _ "length (c_log c)"])
  qed
qed

lemma disk_mark:
  assumes "locks_ok c" "disk_has S path st c" "map_option state_path (c_pers c) = Some path" "c_threads c i = Marked k res"
  shows "disk_has S path st (goto i (Returning k res)
    (c\<lparr>c_pers := map_option (\<lambda>p. p\<lparr>dirty := True\<rparr>) (c_pers c), c_pers_lock := None\<rparr>))"
proof -
  have "c_threads c j \<noteq> Clearing" for j using alone [OF assms(1), of i j] assms(4) by (cases "j = i") auto
  then show ?thesis using assms(2,3) unfolding disk_has_def by auto
qed

lemma disk_rename:
  assumes "serde_ok S" "with_extension_tmp path \<noteq> path" "carry_ok S st c"
    "map_option state_path (c_pers c) = Some path" "c_threads c i = Renaming bs" "c_pers c = Some p"
  shows "disk_has S path st (goto i Clearing
    (c\<lparr>c_disk := fmupd (state_path p) bs (fmdrop (with_extension_tmp (state_path p)) (c_disk c))\<rparr>))" (is "disk_has S path st ?c")
proof -
  obtain n where n: "n \<le> length (c_log c)" "bs = ser S \<lparr>sn_version = SNAPSHOT_VERSION, sn_inner = state_after st (c_log c) n\<rparr>"
    "covered st c n"
    using assms(3,5) unfolding carry_ok_def by (metis carries.simps(3))
  have "covered st ?c n" by (rule covered_kept [OF n(3)]) (use assms(5) in auto)
  then show ?thesis
    unfolding disk_has_def using n(1,2) assms(4,6) opens_snapshot [OF assms(1)] by (intro exI [of _ n]) simp
qed

text \<open>Every other step leaves the file as it is, and a set dirty flag too unless it ends a flush.\<close>

lemma disk_kept:
  assumes I: "lin_inv st c" "disk_has S path st c" and step: "cstep S (limits st) i c c'"
    and i: "\<And>k res. c_threads c i \<noteq> Marked k res" "\<And>inner. opens S path (c_disk c') inner = opens S path (c_disk c) inner"
    and p: "(\<exists>i. c_threads c i = Clearing) \<or>
      ((\<exists>p. c_pers c = Some p \<and> dirty p) \<longrightarrow> (\<exists>p. c_pers c' = Some p \<and> dirty p)) \<and> c_threads c' i \<noteq> Clearing"
  shows "disk_has S path st c'"
proof -
  obtain n where n: "n \<le> length (c_log c)" "opens S path (c_disk c) (state_after st (c_log c) n)"
    "covered st c n \<or> (\<exists>p. c_pers c = Some p \<and> dirty p) \<and> (\<forall>i. c_threads c i \<noteq> Clearing)"
    using I(2) unfolding disk_has_def by blast
  note kept = covered_step [OF I(1) step i(1) n(1)]
  have "covered st c' n \<or> (\<exists>p. c_pers c' = Some p \<and> dirty p) \<and> (\<forall>j. c_threads c' j \<noteq> Clearing)"
    using n(3) p kept cstep_others [OF step] by metis
  then show ?thesis unfolding disk_has_def using n(2) kept i(2) by (intro exI [of _ n]) simp
qed

lemma disk_step:
  assumes S: "serde_ok S" "with_extension_tmp path \<noteq> path"
    and I: "lin_inv st c" "locks_ok c" "carry_ok S st c" "disk_has S path st c" "map_option state_path (c_pers c) = Some path"
    and step: "cstep S (limits st) i c c'"
  shows "disk_has S path st c'"
  using step
proof cases
  case (mark k res)
  then show ?thesis using disk_mark [OF I(2,4,5)] by simp
next
  case (rename bs p)
  then show ?thesis using disk_rename [OF S I(3,5)] by simp
next
  case (create bs p)
  then show ?thesis using I(5) S(2) by (intro disk_kept [OF I(1,4) step]) (simp_all add: opens_other)
next
  case (write_piece bs n p m)
  then show ?thesis using I(5) S(2) by (intro disk_kept [OF I(1,4) step]) (simp_all add: opens_other)
next
  case (body k call res inner' marks)
  then show ?thesis by (intro disk_kept [OF I(1,4) step]) simp_all
next
  case (clear t)
  then show ?thesis by (intro disk_kept [OF I(1,4) step]) auto
next
  case (io_error bs n)
  then show ?thesis by (intro disk_kept [OF I(1,4) step]) auto
qed (intro disk_kept [OF I(1,4) step]; force)+

lemma conc_reach_disk:
  assumes "conc_reach S st d c" "serde_ok S" "with_extension_tmp path \<noteq> path" "opens S path d (rs_inner st)"
    "map_option state_path (persistence_of st) = Some path"
  shows "carry_ok S st c \<and> disk_has S path st c"
  using assms(1)
proof induction
  case started
  show ?case using assms(4) by (simp add: carry_ok_def disk_has_def conc_of_def covered_def state_after_def)
next
  case (stepped c i c')
  note I = conc_reach_inv [OF stepped.hyps(1)]
  have "disk_has S path st c'" using disk_step [OF assms(2,3) _ _ _ _ _ stepped.hyps(2)] I stepped.IH assms(5) by simp
  moreover have "carry_ok S st c'" using carry_step [OF _ _ _ stepped.hyps(2)] I stepped.IH by blast
  ultimately show ?case by blast
qed

text \<open>A flush that no other thread and no fault disturbs does exactly what the sequential \<open>maybe_flush\<close> does.\<close>

lemma file_written:
  assumes "conc_reach S st d c" "c_threads c i = Creating bs" "c_pers c = Some p"
  shows "\<exists>c'. conc_reach S st d c' \<and> c_threads c' i = Renaming bs \<and>
    c_disk c' = fmupd (with_extension_tmp (state_path p)) bs (c_disk c) \<and> c_pers c' = c_pers c \<and> c_inner c' = c_inner c"
proof -
  let ?tmp = "with_extension_tmp (state_path p)"
  let ?w = "goto i (Writing bs 0) (c\<lparr>c_disk := fmupd ?tmp [] (c_disk c)\<rparr>)"
  have w: "conc_reach S st d ?w" by (rule conc_reach.stepped [OF assms(1) cstep.create [OF assms(2,3)]])
  show ?thesis
  proof (cases "bs = []")
    case True
    have "conc_reach S st d (goto i (Renaming bs) ?w)" by (rule conc_reach.stepped [OF w cstep.written]) (simp_all add: True)
    then show ?thesis by (intro exI conjI, assumption) (simp_all add: True)
  next
    case False
    let ?v = "goto i (Writing bs (length bs)) (?w\<lparr>c_disk := fmupd ?tmp (take (length bs) bs) (c_disk ?w)\<rparr>)"
    have "conc_reach S st d ?v"
      by (rule conc_reach.stepped [OF w cstep.write_piece [where n = 0 and p = p]]) (use False assms(3) in simp_all)
    then have "conc_reach S st d (goto i (Renaming bs) ?v)"
      by (rule conc_reach.stepped [OF _ cstep.written [where n = "length bs"]]) simp_all
    then show ?thesis by (intro exI conjI, assumption) simp_all
  qed
qed

lemma file_replaced:
  assumes "conc_reach S st d c" "c_threads c i = Renaming bs" "c_pers c = Some p"
  shows "\<exists>c'. conc_reach S st d c' \<and> c_threads c' i = Idle \<and> c_inner c' = c_inner c \<and>
    c_disk c' = fmupd (state_path p) bs (fmdrop (with_extension_tmp (state_path p)) (c_disk c)) \<and>
    c_pers c' = Some (p\<lparr>dirty := False, last_flush := t\<rparr>)"
proof -
  let ?r = "goto i Clearing (c\<lparr>c_disk := fmupd (state_path p) bs (fmdrop (with_extension_tmp (state_path p)) (c_disk c))\<rparr>)"
  have "conc_reach S st d ?r" by (rule conc_reach.stepped [OF assms(1) cstep.rename [OF assms(2,3)]])
  then have "conc_reach S st d (goto i Idle (?r\<lparr>c_pers := map_option (\<lambda>p. p\<lparr>dirty := False, last_flush := t\<rparr>) (c_pers ?r), c_pers_lock := None\<rparr>))"
    by (rule conc_reach.stepped [OF _ cstep.clear]) simp
  then show ?thesis by (intro exI conjI, assumption) (simp_all add: assms(3))
qed

lemma flush_alone:
  assumes c: "conc_reach S st d c" "c_threads c i = Idle" "c_inner_lock c = None" "c_pers_lock c = None"
    and M: "maybe_flush S NoFault now t \<lparr>rs_inner = c_inner c, limits = l, persistence_of = c_pers c\<rparr> (c_disk c) = (r, st', d')"
  shows "\<exists>c'. conc_reach S st d c' \<and> c_inner c' = rs_inner st' \<and> c_pers c' = persistence_of st' \<and> c_disk c' = d' \<and>
    c_threads c' i = Idle"
proof -
  let ?check = "goto i Checking ((goto i Flushing c)\<lparr>c_pers_lock := Some i\<rparr>)"
  have check: "conc_reach S st d ?check"
    by (rule conc_reach.stepped [OF conc_reach.stepped [OF c(1) cstep.call_flush [OF c(2)]] cstep.flush_lock]) (simp_all add: c(4))
  show ?thesis
  proof (cases "flush_due now (c_pers c)")
    case False
    have "conc_reach S st d (goto i Idle (?check\<lparr>c_pers_lock := None\<rparr>))"
      by (rule conc_reach.stepped [OF check cstep.not_due [of _ _ now]]) (simp_all add: False)
    then show ?thesis using M False
      by (intro exI [of _ "goto i Idle (?check\<lparr>c_pers_lock := None\<rparr>)"])
        (auto simp: maybe_flush_def flush_due_def split: option.splits if_splits)
  next
    case True
    then obtain p where p: "c_pers c = Some p" by (auto simp: flush_due_def split: option.splits)
    let ?bs = "ser S \<lparr>sn_version = SNAPSHOT_VERSION, sn_inner = c_inner c\<rparr>" and ?tmp = "with_extension_tmp (state_path p)"
    let ?ser = "goto i Serializing ((goto i Snapping ?check)\<lparr>c_inner_lock := Some i\<rparr>)"
    let ?new = "goto i (Creating ?bs) (?ser\<lparr>c_inner_lock := None\<rparr>)"
    have "conc_reach S st d (goto i Snapping ?check)"
      by (rule conc_reach.stepped [OF check cstep.due [of _ _ now]]) (simp_all add: True)
    then have "conc_reach S st d ?ser" by (rule conc_reach.stepped [OF _ cstep.snap_lock]) (simp_all add: c(3))
    then have "conc_reach S st d ?new" using conc_reach.stepped [OF _ cstep.serialize [of ?ser i]] by simp
    from file_written [OF this, of i ?bs p] obtain w where w: "conc_reach S st d w" "c_threads w i = Renaming ?bs"
      "c_disk w = fmupd ?tmp ?bs (c_disk c)" "c_pers w = Some p" "c_inner w = c_inner c" by (auto simp: p)
    have "fmdrop ?tmp (fmupd ?tmp ?bs (c_disk c)) = fmdrop ?tmp (c_disk c)" by (rule fmap_ext) simp
    then show ?thesis using file_replaced [OF w(1,2,4), of t] M True
      by (auto simp: maybe_flush_def flush_due_def p w Let_def)
  qed
qed

section \<open>The property\<close>

text \<open>
  C15: crash safety under concurrency. At every moment of concurrent use, in the middle of a snapshot write too, a restart
  finds the state the store had after some of the calls in their sequential order, never a torn file; and when the dirty
  flag is clear, every later call that changed anything visible has not yet returned to its caller.
\<close>

theorem concurrent_crash_safe:
  assumes "serde_ok S" "with_extension_tmp path \<noteq> path" "store_open S t path l (read_file d path) = Inr st" "conc_reach S st d c"
  shows "\<exists>n\<le>length (c_log c). \<exists>st' p. store_open S now path l (read_file (c_disk c) path) = Inr st' \<and>
    rs_inner st' = state_after st (c_log c) n \<and> c_pers c = Some p \<and>
    (\<forall>m. n \<le> m \<and> m < length (c_log c) \<and> \<not> dirty p \<and>
       \<not> inner_equiv (state_after st (c_log c) m) (state_after st (c_log c) (Suc m)) \<longrightarrow>
       (\<forall>res. Respond (le_id (c_log c ! m)) res \<notin> set (c_history c)))"
proof -
  note op = store_open_opens [OF assms(3)]
  note I = conc_reach_inv [OF assms(4)]
  obtain n where n: "n \<le> length (c_log c)" "opens S path (c_disk c) (state_after st (c_log c) n)"
    "covered st c n \<or> (\<exists>p. c_pers c = Some p \<and> dirty p)"
    using conc_reach_disk [OF assms(4,1,2)] op unfolding disk_has_def by blast
  obtain p where p: "c_pers c = Some p" using I op by auto
  have "Respond k res \<notin> set (c_history c)" if "marking (c_threads c i) = Some k" for i k res
    using that lin_invD(4) [of st c i k] I by (cases "c_threads c i") auto
  then have "\<forall>m. n \<le> m \<and> m < length (c_log c) \<and> \<not> dirty p \<and>
       \<not> inner_equiv (state_after st (c_log c) m) (state_after st (c_log c) (Suc m)) \<longrightarrow>
       (\<forall>res. Respond (le_id (c_log c ! m)) res \<notin> set (c_history c))"
    using n(3) p unfolding covered_def by auto
  then show ?thesis using n(1,2) p unfolding opens_def by (intro exI [of _ n] conjI exI) auto
qed

theorem concurrent_crash_safe_witness:
  "\<exists>st c. store_open (serde_of snapshot_fmt) 0 ''relay.bin'' default_limits (read_file fmempty ''relay.bin'') = Inr st \<and>
     conc_reach (serde_of snapshot_fmt) st fmempty c \<and> c_threads c 3 = Called 0 (Sweep_Expired 9) \<and>
     (\<exists>st'. store_open (serde_of snapshot_fmt) 7 ''relay.bin'' default_limits (read_file (c_disk c) ''relay.bin'') = Inr st')"
proof -
  obtain st where st: "store_open (serde_of snapshot_fmt) 0 ''relay.bin'' default_limits (read_file fmempty ''relay.bin'') = Inr st"
    by (simp add: store_open_def read_file_def)
  have tmp: "with_extension_tmp ''relay.bin'' \<noteq> ''relay.bin''" by code_simp
  have "conc_reach (serde_of snapshot_fmt) st fmempty (goto 3 (Called 0 (Sweep_Expired 9))
      ((conc_of st fmempty)\<lparr>c_history := [Invoke 0 (Sweep_Expired 9)]\<rparr>))" (is "conc_reach _ _ _ ?c")
    using conc_reach.stepped [OF conc_reach.started cstep.invoke, of st fmempty 3 "serde_of snapshot_fmt" "Sweep_Expired 9"]
    by (simp add: conc_of_def)
  from concurrent_crash_safe [OF serde_of_ok [OF snapshot_fmt_ok] tmp st this, of 7] show ?thesis
    using st \<open>conc_reach _ _ _ ?c\<close> by (intro exI [of _ st] exI [of _ ?c]) auto
qed

end
