(* ===== verification/Group.thy ===== *)
theory Group
  imports Prelude
begin

text \<open>
  Group messaging (\<open>group/src/lib.rs\<close>): a thin wrapper over the OpenMLS library and the framing its persisted
  state uses. OpenMLS is not in the repository, so the entry points the wrapper calls are two records of
  parameters: \<open>mls_identity\<close> for the credentials and signature keys, \<open>mls_groups\<close> for the group operations.
  Their opaque Rust types are type variables. The in-memory key store of the provider is public and read directly
  by the source, so it is modelled: a \<open>HashMap\<close> of byte strings behind a lock that a panicking thread can poison.
  A library call that takes the provider returns the provider it leaves behind.

  The framing is modelled with the source's \<open>Cursor\<close>: an index into the input, every advance of which is a checked
  addition on \<open>usize\<close>. The lemmas show that \<open>unframe\<close> accepts exactly what \<open>frame\<close> writes, and that a client
  survives being exported and imported, whatever order the hash map iterates in.
\<close>

section \<open>Errors and library parameters\<close>

datatype group_error = GMls string | GCodec string | GState | GUnknownGroup

definition mls :: "string + 'a \<Rightarrow> group_error + 'a" where
  "mls r = map_err GMls r"

definition gcodec :: "string + 'a \<Rightarrow> group_error + 'a" where
  "gcodec r = map_err GCodec r"

datatype ciphersuite = MLS_128_DHKEMX25519_AES128GCM_SHA256_Ed25519

definition CIPHERSUITE :: ciphersuite where
  "CIPHERSUITE = MLS_128_DHKEMX25519_AES128GCM_SHA256_Ed25519"

datatype mls_protocol = Mls10

definition MLS_VERSION :: mls_protocol where
  "MLS_VERSION = Mls10"

record provider =
  pv_values :: "(bytes, bytes) fmap"
  pv_poisoned :: bool

definition provider_default :: provider where
  "provider_default = \<lparr>pv_values = fmempty, pv_poisoned = False\<rparr>"

record 'c credential_with_key =
  cw_credential :: 'c
  cw_signature_key :: bytes

record ('s, 'c) mls_identity =
  sig_new :: "ciphersuite \<Rightarrow> bytes \<Rightarrow> string + 's"
    \<comment> \<open>\<open>SignatureKeyPair::new\<close> for the suite's algorithm, on the generator's output\<close>
  sig_store :: "'s \<Rightarrow> provider \<Rightarrow> (string + unit) \<times> provider"
  sig_read :: "provider \<Rightarrow> bytes \<Rightarrow> ciphersuite \<Rightarrow> 's option"
  sig_public :: "'s \<Rightarrow> bytes"
  basic_credential :: "bytes \<Rightarrow> 'c"
  credential_identity :: "'c \<Rightarrow> bytes option"
    \<comment> \<open>\<open>BasicCredential::try_from\<close>, then its identity\<close>

datatype ('w, 'x) message_body = Welcome_In 'w | Other_Body 'x

datatype 'sc processed_content =
    ApplicationMessage bytes | StagedCommitMessage 'sc | ProposalMessage | ExternalJoinProposalMessage

record join_config =
  use_ratchet_tree_extension :: bool

record ('s, 'c, 'g, 'kin, 'kp, 'min, 'w, 'x, 'sw, 'out, 'pm, 'sc) mls_groups =
  kp_build :: "ciphersuite \<Rightarrow> provider \<Rightarrow> 's \<Rightarrow> 'c credential_with_key \<Rightarrow> bytes \<Rightarrow> (string + 'kp) \<times> provider"
  kp_serialize :: "'kp \<Rightarrow> string + bytes"
  kp_deserialize :: "bytes \<Rightarrow> string + 'kin"
  kp_validate :: "'kin \<Rightarrow> mls_protocol \<Rightarrow> string + 'kp"
  group_new :: "provider \<Rightarrow> 's \<Rightarrow> join_config \<Rightarrow> bytes \<Rightarrow> 'c credential_with_key \<Rightarrow> bytes \<Rightarrow> (string + 'g) \<times> provider"
  group_load :: "provider \<Rightarrow> bytes \<Rightarrow> string + 'g option"
  group_id_of :: "'g \<Rightarrow> bytes"
  group_members :: "'g \<Rightarrow> (u32 \<times> 'c) list"
  message_deserialize :: "bytes \<Rightarrow> string + 'min"
  message_extract :: "'min \<Rightarrow> ('w, 'x) message_body"
  staged_welcome :: "provider \<Rightarrow> join_config \<Rightarrow> 'w \<Rightarrow> (string + 'sw) \<times> provider"
  welcome_into_group :: "'sw \<Rightarrow> provider \<Rightarrow> (string + 'g) \<times> provider"
  add_members :: "'g \<Rightarrow> provider \<Rightarrow> 's \<Rightarrow> 'kp list \<Rightarrow> bytes \<Rightarrow> (string + 'out \<times> 'out) \<times> 'g \<times> provider"
  remove_members :: "'g \<Rightarrow> provider \<Rightarrow> 's \<Rightarrow> u32 list \<Rightarrow> bytes \<Rightarrow> (string + 'out) \<times> 'g \<times> provider"
  merge_pending_commit :: "'g \<Rightarrow> provider \<Rightarrow> (string + unit) \<times> 'g \<times> provider"
  create_message :: "'g \<Rightarrow> provider \<Rightarrow> 's \<Rightarrow> bytes \<Rightarrow> bytes \<Rightarrow> (string + 'out) \<times> 'g \<times> provider"
  out_serialize :: "'out \<Rightarrow> string + bytes"
  into_protocol_message :: "'min \<Rightarrow> string + 'pm"
  process_message :: "'g \<Rightarrow> provider \<Rightarrow> 'pm \<Rightarrow> (string + 'c \<times> 'sc processed_content) \<times> 'g \<times> provider"
  merge_staged_commit :: "'g \<Rightarrow> provider \<Rightarrow> 'sc \<Rightarrow> (string + unit) \<times> 'g \<times> provider"

section \<open>Framing\<close>

definition checked_add :: "nat \<Rightarrow> nat \<Rightarrow> nat option" where
  "checked_add a b = (if a + b < 2 ^ 64 then Some (a + b) else None)"

definition slice_get :: "bytes \<Rightarrow> nat \<Rightarrow> nat \<Rightarrow> bytes option" where
  "slice_get bs s e = (if s \<le> e \<and> e \<le> length bs then Some (take (e - s) (drop s bs)) else None)"

record cursor =
  cur_bytes :: bytes
  cur_i :: nat

definition cursor_new :: "bytes \<Rightarrow> cursor" where
  "cursor_new bs = \<lparr>cur_bytes = bs, cur_i = 0\<rparr>"

definition read_u32 :: "cursor \<Rightarrow> (u32 \<times> cursor) option" where
  "read_u32 c = (case checked_add (cur_i c) 4 of None \<Rightarrow> None
     | Some e \<Rightarrow> (case slice_get (cur_bytes c) (cur_i c) e of None \<Rightarrow> None
         | Some v \<Rightarrow> Some (u32_from_le_bytes v, c\<lparr>cur_i := e\<rparr>)))"

definition read_bytes :: "cursor \<Rightarrow> (bytes \<times> cursor) option" where
  "read_bytes c = (case read_u32 c of None \<Rightarrow> None
     | Some (n, c1) \<Rightarrow> (case checked_add (cur_i c1) (unat n) of None \<Rightarrow> None
         | Some e \<Rightarrow> (case slice_get (cur_bytes c1) (cur_i c1) e of None \<Rightarrow> None
             | Some v \<Rightarrow> Some (v, c1\<lparr>cur_i := e\<rparr>))))"

definition is_done :: "cursor \<Rightarrow> bool" where
  "is_done c \<longleftrightarrow> cur_i c = length (cur_bytes c)"

definition frame_field :: "bytes \<Rightarrow> bytes" where
  "frame_field f = u32_to_le_bytes (usize_as_u32 (length f)) @ f"

definition frame :: "bytes list \<Rightarrow> bytes" where
  "frame fs = concat (map frame_field fs)"

primrec unframe_loop :: "nat \<Rightarrow> cursor \<Rightarrow> (bytes list \<times> cursor) option" where
  "unframe_loop 0 c = Some ([], c)"
| "unframe_loop (Suc k) c = (case read_bytes c of None \<Rightarrow> None
     | Some (f, c1) \<Rightarrow> (case unframe_loop k c1 of None \<Rightarrow> None
         | Some (fs, c2) \<Rightarrow> Some (f # fs, c2)))"

definition unframe :: "bytes \<Rightarrow> nat \<Rightarrow> bytes list option" where
  "unframe bs count = (case unframe_loop count (cursor_new bs) of None \<Rightarrow> None
     | Some (out, c) \<Rightarrow> if is_done c then Some out else None)"

section \<open>Clients\<close>

record ('s, 'c) group_client =
  gc_provider :: provider
  gc_signer :: 's
  gc_credential :: "'c credential_with_key"
  gc_identity :: bytes

definition client_credential :: "('s, 'c) mls_identity \<Rightarrow> bytes \<Rightarrow> 's \<Rightarrow> 'c credential_with_key" where
  "client_credential L ident s = \<lparr>cw_credential = basic_credential L ident, cw_signature_key = sig_public L s\<rparr>"

definition generate_client :: "('s, 'c) mls_identity \<Rightarrow> bytes \<Rightarrow> bytes \<Rightarrow> group_error + ('s, 'c) group_client" where
  "generate_client L rng ident = (case mls (sig_new L CIPHERSUITE rng) of Inl e \<Rightarrow> Inl e
     | Inr signer \<Rightarrow> (case sig_store L signer provider_default of (r, pv) \<Rightarrow>
         (case mls r of Inl e \<Rightarrow> Inl e
          | Inr _ \<Rightarrow> Inr \<lparr>gc_provider = pv, gc_signer = signer,
              gc_credential = client_credential L ident signer, gc_identity = ident\<rparr>)))"

definition client_identity :: "('s, 'c) group_client \<Rightarrow> bytes" where
  "client_identity c = gc_identity c"

text \<open>\<open>iter\<close> is the order in which the hash map yields its entries.\<close>

definition store_bytes :: "((bytes, bytes) fmap \<Rightarrow> (bytes \<times> bytes) list) \<Rightarrow> (bytes, bytes) fmap \<Rightarrow> bytes" where
  "store_bytes iter values = u32_to_le_bytes (usize_as_u32 (fm_len values)) @
     concat (map (\<lambda>(k, v). frame_field k @ frame_field v) (iter values))"

definition export_state :: "('s, 'c) mls_identity \<Rightarrow> ((bytes, bytes) fmap \<Rightarrow> (bytes \<times> bytes) list) \<Rightarrow>
    ('s, 'c) group_client \<Rightarrow> group_error + bytes" where
  "export_state L iter c =
     (if pv_poisoned (gc_provider c) then Inl GState
      else Inr (frame [gc_identity c, sig_public L (gc_signer c), store_bytes iter (pv_values (gc_provider c))]))"

primrec import_loop :: "nat \<Rightarrow> cursor \<Rightarrow> (bytes, bytes) fmap \<Rightarrow> ((bytes, bytes) fmap \<times> cursor) option" where
  "import_loop 0 cur m = Some (m, cur)"
| "import_loop (Suc n) cur m = (case read_bytes cur of None \<Rightarrow> None
     | Some (k, cur1) \<Rightarrow> (case read_bytes cur1 of None \<Rightarrow> None
         | Some (v, cur2) \<Rightarrow> import_loop n cur2 (fmupd k v m)))"

definition import_state :: "('s, 'c) mls_identity \<Rightarrow> bytes \<Rightarrow> group_error + ('s, 'c) group_client" where
  "import_state L bs = (case ok_or (unframe bs 3) GState of Inl e \<Rightarrow> Inl e
     | Inr parts \<Rightarrow>
       let ident = parts ! 0; public = parts ! 1; cur = cursor_new (parts ! 2) in
       (case ok_or (read_u32 cur) GState of Inl e \<Rightarrow> Inl e
        | Inr (count, cur1) \<Rightarrow>
          (case ok_or (import_loop (unat count) cur1 (pv_values provider_default)) GState of Inl e \<Rightarrow> Inl e
           | Inr (values, cur2) \<Rightarrow>
             if \<not> is_done cur2 then Inl GState
             else let pv = provider_default\<lparr>pv_values := values\<rparr> in
               (case ok_or (sig_read L pv public CIPHERSUITE) GState of Inl e \<Rightarrow> Inl e
                | Inr signer \<Rightarrow> Inr \<lparr>gc_provider = pv, gc_signer = signer,
                    gc_credential = client_credential L ident signer, gc_identity = ident\<rparr>))))"

definition key_package :: "('s, 'c, 'g, 'kin, 'kp, 'min, 'w, 'x, 'sw, 'out, 'pm, 'sc) mls_groups \<Rightarrow> bytes \<Rightarrow>
    ('s, 'c) group_client \<Rightarrow> (group_error + bytes) \<times> ('s, 'c) group_client" where
  "key_package M rng c = (case kp_build M CIPHERSUITE (gc_provider c) (gc_signer c) (gc_credential c) rng of (r, pv) \<Rightarrow>
     (case mls r of Inl e \<Rightarrow> (Inl e, c\<lparr>gc_provider := pv\<rparr>)
      | Inr kp \<Rightarrow> (gcodec (kp_serialize M kp), c\<lparr>gc_provider := pv\<rparr>)))"

definition create_group :: "('s, 'c, 'g, 'kin, 'kp, 'min, 'w, 'x, 'sw, 'out, 'pm, 'sc) mls_groups \<Rightarrow> bytes \<Rightarrow>
    ('s, 'c) group_client \<Rightarrow> bytes \<Rightarrow> (group_error + 'g) \<times> ('s, 'c) group_client" where
  "create_group M rng c gid =
     (case group_new M (gc_provider c) (gc_signer c) \<lparr>use_ratchet_tree_extension = True\<rparr> gid (gc_credential c) rng of
        (r, pv) \<Rightarrow> (mls r, c\<lparr>gc_provider := pv\<rparr>))"

definition join_group :: "('s, 'c, 'g, 'kin, 'kp, 'min, 'w, 'x, 'sw, 'out, 'pm, 'sc) mls_groups \<Rightarrow>
    ('s, 'c) group_client \<Rightarrow> bytes \<Rightarrow> (group_error + 'g) \<times> ('s, 'c) group_client" where
  "join_group M c welcome = (case gcodec (message_deserialize M welcome) of Inl e \<Rightarrow> (Inl e, c)
     | Inr msg \<Rightarrow> (case message_extract M msg of
           Other_Body _ \<Rightarrow> (Inl (GMls ''expected a welcome message''), c)
         | Welcome_In w \<Rightarrow>
           (case staged_welcome M (gc_provider c) \<lparr>use_ratchet_tree_extension = True\<rparr> w of (r, pv) \<Rightarrow>
              (case mls r of Inl e \<Rightarrow> (Inl e, c\<lparr>gc_provider := pv\<rparr>)
               | Inr staged \<Rightarrow> (case welcome_into_group M staged pv of (r', pv') \<Rightarrow>
                   (mls r', c\<lparr>gc_provider := pv'\<rparr>))))))"

definition load_group :: "('s, 'c, 'g, 'kin, 'kp, 'min, 'w, 'x, 'sw, 'out, 'pm, 'sc) mls_groups \<Rightarrow>
    ('s, 'c) group_client \<Rightarrow> bytes \<Rightarrow> group_error + 'g option" where
  "load_group M c gid = mls (group_load M (gc_provider c) gid)"

section \<open>Groups\<close>

record add_result =
  ar_commit :: bytes
  ar_welcome :: bytes

datatype group_event = Application (ev_sender: bytes) (ev_plaintext: bytes) | MembershipChanged | Proposal

definition basic_identity :: "('s, 'c) mls_identity \<Rightarrow> 'c \<Rightarrow> bytes option" where
  "basic_identity L cr = credential_identity L cr"

definition group_id :: "('s, 'c, 'g, 'kin, 'kp, 'min, 'w, 'x, 'sw, 'out, 'pm, 'sc) mls_groups \<Rightarrow> 'g \<Rightarrow> bytes" where
  "group_id M g = group_id_of M g"

definition members :: "('s, 'c) mls_identity \<Rightarrow> ('s, 'c, 'g, 'kin, 'kp, 'min, 'w, 'x, 'sw, 'out, 'pm, 'sc) mls_groups \<Rightarrow>
    'g \<Rightarrow> bytes list" where
  "members L M g = List.map_filter (\<lambda>(i, cr). basic_identity L cr) (group_members M g)"

primrec find_map :: "('a \<Rightarrow> 'b option) \<Rightarrow> 'a list \<Rightarrow> 'b option" where
  "find_map f [] = None"
| "find_map f (x # xs) = (case f x of Some y \<Rightarrow> Some y | None \<Rightarrow> find_map f xs)"

definition member_index :: "('s, 'c) mls_identity \<Rightarrow>
    ('s, 'c, 'g, 'kin, 'kp, 'min, 'w, 'x, 'sw, 'out, 'pm, 'sc) mls_groups \<Rightarrow> 'g \<Rightarrow> bytes \<Rightarrow> u32 option" where
  "member_index L M g ident =
     find_map (\<lambda>(i, cr). if basic_identity L cr = Some ident then Some i else None) (group_members M g)"

definition add_member :: "('s, 'c, 'g, 'kin, 'kp, 'min, 'w, 'x, 'sw, 'out, 'pm, 'sc) mls_groups \<Rightarrow> bytes \<Rightarrow> 'g \<Rightarrow>
    ('s, 'c) group_client \<Rightarrow> bytes \<Rightarrow> (group_error + add_result) \<times> 'g \<times> ('s, 'c) group_client" where
  "add_member M rng g c kpb = (case gcodec (kp_deserialize M kpb) of Inl e \<Rightarrow> (Inl e, g, c)
     | Inr kp_in \<Rightarrow> (case mls (kp_validate M kp_in MLS_VERSION) of Inl e \<Rightarrow> (Inl e, g, c)
         | Inr kp \<Rightarrow> (case add_members M g (gc_provider c) (gc_signer c) [kp] rng of (r, g1, pv1) \<Rightarrow>
             (case mls r of Inl e \<Rightarrow> (Inl e, g1, c\<lparr>gc_provider := pv1\<rparr>)
              | Inr (commit, welcome) \<Rightarrow> (case merge_pending_commit M g1 pv1 of (r', g2, pv2) \<Rightarrow>
                  (case mls r' of Inl e \<Rightarrow> (Inl e, g2, c\<lparr>gc_provider := pv2\<rparr>)
                   | Inr _ \<Rightarrow> (case gcodec (out_serialize M commit) of Inl e \<Rightarrow> (Inl e, g2, c\<lparr>gc_provider := pv2\<rparr>)
                       | Inr cb \<Rightarrow> (case gcodec (out_serialize M welcome) of Inl e \<Rightarrow> (Inl e, g2, c\<lparr>gc_provider := pv2\<rparr>)
                           | Inr wb \<Rightarrow> (Inr \<lparr>ar_commit = cb, ar_welcome = wb\<rparr>, g2, c\<lparr>gc_provider := pv2\<rparr>)))))))))"

definition remove_member :: "('s, 'c, 'g, 'kin, 'kp, 'min, 'w, 'x, 'sw, 'out, 'pm, 'sc) mls_groups \<Rightarrow> bytes \<Rightarrow> 'g \<Rightarrow>
    ('s, 'c) group_client \<Rightarrow> u32 \<Rightarrow> (group_error + bytes) \<times> 'g \<times> ('s, 'c) group_client" where
  "remove_member M rng g c i = (case remove_members M g (gc_provider c) (gc_signer c) [i] rng of (r, g1, pv1) \<Rightarrow>
     (case mls r of Inl e \<Rightarrow> (Inl e, g1, c\<lparr>gc_provider := pv1\<rparr>)
      | Inr commit \<Rightarrow> (case merge_pending_commit M g1 pv1 of (r', g2, pv2) \<Rightarrow>
          (case mls r' of Inl e \<Rightarrow> (Inl e, g2, c\<lparr>gc_provider := pv2\<rparr>)
           | Inr _ \<Rightarrow> (gcodec (out_serialize M commit), g2, c\<lparr>gc_provider := pv2\<rparr>)))))"

definition group_send :: "('s, 'c, 'g, 'kin, 'kp, 'min, 'w, 'x, 'sw, 'out, 'pm, 'sc) mls_groups \<Rightarrow> bytes \<Rightarrow> 'g \<Rightarrow>
    ('s, 'c) group_client \<Rightarrow> bytes \<Rightarrow> (group_error + bytes) \<times> 'g \<times> ('s, 'c) group_client" where
  "group_send M rng g c plaintext = (case create_message M g (gc_provider c) (gc_signer c) plaintext rng of (r, g1, pv1) \<Rightarrow>
     (case mls r of Inl e \<Rightarrow> (Inl e, g1, c\<lparr>gc_provider := pv1\<rparr>)
      | Inr out \<Rightarrow> (gcodec (out_serialize M out), g1, c\<lparr>gc_provider := pv1\<rparr>)))"

definition process :: "('s, 'c) mls_identity \<Rightarrow> ('s, 'c, 'g, 'kin, 'kp, 'min, 'w, 'x, 'sw, 'out, 'pm, 'sc) mls_groups \<Rightarrow>
    'g \<Rightarrow> ('s, 'c) group_client \<Rightarrow> bytes \<Rightarrow> (group_error + group_event) \<times> 'g \<times> ('s, 'c) group_client" where
  "process L M g c m = (case gcodec (message_deserialize M m) of Inl e \<Rightarrow> (Inl e, g, c)
     | Inr msg \<Rightarrow> (case mls (into_protocol_message M msg) of Inl e \<Rightarrow> (Inl e, g, c)
         | Inr protocol \<Rightarrow> (case process_message M g (gc_provider c) protocol of (r, g1, pv1) \<Rightarrow>
             (case mls r of Inl e \<Rightarrow> (Inl e, g1, c\<lparr>gc_provider := pv1\<rparr>)
              | Inr (cr, content) \<Rightarrow>
                let sender = (case basic_identity L cr of None \<Rightarrow> [] | Some s \<Rightarrow> s) in
                (case content of
                   ApplicationMessage p \<Rightarrow> (Inr (Application sender p), g1, c\<lparr>gc_provider := pv1\<rparr>)
                 | StagedCommitMessage staged \<Rightarrow> (case merge_staged_commit M g1 pv1 staged of (r', g2, pv2) \<Rightarrow>
                     (case mls r' of Inl e \<Rightarrow> (Inl e, g2, c\<lparr>gc_provider := pv2\<rparr>)
                      | Inr _ \<Rightarrow> (Inr MembershipChanged, g2, c\<lparr>gc_provider := pv2\<rparr>)))
                 | ProposalMessage \<Rightarrow> (Inr Proposal, g1, c\<lparr>gc_provider := pv1\<rparr>)
                 | ExternalJoinProposalMessage \<Rightarrow> (Inr Proposal, g1, c\<lparr>gc_provider := pv1\<rparr>))))))"

section \<open>The cursor reads one field at a time\<close>

text \<open>What the cursor reads depends only on the unread part of the input.\<close>

definition unread :: "cursor \<Rightarrow> bytes" where
  "unread c = drop (cur_i c) (cur_bytes c)"

definition cur_ok :: "cursor \<Rightarrow> bool" where
  "cur_ok c \<longleftrightarrow> cur_i c \<le> length (cur_bytes c) \<and> length (cur_bytes c) < 2 ^ 64"

definition cursor_at :: "cursor \<Rightarrow> bytes \<Rightarrow> cursor" where
  "cursor_at c r = c\<lparr>cur_i := length (cur_bytes c) - length r\<rparr>"

definition read_field :: "bytes \<Rightarrow> (bytes \<times> bytes) option" where
  "read_field bs = map_option (apsnd unread) (read_bytes (cursor_new bs))"

definition read_entry :: "bytes \<Rightarrow> ((bytes \<times> bytes) \<times> bytes) option" where
  "read_entry bs = (case read_field bs of None \<Rightarrow> None
     | Some (k, r) \<Rightarrow> (case read_field r of None \<Rightarrow> None | Some (v, r') \<Rightarrow> Some ((k, v), r')))"

abbreviation field_ok :: "bytes \<Rightarrow> bool" where
  "field_ok f \<equiv> length f < 2 ^ 32"

lemma le_digits_value: "le_digits (length bs) (le_value bs) = bs"
proof (induction bs)
  case (Cons b bs)
  have "(word_of_nat (unat b + 256 * le_value bs) :: u8) = b"
  proof -
    have "unat (word_of_nat (unat b + 256 * le_value bs) :: u8) = unat b"
      unfolding unat_byte_of_nat using unsigned_less [where 'a = nat, of b] by simp
    then show ?thesis by (simp only: word_unat_eq_iff)
  qed
  moreover have "(unat b + 256 * le_value bs) div 256 = le_value bs"
    using unsigned_less [where 'a = nat, of b] by simp
  ultimately show ?case using Cons.IH by simp
qed simp

lemma le_value_less: "le_value bs < 256 ^ length bs"
proof (induction bs)
  case (Cons b bs)
  have "unat b < 256" using unsigned_less [where 'a = nat, of b] by simp
  then show ?case using Cons.IH by simp
qed simp

lemma u32_le_bytes [simp]: "length bs = 4 \<Longrightarrow> u32_to_le_bytes (u32_from_le_bytes bs) = bs"
  using le_value_less [of bs] le_digits_value [of bs]
  by (simp add: u32_to_le_bytes_def u32_from_le_bytes_def unat_u32_of_nat)

lemma read_field_eq:
  "read_field bs = (if length bs < 4 then None
     else let n = unat (u32_from_le_bytes (take 4 bs)) in
       if length bs < 4 + n then None else Some (take n (drop 4 bs), drop (4 + n) bs))"
proof -
  have "4 + unat (w :: u32) < 2 ^ 64" for w
    using unsigned_less [where 'a = nat, of w] by simp
  then show ?thesis
    by (simp add: read_field_def read_bytes_def read_u32_def cursor_new_def checked_add_def slice_get_def
        unread_def Let_def not_less)
qed

lemma read_bytes_unread:
  assumes "cur_ok c"
  shows "read_bytes c = map_option (apsnd (cursor_at c)) (read_field (unread c))"
  using assms
  by (auto simp: read_field_eq read_bytes_def read_u32_def checked_add_def slice_get_def
      unread_def cursor_at_def cur_ok_def Let_def not_less add.commute)

lemma read_field_Some:
  "read_field bs = Some (f, r) \<longleftrightarrow> field_ok f \<and> bs = frame_field f @ r"
proof
  assume "read_field bs = Some (f, r)"
  then have n: "4 \<le> length bs" "4 + unat (u32_from_le_bytes (take 4 bs)) \<le> length bs"
    and f: "f = take (unat (u32_from_le_bytes (take 4 bs))) (drop 4 bs)"
    and r: "r = drop (4 + unat (u32_from_le_bytes (take 4 bs))) bs"
    by (auto simp: read_field_eq Let_def not_less split: if_splits)
  have len: "length f = unat (u32_from_le_bytes (take 4 bs))" using n f by simp
  then have "usize_as_u32 (length f) = u32_from_le_bytes (take 4 bs)"
    by (simp add: usize_as_u32_def)
  then have "frame_field f = take 4 bs @ f" using n by (simp add: frame_field_def)
  then have "bs = frame_field f @ r"
    using f r by (metis append.assoc append_take_drop_id drop_drop add.commute)
  then show "field_ok f \<and> bs = frame_field f @ r"
    using len unsigned_less [where 'a = nat, of "u32_from_le_bytes (take 4 bs)"] by simp
next
  assume "field_ok f \<and> bs = frame_field f @ r"
  then show "read_field bs = Some (f, r)"
    by (simp add: read_field_eq frame_field_def unat_usize_as_u32 Let_def)
qed

text \<open>Both readers are prefix codecs: the field reader of \<open>frame\<close>, and the key-value reader of the key store.\<close>

interpretation field_codec: prefix_codec frame_field read_field field_ok
  by unfold_locales (simp add: read_field_Some)

interpretation entry_codec: prefix_codec "\<lambda>(k, v). frame_field k @ frame_field v" read_entry
    "\<lambda>(k, v). field_ok k \<and> field_ok v"
  by unfold_locales (clarsimp simp: read_entry_def field_codec.rd_enc)

lemma cursor_at_facts:
  assumes "cur_ok c" "read_field (unread c) = Some (f, r)"
  shows "cur_ok (cursor_at c r)" "unread (cursor_at c r) = r" "cur_bytes (cursor_at c r) = cur_bytes c"
proof -
  have u: "unread c = frame_field f @ r" using assms(2) by (simp add: read_field_Some)
  then have "cur_bytes c = take (cur_i c) (cur_bytes c) @ frame_field f @ r"
    by (metis append_take_drop_id unread_def)
  then obtain p where "cur_bytes c = p @ r" by (metis append.assoc)
  then show "unread (cursor_at c r) = r" "cur_ok (cursor_at c r)" "cur_bytes (cursor_at c r) = cur_bytes c"
    using assms(1) by (simp_all add: unread_def cursor_at_def cur_ok_def)
qed

lemma cursor_at_at [simp]: "cursor_at (cursor_at c r) r' = cursor_at c r'"
  by (simp add: cursor_at_def)

lemma cursor_at_unread: "cur_ok c \<Longrightarrow> cursor_at c (unread c) = c"
  by (simp add: cursor_at_def unread_def cur_ok_def)

lemma unframe_loop_reads:
  "cur_ok c \<Longrightarrow> unframe_loop k c = map_option (apsnd (cursor_at c)) (read_many read_field k (unread c))"
proof (induction k arbitrary: c)
  case 0
  then show ?case by (simp add: cursor_at_unread)
next
  case (Suc k)
  show ?case
  proof (cases "read_field (unread c)")
    case None
    then show ?thesis using Suc.prems by (simp add: read_bytes_unread)
  next
    case (Some p)
    then obtain f r where "read_field (unread c) = Some (f, r)" by (cases p) auto
    then show ?thesis
      using Suc.prems Suc.IH [of "cursor_at c r"] cursor_at_facts [of c f r]
      by (simp add: read_bytes_unread split: option.split)
  qed
qed

lemma import_loop_reads:
  "cur_ok c \<Longrightarrow> import_loop k c m =
     map_option (\<lambda>(xs, r). (fold (\<lambda>(k, v) m. fmupd k v m) xs m, cursor_at c r)) (read_many read_entry k (unread c))"
proof (induction k arbitrary: c m)
  case 0
  then show ?case by (simp add: cursor_at_unread)
next
  case (Suc n)
  show ?case
  proof (cases "read_entry (unread c)")
    case None
    then show ?thesis using Suc.prems cursor_at_facts [OF Suc.prems]
      by (auto simp: read_bytes_unread read_entry_def split: option.splits)
  next
    case (Some p)
    then obtain k v r r' where r: "read_field (unread c) = Some (k, r)" "read_field r = Some (v, r')"
      by (auto simp: read_entry_def split: option.splits)
    note at = cursor_at_facts [OF Suc.prems r(1)]
    show ?thesis
      using Suc.prems r at cursor_at_facts [OF at(1), of v r'] Suc.IH [of "cursor_at c r'" "fmupd k v m"]
      by (simp add: read_bytes_unread read_entry_def split: option.split)
  qed
qed

lemma read_many_fields:
  "read_many read_field k bs = Some (fs, r) \<longleftrightarrow> length fs = k \<and> list_all field_ok fs \<and> bs = frame fs @ r"
proof (induction k arbitrary: bs fs)
  case 0
  then show ?case by (auto simp: frame_def)
next
  case (Suc k)
  show ?case
  proof (cases fs)
    case Nil
    then show ?thesis by (auto split: option.splits)
  next
    case (Cons g gs)
    have "read_many read_field (Suc k) bs = Some (g # gs, r) \<longleftrightarrow>
        (\<exists>r1. read_field bs = Some (g, r1) \<and> read_many read_field k r1 = Some (gs, r))"
      by (auto split: option.splits)
    then show ?thesis by (auto simp: Cons Suc.IH read_field_Some frame_def)
  qed
qed

lemma cursor_new_facts [simp]: "unread (cursor_new bs) = bs" "cur_ok (cursor_new bs) \<longleftrightarrow> length bs < 2 ^ 64"
  "cur_bytes (cursor_new bs) = bs"
  by (simp_all add: unread_def cursor_new_def cur_ok_def)

section \<open>Framing is exact\<close>

lemma unframe_iff:
  assumes "length bs < 2 ^ 64"
  shows "unframe bs count = Some fs \<longleftrightarrow> length fs = count \<and> list_all field_ok fs \<and> bs = frame fs"
proof -
  have fin: "is_done (cursor_at (cursor_new bs) r) \<longleftrightarrow> r = []"
    if "read_many read_field count bs = Some (gs, r)" for gs r
    using that by (auto simp: is_done_def cursor_at_def cursor_new_def read_many_fields)
  have "unframe bs count = Some fs \<longleftrightarrow> read_many read_field count bs = Some (fs, [])"
    using assms fin by (auto simp: unframe_def unframe_loop_reads split: option.splits if_splits)
  then show ?thesis by (auto simp: read_many_fields)
qed

text \<open>
  \<open>unframe\<close> accepts exactly the framings of its field count: it returns the fields \<open>fs\<close> if and only if the
  input is \<open>frame fs\<close> with \<open>count\<close> fields, each short enough for its 32-bit length prefix. So framing round trips,
  no two field lists share a framing, and truncated input, trailing bytes and overlong length prefixes are all refused.
\<close>

lemma unframe_exact:
  assumes "length bs < 2 ^ 64"
  shows "unframe bs count = Some fs \<longleftrightarrow>
    length fs = count \<and> (\<forall>f\<in>set fs. length f < 2 ^ 32) \<and> bs = frame fs"
  using unframe_iff [OF assms, of count fs] by (simp add: list_all_iff)

section \<open>A client survives export and import\<close>

text \<open>The iteration order of a \<open>HashMap\<close>: some order of its entries.\<close>

definition hash_order :: "((bytes, bytes) fmap \<Rightarrow> (bytes \<times> bytes) list) \<Rightarrow> bool" where
  "hash_order iter \<longleftrightarrow> (\<forall>m. distinct (map fst (iter m)) \<and> map_of (iter m) = fmlookup m)"

text \<open>A client as \<open>generate\<close> and \<open>import_state\<close> build it: its signer can be read back from its key store, its
  credential is the basic credential of its identity and signer, and no thread panicked while writing the store.\<close>

definition client_ok :: "('s, 'c) mls_identity \<Rightarrow> ('s, 'c) group_client \<Rightarrow> bool" where
  "client_ok L c \<longleftrightarrow> \<not> pv_poisoned (gc_provider c) \<and>
     sig_read L (gc_provider c) (sig_public L (gc_signer c)) CIPHERSUITE = Some (gc_signer c) \<and>
     gc_credential c = client_credential L (gc_identity c) (gc_signer c)"

text \<open>OpenMLS: a stored signature key pair can be read back by its public key, and a read pair has that public key.\<close>

definition sig_store_ok :: "('s, 'c) mls_identity \<Rightarrow> bool" where
  "sig_store_ok L \<longleftrightarrow>
     (\<forall>s pv pv'. sig_store L s pv = (Inr (), pv') \<longrightarrow>
        pv_poisoned pv' = pv_poisoned pv \<and> sig_read L pv' (sig_public L s) CIPHERSUITE = Some s) \<and>
     (\<forall>pv p s. sig_read L pv p CIPHERSUITE = Some s \<longrightarrow> sig_public L s = p)"

lemma generate_client_ok: "sig_store_ok L \<Longrightarrow> generate_client L rng ident = Inr c \<Longrightarrow> client_ok L c"
  by (auto simp: generate_client_def client_ok_def sig_store_ok_def mls_def provider_default_def
      split: sum.splits prod.splits)

lemma import_client_ok: "sig_store_ok L \<Longrightarrow> import_state L bs = Inr c \<Longrightarrow> client_ok L c"
  by (auto simp: import_state_def client_ok_def sig_store_ok_def provider_default_def Let_def
      split: sum.splits prod.splits if_splits)

lemma hash_order_length: "hash_order iter \<Longrightarrow> length (iter m) = fm_len m"
proof -
  assume "hash_order iter"
  then have d: "distinct (map fst (iter m))" and l: "map_of (iter m) = fmlookup m" by (auto simp: hash_order_def)
  have "length (iter m) = card (fst ` set (iter m))"
    using distinct_card [OF d] by simp
  also have "fst ` set (iter m) = fset (fmdom m)"
    by (simp add: dom_map_of_conv_image_fst [symmetric] l fmdom.rep_eq dom_def)
  finally show ?thesis by (simp add: fcard.rep_eq)
qed

lemma hash_order_collect: "hash_order iter \<Longrightarrow> fm_collect (iter m) = m"
  by (rule fmap_ext) (simp add: fmlookup_fm_collect map_of_rev_distinct hash_order_def)

text \<open>
  C39: exporting a group client and importing the bytes restores it exactly (identity, signer, credential and the
  whole key store), for whatever order the hash map iterates in, as long as every stored field and the store as a
  whole fit their 32-bit length prefixes; and both constructors of clients give clients of this kind.
\<close>

theorem group_state_roundtrip:
  assumes "sig_store_ok L" "hash_order iter" "client_ok L c"
    and "field_ok (gc_identity c)" "field_ok (sig_public L (gc_signer c))"
    and "\<forall>(k, v)\<in>set (iter (pv_values (gc_provider c))). field_ok k \<and> field_ok v"
    and "field_ok (store_bytes iter (pv_values (gc_provider c)))" "fm_len (pv_values (gc_provider c)) < 2 ^ 32"
  shows "(\<exists>bs. export_state L iter c = Inr bs \<and> import_state L bs = Inr c) \<and>
    (generate_client L rng ident = Inr c1 \<longrightarrow> client_ok L c1) \<and> (import_state L old = Inr c2 \<longrightarrow> client_ok L c2)"
proof -
  let ?m = "pv_values (gc_provider c)"
  let ?st = "store_bytes iter ?m"
  let ?bs = "frame [gc_identity c, sig_public L (gc_signer c), ?st]"
  let ?ents = "concat (map (\<lambda>(k, v). frame_field k @ frame_field v) (iter ?m))"
  have c: "gc_credential c = client_credential L (gc_identity c) (gc_signer c)" "\<not> pv_poisoned (gc_provider c)"
    "sig_read L (gc_provider c) (sig_public L (gc_signer c)) CIPHERSUITE = Some (gc_signer c)"
    using assms(3) by (auto simp: client_ok_def)
  have "length ?bs = 12 + length (gc_identity c) + length (sig_public L (gc_signer c)) + length ?st"
    by (simp add: frame_def frame_field_def)
  then have "length ?bs < 2 ^ 64" using assms(4,5,7) by simp
  then have un: "unframe ?bs 3 = Some [gc_identity c, sig_public L (gc_signer c), ?st]"
    using assms(4,5,7) by (simp add: unframe_iff)
  obtain cur where u: "read_u32 (cursor_new ?st) = Some (usize_as_u32 (fm_len ?m), cur)"
    and cur: "cur = \<lparr>cur_bytes = ?st, cur_i = 4\<rparr>"
    by (simp add: read_u32_def cursor_new_def checked_add_def slice_get_def store_bytes_def)
  have ok: "cur_ok cur" "unread cur = ?ents"
    using assms(7) by (simp_all add: cur cur_ok_def unread_def store_bytes_def)
  have "read_many read_entry (fm_len ?m) ?ents = Some (iter ?m, [])"
    using entry_codec.read_many_concat [of "iter ?m" "[]"] assms(6) hash_order_length [OF assms(2), of ?m]
    by (simp add: list_all_iff case_prod_beta)
  then have "import_loop (fm_len ?m) cur fmempty = Some (?m, cursor_at cur [])"
    using import_loop_reads [OF ok(1), of "fm_len ?m" fmempty] ok(2) hash_order_collect [OF assms(2), of ?m]
    by (simp add: fm_collect_def)
  moreover have pv: "\<lparr>pv_values = ?m, pv_poisoned = False\<rparr> = gc_provider c"
    by (rule provider.equality) (simp_all add: c(2))
  moreover have "\<lparr>gc_provider = gc_provider c, gc_signer = gc_signer c,
      gc_credential = client_credential L (gc_identity c) (gc_signer c), gc_identity = gc_identity c\<rparr> = c"
    by (rule group_client.equality) (simp_all add: c(1))
  ultimately have "import_state L ?bs = Inr c"
    using c(3) assms(8)
    by (simp add: import_state_def un u unat_usize_as_u32 provider_default_def is_done_def cursor_at_def cur Let_def)
  then show ?thesis
    using c(2) generate_client_ok [OF assms(1)] import_client_ok [OF assms(1)] by (auto simp: export_state_def)
qed

text \<open>A concrete key store: a signature key is its own public key and is stored under it.\<close>

definition demo_mls :: "(bytes, bytes) mls_identity" where
  "demo_mls = \<lparr>sig_new = (\<lambda>_ r. Inr r), sig_store = (\<lambda>s pv. (Inr (), pv\<lparr>pv_values := fmupd s s (pv_values pv)\<rparr>)),
     sig_read = (\<lambda>pv p _. if fmlookup (pv_values pv) p = Some p then Some p else None), sig_public = id,
     basic_credential = id, credential_identity = Some\<rparr>"

lemma demo_mls_ok: "sig_store_ok demo_mls"
  by (auto simp: sig_store_ok_def demo_mls_def split: if_splits)

lemma sorted_hash_order: "hash_order sorted_list_of_fmap"
  by (simp add: hash_order_def distinct_sorted_list_of_fmap map_of_sorted_list_of_fmap)

theorem group_state_roundtrip_witness:
  "\<exists>c bs. generate_client demo_mls [5] [7, 8] = Inr c \<and> export_state demo_mls sorted_list_of_fmap c = Inr bs \<and>
     import_state demo_mls bs = Inr c \<and> client_identity c = [7, 8]"
proof -
  let ?m = "fmupd [5] [5] (fmempty :: (bytes, bytes) fmap)"
  obtain c where c: "generate_client demo_mls [5] [7, 8] = Inr c" and m: "pv_values (gc_provider c) = ?m"
    and i: "gc_identity c = [7, 8]" "sig_public demo_mls (gc_signer c) = [5]"
    by (simp add: generate_client_def demo_mls_def mls_def provider_default_def)
  have sl: "sorted_list_of_fmap ?m = [([5], [5])]"
    by (simp add: sorted_list_of_fmap_def sorted_list_of_fset.rep_eq)
  have "length (store_bytes sorted_list_of_fmap ?m) = 14"
    by (simp only: store_bytes_def sl) (simp add: frame_field_def)
  then show ?thesis
    using group_state_roundtrip [OF demo_mls_ok sorted_hash_order generate_client_ok [OF demo_mls_ok c]] sl m i c
    by (simp add: fcard_finsert_if client_identity_def)
qed

section \<open>Membership\<close>

lemma find_map_Some: "find_map f xs = Some y \<Longrightarrow> \<exists>x\<in>set xs. f x = Some y"
  by (induction xs) (auto split: option.splits)

lemma find_map_None: "find_map f xs = None \<longleftrightarrow> (\<forall>x\<in>set xs. f x = None)"
  by (induction xs) (auto split: option.splits)

lemma set_map_filter: "set (List.map_filter f xs) = {y. \<exists>x\<in>set xs. f x = Some y}"
  by (induction xs) (auto simp: map_filter_simps split: option.splits)

lemma member_index_iff: "(\<exists>i. member_index L M g ident = Some i) \<longleftrightarrow> ident \<in> set (members L M g)"
proof -
  have "member_index L M g ident = None \<longleftrightarrow> ident \<notin> set (members L M g)"
    by (auto simp: member_index_def members_def find_map_None set_map_filter)
  then show ?thesis by (cases "member_index L M g ident") auto
qed

lemma member_index_identity:
  "member_index L M g ident = Some i \<Longrightarrow> \<exists>cr. (i, cr) \<in> set (group_members M g) \<and> basic_identity L cr = Some ident"
  by (auto simp: member_index_def dest!: find_map_Some split: if_splits)

end
