(* ===== verification/Peer_Main.thy ===== *)
theory Peer_Main
  imports Peer Relay_Main
begin

text \<open>
  The command line of the example peer (\<^verbatim>\<open>net/examples/demo_peer.rs\<close>) around the operations of theory \<open>Peer\<close>, and the
  way of a reply back to it. Arguments are Unicode strings, given by their bytes. The relay is reached through a direct
  transport whose agent depends on the time of the call. \<open>rounds\<close> gives the unix times at which the polling loop runs
  for a number of seconds, or nothing when the deadline is beyond the range of the monotonic clock, where the addition
  panics. Progress lines on standard output are left out.
\<close>

text \<open>\<open>str::trim\<close>: the UTF-8 encodings of the characters with the property \<open>White_Space\<close>.\<close>

definition WHITE_SPACE :: "string list" where
  "WHITE_SPACE = map (map char_of)
     ([[9], [10], [11], [12], [13], [32], [0xC2, 0x85], [0xC2, 0xA0], [0xE1, 0x9A, 0x80]] @
      map (\<lambda>k. [0xE2, 0x80, k]) ([0x80..<0x8B] @ [0xA8, 0xA9, 0xAF]) @
      [[0xE2, 0x81, 0x9F], [0xE3, 0x80, 0x80 :: nat]])"

function trim_start :: "string list \<Rightarrow> string \<Rightarrow> string" where
  "trim_start ws s =
     (case find (\<lambda>w. w \<noteq> [] \<and> take (length w) s = w) ws of
        None \<Rightarrow> s | Some w \<Rightarrow> trim_start ws (drop (length w) s))"
  by pat_completeness auto
termination
proof (relation "measure (\<lambda>(ws, s). length s)")
  fix ws :: "string list" and s w :: string
  assume "find (\<lambda>w. w \<noteq> [] \<and> take (length w) s = w) ws = Some w"
  then have "w \<noteq> []" "take (length w) s = w" by (auto simp: find_Some_iff)
  then show "((ws, drop (length w) s), ws, s) \<in> measure (\<lambda>(ws, s). length s)" by (cases s) auto
qed simp

declare trim_start.simps [simp del]

definition trim :: "string \<Rightarrow> string" where
  "trim s = rev (trim_start (map rev WHITE_SPACE) (rev (trim_start WHITE_SPACE s)))"

definition poll_seconds :: "string list \<Rightarrow> u64" where
  "poll_seconds rest =
     (case next_arg rest of None \<Rightarrow> 120 | Some s \<Rightarrow> (case from_str s of None \<Rightarrow> 120 | Some n \<Rightarrow> n))"

text \<open>The outcome is a panic or the exit code, with the lines printed for received envelopes.\<close>

definition peer_main :: "'c crypto_scheme \<Rightarrow> ratchet_header serde \<Rightarrow> message serde \<Rightarrow> web_codecs \<Rightarrow> (string \<Rightarrow> bytes)
    \<Rightarrow> (bytes \<Rightarrow> content) \<Rightarrow> (u64 \<Rightarrow> u64 list option) \<Rightarrow> peer_rng \<Rightarrow> (u64 \<Rightarrow> 'w agent) \<Rightarrow> u64 \<Rightarrow> string list \<Rightarrow> 'w
    \<Rightarrow> (string + nat) \<times> peer_line list \<times> 'w" where
  "peer_main C S M W text_json kind rounds r ag now args w =
     (case args of
        [] \<Rightarrow> (Inl ''relay url'', [], w)
      | [_] \<Rightarrow> (Inl ''their identity (base64)'', [], w)
      | [_, _] \<Rightarrow> (Inl ''message text'', [], w)
      | relay_url # their_id_b64 # text # rest \<Rightarrow>
          (case unb64 W (trim their_id_b64) of
             Inl _ \<Rightarrow> (Inl ''valid base64'', [], w)
           | Inr their_id \<Rightarrow>
               if length their_id \<noteq> 32 then (Inl ''identity must be 32 bytes'', [], w)
               else (case peer_send C S M W r (direct (ag now) relay_url) their_id (text_json text) now w of
                  (Inl e, w1) \<Rightarrow> (Inl e, [], w1)
                | (Inr (self, s), w1) \<Rightarrow>
                    (case rounds (poll_seconds rest) of
                       None \<Rightarrow> (Inl ''overflow when adding duration to instant'', [], w1)
                     | Some nows \<Rightarrow>
                         (case peer_poll_rounds C S M kind W r (\<lambda>t. direct (ag t) relay_url) self nows 0 s w1 of
                            (ls, code, _, w2) \<Rightarrow> (Inr code, ls, w2))))))"

text \<open>Once the message is out, the run is the polling loop.\<close>

lemma peer_main_polls:
  assumes "unb64 W (trim id64) = Inr their_id" "length their_id = 32" "rounds (poll_seconds rest) = Some nows"
    and "peer_send C S M W r (direct (ag now) url) their_id (text_json text) now w = (Inr (self, s), w1)"
    and "peer_poll_rounds C S M kind W r (\<lambda>t. direct (ag t) url) self nows 0 s w1 = (ls, code, s', w2)"
  shows "peer_main C S M W text_json kind rounds r ag now (url # id64 # text # rest) w = (Inr code, ls, w2)"
  using assms by (simp add: peer_main_def)

section \<open>Polling until the reply\<close>

lemma loopback_net_poll:
  assumes "web_ok W" "length ib = 32"
  shows "net_poll W (loopback W base t) ib st = (Inr (fst (poll_at st ib t)), snd (poll_at st ib t))"
  using assms by (simp add: net_poll_def loopback_poll respond_json_def)

text \<open>Empty inboxes are passed over, and nothing in the relay changes that matters to the others.\<close>

lemma poll_empty:
  assumes "mailbox st ib = []"
  shows "fst (poll_at st ib t) = [] \<and> limits (snd (poll_at st ib t)) = limits st \<and>
    mailbox (snd (poll_at st ib t)) = mailbox st"
proof -
  have "mailbox (snd (poll_at st ib t)) r = mailbox st r" for r
    using assms poll_eq(2) [of st ib t] poll_eq(3) [of r ib st t] by (cases "r = ib") auto
  then show ?thesis using assms by (auto simp: poll_eq live_mail_def)
qed

lemma empty_inboxes:
  assumes "web_ok W"
  shows "\<forall>ib\<in>set ibs. length ib = 32 \<and> mailbox st ib = [] \<Longrightarrow>
    \<exists>st'. limits st' = limits st \<and> mailbox st' = mailbox st \<and>
      peer_inboxes C S M kind W r (loopback W base t) self (ibs @ rest) k s st =
      peer_inboxes C S M kind W r (loopback W base t) self rest k s st'"
proof (induction ibs arbitrary: st)
  case (Cons ib ibs)
  let ?st = "snd (poll_at st ib t)"
  have p: "fst (poll_at st ib t) = []" "limits ?st = limits st" "mailbox ?st = mailbox st"
    using poll_empty Cons.prems by simp_all
  have poll: "net_poll W (loopback W base t) ib st = (Inr [], ?st)"
    using loopback_net_poll [OF assms] Cons.prems by (simp add: p(1))
  obtain st' where "limits st' = limits ?st" "mailbox st' = mailbox ?st"
    "peer_inboxes C S M kind W r (loopback W base t) self (ibs @ rest) k s ?st =
      peer_inboxes C S M kind W r (loopback W base t) self rest k s st'"
    using Cons.IH [of ?st] Cons.prems by (auto simp: p(3))
  then show ?case using p poll by (auto split: prod.split)
qed auto

lemma reply_read:
  assumes W: "web_ok W" and ib: "length ib = 32" and box: "mailbox st ib = [\<lparr>enqueued_at = t0, qm_bytes = raw\<rparr>]"
    and live: "t \<le> t0 + mail_ttl_secs (limits st)"
    and opens: "open_envelope C self raw = Inr env" "message_decode M (payload env) = Inr m"
      "fst (session_decrypt C S (pr_draws r k) s m) = Inr plain" "kind plain = Text_Content body"
  shows "\<exists>s' st'. peer_inboxes C S M kind W r (loopback W base t) self (ib # ibs) k s st =
    ([Got_Text (sender_identity_ed env) body], True, Suc k, s', st')"
proof -
  have "net_poll W (loopback W base t) ib st = (Inr [raw], snd (poll_at st ib t))"
    using loopback_net_poll [OF W ib] live by (simp add: poll_eq box live_mail_def)
  moreover obtain s' where "session_decrypt C S (pr_draws r k) s m = (Inr plain, s')"
    using opens(3) by (metis fst_conv surj_pair)
  ultimately show ?thesis using opens by simp
qed

text \<open>What the recipient of a first message can do with it.\<close>

lemma first_exchange:
  assumes laws: "sig_ok C" "aead_ok C" "dh_ok C" "kem_ok C" "dh_len C" "aead_tag_len C" "serde_ok M"
    and b: "kyber_wf C (kyber b)" "offered C b opk"
    and keys: "distinct (map (x25519_public C) [signed_prekey_secret b, pr_ratchet r, new'])"
    and first: "peer_compose C S M r self (served_bundle C b opk) plain = Inr (s, blob)" "length blob < 2 ^ 32"
      "open_envelope C b blob = Inr env" "message_decode M (payload env) = Inr m"
      "session_respond C S new' b m = (Inr (sb, p), b')"
  shows "b' = spend opk b \<and> p = plain \<and>
    (\<forall>new'' reply m' sb'. x25519_public C new'' \<notin> x25519_public C ` {signed_prekey_secret b, pr_ratchet r, new'} \<longrightarrow>
       session_encrypt C S sb reply = (Inr m', sb') \<longrightarrow> fst (session_decrypt C S new'' s m') = Inr reply)"
proof -
  obtain m0 sb0 where m0: "blob = seal_envelope C (pr_seal r) self (identity_dh_public C b) (message_encode M m0)"
    "length (message_encode M m0) < 2 ^ 32 \<longrightarrow> open_envelope C b blob = Inr \<lparr>sender_identity_ed = identity_public C self,
        sender_identity_dh = identity_dh_public C self, payload = message_encode M m0\<rparr>"
    "message_decode M (message_encode M m0) = Inr m0" "session_respond C S new' b m0 = (Inr (sb0, plain), spend opk b)"
    "\<forall>new'' reply. x25519_public C new'' \<notin> x25519_public C ` {signed_prekey_secret b, pr_ratchet r, new'} \<longrightarrow>
       (\<exists>m' sb'. session_encrypt C S sb0 reply = (Inr m', sb') \<and> fst (session_decrypt C S new'' s m') = Inr reply)"
    using composed_message_opens [OF laws b keys, of S self plain] first(1) by auto
  have "length (message_encode M m0) < 2 ^ 32"
    using sealed_longer [OF laws(5,6), of "message_encode M m0"] first(2) m0(1) le_less_trans by blast
  then have "m = m0" using m0(2,3) first(3,4) by auto
  then have same: "sb0 = sb" "p = plain" "b' = spend opk b" using m0(4) first(5) by auto
  have "fst (session_decrypt C S new'' s m') = Inr reply"
    if "x25519_public C new'' \<notin> x25519_public C ` {signed_prekey_secret b, pr_ratchet r, new'}"
      and "session_encrypt C S sb reply = (Inr m', sb')" for new'' reply m' sb'
    using m0(5) [rule_format, OF that(1), of reply] that(2) by (auto simp: same(1))
  then show ?thesis using same by blast
qed

lemma posted_mailbox:
  assumes "web_ok W" "length r = 32" "sane_limits (limits st)" "postable W (limits st) r m"
    and "net_send W (loopback W base t) r m st = (res, st')"
  shows "\<exists>old. mailbox st' r = old @ [\<lparr>enqueued_at = t, qm_bytes = m\<rparr>] \<and> set old \<subseteq> set (mailbox st r) \<and>
    limits st' = limits st \<and> (\<forall>ib. ib \<noteq> r \<longrightarrow> mailbox st' ib = mailbox st ib)"
proof -
  have post: "length m \<le> max_message_bytes (limits st)"
    "length (ser (wc_send W) \<lparr>sr_recipient = b64 W r, sr_message = b64 W m\<rparr>) \<le> MAX_BODY_BYTES"
    using assms(4) by (simp_all add: postable_def)
  obtain st1 old where E: "enqueue_at st r m t = (Inr (), st1)" "limits st1 = limits st"
    "mailbox st1 r = old @ [\<lparr>enqueued_at = t, qm_bytes = m\<rparr>]" "set old \<subseteq> set (mailbox st r)"
    using enqueue_keeps_new [OF assms(3) post(1)] by blast
  have "st' = st1" using loopback_send [OF assms(1,2) post(2), of base t st] assms(5) by (simp add: E(1))
  then show ?thesis using E enqueue_other [of _ r st m t] by auto
qed

text \<open>
  C31: the reply comes back. A peer has composed its first message, and the recipient has opened it and answered: the
  answer is encrypted in the recipient's session, sealed to the peer's key and posted to the peer's inbox for the epoch
  on the recipient's clock, in a relay whose other inboxes of the peer are empty. In the first round of the polling
  loop whose clock is within a day of the recipient's, and while the mail is retained, the peer finds the envelope,
  whichever of the polled inboxes holds it, prints exactly the text with the recipient's identity as sender, and ends
  with exit code 0.
\<close>

theorem peer_gets_reply:
  fixes now clk :: u64
  assumes laws: "sig_ok C" "aead_ok C" "dh_ok C" "kem_ok C" "dh_len C" "aead_tag_len C" "hash_len C" "serde_ok M" "web_ok W"
    and b: "kyber_wf C (kyber b)" "offered C b opk"
    and keys: "distinct (map (x25519_public C) [signed_prekey_secret b, pr_ratchet r, new', pr_draws r 0])"
    and first: "peer_compose C S M r self (served_bundle C b opk) plain = Inr (s, blob)" "length blob < 2 ^ 32"
      "open_envelope C b blob = Inr env" "message_decode M (payload env) = Inr m"
      "session_respond C S new' b m = (Inr (sb, p), b')"
    and answer: "session_encrypt C S sb text = (Inr m', sb')" "kind text = Text_Content body"
      "raw = seal_envelope C eph b' (identity_dh_public C self) (message_encode M m')" "length raw < 2 ^ 32"
    and post: "addr = inbox_id C (identity_public C self) (epoch_for_unix clk)" "sane_limits (limits st)"
      "postable W (limits st) addr raw" "net_send W (loopback W base t) addr raw st = (res, st')"
    and quiet: "\<forall>ib\<in>set (inbox_window C (identity_public C self) (saturating_sub (epoch_for_unix now) 1) (epoch_for_unix now + 1)).
      mailbox st ib = []"
    and time: "unat now \<le> unat clk + 86400" "unat clk \<le> unat now + 86400" "unat now + 86400 < 2 ^ 64"
      "tm now \<le> t + mail_ttl_secs (limits st)"
  shows "\<exists>s' st''. peer_poll_rounds C S M kind W r (\<lambda>n. loopback W base (tm n)) self (now # nows) 0 s st' =
    ([Got_Text (identity_public C b) body], 0, s', st'')"
proof -
  have len: "length (inbox_id C i e) = 32" for i e using laws(7) by (simp add: inbox_id_def hash_len_def)
  let ?win = "inbox_window C (identity_public C self) (saturating_sub (epoch_for_unix now) 1) (epoch_for_unix now + 1)"
  have keys3: "distinct (map (x25519_public C) [signed_prekey_secret b, pr_ratchet r, new'])" using keys by simp
  have b': "b' = spend opk b" and dec: "fst (session_decrypt C S (pr_draws r 0) s m') = Inr text"
    using first_exchange [OF laws(1-6,8) b keys3 first] keys answer(1) by auto
  have raw: "open_envelope C self raw = Inr \<lparr>sender_identity_ed = identity_public C b,
      sender_identity_dh = identity_dh_public C b, payload = message_encode M m'\<rparr>"
    using open_sealed [OF laws(2,3,5,1,6), of self eph b' "message_encode M m'"] answer(4)
      sealed_longer [OF laws(5,6), of "message_encode M m'" eph b' "identity_dh_public C self"]
    by (simp add: answer(3) b' identity_public_def identity_dh_public_def)
  have "addr \<in> set ?win" unfolding post(1) by (rule window_covers) (use time in simp_all)
  then obtain pre rest where win: "?win = pre @ addr # rest" "addr \<notin> set pre" by (meson split_list_first)
  obtain old where box: "mailbox st' addr = old @ [\<lparr>enqueued_at = t, qm_bytes = raw\<rparr>]" "set old \<subseteq> set (mailbox st addr)"
    "limits st' = limits st" "\<forall>ib. ib \<noteq> addr \<longrightarrow> mailbox st' ib = mailbox st ib"
    using posted_mailbox [OF laws(9) _ post(2-4)] len by (auto simp: post(1))
  have "length ib = 32" if "ib \<in> set ?win" for ib using that len by (auto simp: inbox_window_def split: if_splits)
  then have pre: "\<forall>ib\<in>set pre. length ib = 32 \<and> mailbox st' ib = []"
    using quiet box(4) win by (metis Un_iff set_append)
  have "mailbox st addr = []" using quiet win(1) by simp
  then have here: "mailbox st' addr = [\<lparr>enqueued_at = t, qm_bytes = raw\<rparr>]" using box(1,2) by simp
  obtain st1 where st1: "limits st1 = limits st" "mailbox st1 addr = [\<lparr>enqueued_at = t, qm_bytes = raw\<rparr>]"
    "peer_inboxes C S M kind W r (loopback W base (tm now)) self ?win 0 s st' =
      peer_inboxes C S M kind W r (loopback W base (tm now)) self (addr # rest) 0 s st1"
    using empty_inboxes [OF laws(9), of pre st' C S M kind r base "tm now" self "addr # rest" 0 s] pre here box(3)
    unfolding win(1) by auto
  have live: "tm now \<le> t + mail_ttl_secs (limits st1)" using time(4) by (simp add: st1(1))
  have m': "message_decode M (payload \<lparr>sender_identity_ed = identity_public C b,
      sender_identity_dh = identity_dh_public C b, payload = message_encode M m'\<rparr>) = Inr m'"
    using laws(8) by (simp add: message_decode_encode)
  have "\<exists>s' st''. peer_inboxes C S M kind W r (loopback W base (tm now)) self (addr # rest) 0 s st1 =
      ([Got_Text (sender_identity_ed \<lparr>sender_identity_ed = identity_public C b,
        sender_identity_dh = identity_dh_public C b, payload = message_encode M m'\<rparr>) body], True, Suc 0, s', st'')"
    by (rule reply_read [where kind = kind, OF laws(9) _ st1(2) live raw m' dec answer(2)]) (simp add: post(1) len)
  then show ?thesis by (auto simp: st1(3) Let_def)
qed

text \<open>The sizes of the envelopes of a concrete run.\<close>

lemma respond_session:
  assumes "session_respond C S new b m = (Inr (sb, p), b')"
  shows "dh_self_pub (ratchet sb) = x25519_public C new \<and> pending_handshake sb = None"
proof -
  obtain root k h ct ad st where "ratchet_decrypt C S new (init_responder C root k) h ct ad = (Inr p, st)"
    "sb = \<lparr>ratchet = st, ad_prefix = ad, pending_handshake = None\<rparr>"
    using assms by (auto simp: session_respond_def Let_def split: message.splits prod.splits sum.splits)
  then show ?thesis using responder_turned by fastforce
qed

lemma demo_reply_size:
  assumes "session_respond demo_crypto S new b m = (Inr (sb, p), b')" "session_encrypt demo_crypto S sb text = (Inr m', sb')"
    and "length text \<le> 100"
  shows "length (seal_envelope demo_crypto eph a q (message_encode (serde_of message_fmt) m')) \<le> 10000"
proof -
  obtain h ct where m': "m' = Normal h ct" "rh_dh_pub h = x25519_public demo_crypto new" "length ct = length text + 16"
    using assms(2) respond_session [OF assms(1)] demo_aead_tag_len
    by (auto simp: session_encrypt_def ratchet_encrypt_def length_aead_seal Let_def split: option.splits prod.splits)
  have "length (put message_fmt m') \<le> 1000"
    using assms(3) demo_dh_len by (simp add: m' message_fmt_def ratchet_header_fmt_def fmt_size dh_len_def)
  then show ?thesis using demo_envelope_size [of "message_encode (serde_of message_fmt) m'"]
    by (simp add: message_encode_def serde_of_def)
qed

theorem peer_gets_reply_witness:
  "\<exists>s blob env m sb p b' m' sb' res st' s' st''.
     peer_compose demo_crypto demo_header_serde (serde_of message_fmt) demo_peer (demo_account 7)
       (served_bundle demo_crypto (demo_account 8) demo_opk) [104, 105] = Inr (s, blob) \<and>
     open_envelope demo_crypto (demo_account 8) blob = Inr env \<and>
     message_decode (serde_of message_fmt) (payload env) = Inr m \<and>
     session_respond demo_crypto demo_header_serde [25] (demo_account 8) m = (Inr (sb, p), b') \<and>
     session_encrypt demo_crypto demo_header_serde sb [111, 107] = (Inr m', sb') \<and>
     net_send demo_web (loopback demo_web ''http://relay/'' 10)
       (inbox_id demo_crypto (identity_public demo_crypto (demo_account 7)) (epoch_for_unix 10))
       (seal_envelope demo_crypto [26] b' (identity_dh_public demo_crypto (demo_account 7))
         (message_encode (serde_of message_fmt) m')) store_new = (res, st') \<and>
     peer_poll_rounds demo_crypto demo_header_serde (serde_of message_fmt) (\<lambda>_. Text_Content ''ok'') demo_web demo_peer
       (\<lambda>n. loopback demo_web ''http://relay/'' (unat n)) (demo_account 7) [20] 0 s st' =
       ([Got_Text (identity_public demo_crypto (demo_account 8)) ''ok''], 0, s', st'')"
proof -
  let ?M = "serde_of message_fmt" and ?S = demo_header_serde and ?a = "demo_account 7" and ?b = "demo_account 8"
  let ?addr = "inbox_id demo_crypto (identity_public demo_crypto ?a) (epoch_for_unix 10)"
  have keys: "distinct (map (x25519_public demo_crypto) [signed_prekey_secret ?b, pr_ratchet demo_peer, [25], pr_draws demo_peer 0])"
    by (simp add: demo_account_def generate_with_prekeys_def demo_rng_def demo_crypto_def pad_to_def demo_peer_def)
  then have keys3: "distinct (map (x25519_public demo_crypto) [signed_prekey_secret ?b, pr_ratchet demo_peer, [25]])" by simp
  note laws = demo_sig_ok demo_aead_ok demo_dh_ok demo_kem_ok demo_dh_len demo_aead_tag_len
  obtain s blob m sb where comp: "peer_compose demo_crypto ?S ?M demo_peer ?a (served_bundle demo_crypto ?b demo_opk) [104, 105] = Inr (s, blob)"
    "length (message_encode ?M m) < 2 ^ 32 \<longrightarrow> open_envelope demo_crypto ?b blob = Inr \<lparr>sender_identity_ed = identity_public demo_crypto ?a,
        sender_identity_dh = identity_dh_public demo_crypto ?a, payload = message_encode ?M m\<rparr>"
    "blob = seal_envelope demo_crypto (pr_seal demo_peer) ?a (identity_dh_public demo_crypto ?b) (message_encode ?M m)"
    "message_decode ?M (message_encode ?M m) = Inr m"
    "session_respond demo_crypto ?S [25] ?b m = (Inr (sb, [104, 105]), spend demo_opk ?b)"
    "\<forall>new'' reply. x25519_public demo_crypto new'' \<notin> x25519_public demo_crypto ` {signed_prekey_secret ?b, pr_ratchet demo_peer, [25]} \<longrightarrow>
       (\<exists>m' sb'. session_encrypt demo_crypto ?S sb reply = (Inr m', sb') \<and> fst (session_decrypt demo_crypto ?S new'' s m') = Inr reply)"
    using composed_message_opens [OF laws serde_of_ok [OF message_fmt_ok] demo_account_wf demo_offered keys3, of ?S ?a "[104, 105]"] by metis
  have small: "length blob \<le> 10000" by (rule demo_first_size [OF comp(1)]) simp
  then have "length (message_encode ?M m) < 2 ^ 32"
    using sealed_longer [OF demo_dh_len demo_aead_tag_len, of "message_encode ?M m" "pr_seal demo_peer" ?a
        "identity_dh_public demo_crypto ?b"] by (simp add: comp(3))
  note opened = comp(2) [rule_format, OF this]
  obtain m' sb' where enc: "session_encrypt demo_crypto ?S sb [111, 107] = (Inr m', sb')"
    using comp(6) [rule_format, of "pr_draws demo_peer 0" "[111, 107]"] keys by auto
  let ?raw = "seal_envelope demo_crypto [26] (spend demo_opk ?b) (identity_dh_public demo_crypto ?a) (message_encode ?M m')"
  have raw: "length ?raw \<le> 10000" by (rule demo_reply_size [OF comp(5) enc]) simp
  have lim: "sane_limits (limits store_new)" "limits store_new = default_limits" "mail_ttl_secs (limits store_new) = 2592000"
    "mailbox store_new ib = []" for ib
    by (simp_all add: store_new_def store_with_limits_def default_limits_def sane_limits_def mailbox_def inner_default_def)
  have post: "postable demo_web (limits store_new) ?addr ?raw"
    using demo_postable [of ?addr ?raw] demo_hash_len raw by (simp add: lim(2) inbox_id_def hash_len_def)
  obtain res st' where send: "net_send demo_web (loopback demo_web ''http://relay/'' 10) ?addr ?raw store_new = (res, st')" by fastforce
  have "\<exists>s' st''. peer_poll_rounds demo_crypto ?S ?M (\<lambda>_. Text_Content ''ok'') demo_web demo_peer
       (\<lambda>n. loopback demo_web ''http://relay/'' (unat n)) ?a (20 # []) 0 s st' =
       ([Got_Text (identity_public demo_crypto ?b) ''ok''], 0, s', st'')"
    by (rule peer_gets_reply [OF laws demo_hash_len serde_of_ok [OF message_fmt_ok] demo_web_ok demo_account_wf demo_offered keys
          comp(1) _ opened _ comp(5) enc refl refl _ refl lim(1) post send]) (use small raw comp(4) lim in simp_all)
  then show ?thesis using comp(1,5) opened comp(4) enc send by fastforce
qed

end
