(* ===== verification/Prekey_Directory.thy ===== *)
theory Prekey_Directory
  imports Peer
begin

text \<open>
  First contacts through the relay's prekey directory: an account publishes its keys
  (\<^verbatim>\<open>relay/src/store.rs\<close>, \<open>split_bundle\<close> and \<open>publish\<close>), strangers fetch bundles and send first messages, and the account
  answers them in the order they arrive (\<^verbatim>\<open>core/src/session.rs\<close>, \<open>Session::respond\<close>). One upload serves any number of
  contacts; an upload that is repeated while a handed-out key is still unused does not.
\<close>

text \<open>A stranger, the text of the first message, and the ratchet key the recipient draws when it arrives.\<close>

record contact =
  ct_account :: account
  ct_ephemeral :: bytes
  ct_kem :: bytes
  ct_ratchet :: bytes
  ct_plain :: bytes
  ct_turn :: bytes

text \<open>Opening a session from a bundle and encrypting the first message.\<close>

definition first_message :: "'c crypto_scheme \<Rightarrow> ratchet_header serde \<Rightarrow> contact \<Rightarrow> prekey_bundle \<Rightarrow> error + message" where
  "first_message C S ct bundle =
     (case session_initiate C (ct_ephemeral ct) (ct_kem ct) (ct_ratchet ct) (ct_account ct) bundle of
        Inl e \<Rightarrow> Inl e
      | Inr s \<Rightarrow> fst (session_encrypt C S s (ct_plain ct)))"

text \<open>First messages answered one after the other: what each gave, and the account afterwards.\<close>

primrec respond_all :: "'c crypto_scheme \<Rightarrow> ratchet_header serde \<Rightarrow> (bytes \<times> message) list \<Rightarrow> account
    \<Rightarrow> (error + bytes) list \<times> account" where
  "respond_all C S [] b = ([], b)"
| "respond_all C S (x # xs) b =
     (let (r, b') = session_respond C S (fst x) b (snd x); (rs, b'') = respond_all C S xs b'
      in (map_sum id snd r # rs, b''))"

definition publish_account :: "'c crypto_scheme \<Rightarrow> account \<Rightarrow> relay_store \<Rightarrow> relay_store" where
  "publish_account C b st = publish st (fst (split_bundle C b)) (snd (split_bundle C b))"

text \<open>The one-time prekey that the \<open>j\<close>-th fetch after an upload hands out.\<close>

definition nth_offer :: "'c crypto_scheme \<Rightarrow> account \<Rightarrow> nat \<Rightarrow> (u32 \<times> bytes) option" where
  "nth_offer C b j = (let pool = account_one_time_prekey_publics C b in if j < length pool then Some (pool ! j) else None)"

definition fresh_turn :: "'c crypto_scheme \<Rightarrow> account \<Rightarrow> contact \<Rightarrow> bool" where
  "fresh_turn C b ct \<longleftrightarrow> distinct (map (x25519_public C) [signed_prekey_secret b, ct_ratchet ct, ct_turn ct])"

text \<open>Strangers for the concrete primitives.\<close>

definition demo_contact :: "u8 \<Rightarrow> contact" where
  "demo_contact x = \<lparr>ct_account = demo_account x, ct_ephemeral = [x, 20], ct_kem = [x, 21], ct_ratchet = [x, 22], ct_plain = [x],
     ct_turn = [x, 23]\<rparr>"

section \<open>Bundles and accounts\<close>

lemma split_bundle_identity: "pb_identity_ed (fst (split_bundle C b)) = identity_public C b"
  using served_bundle_fields(1) [of C b None] by (simp add: split_bundle_def served_bundle_def)

lemma served_offers:
  "fetch_many n (identity_public C b) (publish_account C b st) = map (\<lambda>j. Some (served_bundle C b (nth_offer C b j))) [0..<n]"
  using publish_dispenses_once [of n "fst (split_bundle C b)" st "snd (split_bundle C b)"]
  unfolding split_bundle_identity publish_account_def
  by (simp add: split_bundle_def served_bundle_def nth_offer_def Let_def)

lemma contact_accepted:
  assumes laws: "sig_ok C" "aead_ok C" "dh_ok C" "kem_ok C" and b: "kyber_wf C (kyber b)" "offered C b opk" "fresh_turn C b ct"
  shows "\<exists>m sb. first_message C S ct (served_bundle C b opk) = Inr m \<and>
    session_respond C S (ct_turn ct) b m = (Inr (sb, ct_plain ct), spend opk b)"
proof -
  obtain s ms s' sb where E: "session_initiate C (ct_ephemeral ct) (ct_kem ct) (ct_ratchet ct) (ct_account ct) (served_bundle C b opk) = Inr s"
    "session_encrypt_all C S s [ct_plain ct] = (map Inr ms, s')" "length ms = 1"
    "session_respond C S (ct_turn ct) b (ms ! 0) = (Inr (sb, ct_plain ct), spend opk b)"
    using early_message_accepted [OF laws b(1,2) b(3) [unfolded fresh_turn_def], of "[ct_plain ct]" 0 "ct_ephemeral ct" "ct_kem ct"
        "ct_account ct" S] by auto
  then show ?thesis by (auto simp: first_message_def length_Suc_conv split: prod.splits)
qed

lemma first_message_names:
  assumes "first_message C S ct (served_bundle C b opk) = Inr m" and laws: "sig_ok C" "dh_ok C" "kem_ok C" "kyber_wf C (kyber b)" "offered C b opk"
  shows "\<exists>hs h t. m = PreKey hs h t \<and> hh_one_time_prekey_id hs = map_option fst opk \<and>
    hh_signed_prekey_id hs = signed_prekey_id b \<and> hh_kyber_prekey_id hs = kyber_prekey_id b"
proof -
  obtain root hs where H: "handshake_initiate C (ct_ephemeral ct) (ct_kem ct) (ct_account ct) (served_bundle C b opk) =
       Inr (root, hs, x25519_public C (signed_prekey_secret b))" "hh_signed_prekey_id hs = signed_prekey_id b"
       "hh_one_time_prekey_id hs = map_option fst opk" "hh_kyber_prekey_id hs = kyber_prekey_id b"
    using handshake_agree [OF laws(2-5)] by metis
  have "\<exists>h t. m = PreKey hs h t"
    using assms(1) initiate_starts [OF laws(1) H(1)]
    by (auto simp: first_message_def session_encrypt_def split: prod.splits sum.splits)
  then show ?thesis using H by auto
qed

lemma contact_refused:
  assumes "first_message C S ct (served_bundle C b (Some (i, q))) = Inr m"
    and laws: "sig_ok C" "dh_ok C" "kem_ok C" "kyber_wf C (kyber b)" "offered C b (Some (i, q))"
  shows "session_respond C S new (spend (Some (i, q)) b) m = (Inl UnknownPrekey, spend (Some (i, q)) b)"
proof -
  obtain hs h t where m: "m = PreKey hs h t" "hh_one_time_prekey_id hs = Some i"
    "hh_signed_prekey_id hs = signed_prekey_id b" "hh_kyber_prekey_id hs = kyber_prekey_id b"
    using first_message_names [OF assms] by auto
  show ?thesis
    by (simp add: m session_respond_def handshake_respond_def account_signed_prekey_def consume_one_time_def
        take_one_time_prekey_def) (simp add: spend_def)
qed

text \<open>Spending one key of the pool leaves the others.\<close>

lemma offered_spend: "offered C b (Some p) \<Longrightarrow> fst p \<noteq> fst p' \<Longrightarrow> offered C (spend (Some p') b) (Some p)"
  by (cases p) (auto simp: offered_def publics_lookup spend_def)

lemma nth_offer_offered: "offered C b (nth_offer C b j)"
  by (auto simp: offered_def nth_offer_def Let_def)

lemma nth_offers_differ:
  assumes "nth_offer C b i = Some p" "nth_offer C b j = Some p'" "i \<noteq> j"
  shows "fst p \<noteq> fst p'"
proof -
  let ?ids = "map fst (account_one_time_prekey_publics C b)"
  have "?ids = map fst (sorted_list_of_fmap (one_time_prekeys b))"
    by (auto simp: account_one_time_prekey_publics_def)
  then have "distinct ?ids" using distinct_sorted_list_of_fmap by metis
  then have "?ids ! i \<noteq> ?ids ! j"
    using assms nth_eq_iff_index_eq [of ?ids i j] by (auto simp: nth_offer_def Let_def split: if_splits)
  then show ?thesis using assms by (auto simp: nth_offer_def Let_def split: if_splits)
qed

text \<open>An account that may have answered some of the contacts: the identity and the long-lived keys of \<open>b\<close>.\<close>

definition same_keys :: "account \<Rightarrow> account \<Rightarrow> bool" where
  "same_keys b b' \<longleftrightarrow> ed_signing b' = ed_signing b \<and> dh_identity b' = dh_identity b \<and> signed_prekey_id b' = signed_prekey_id b \<and>
     signed_prekey_secret b' = signed_prekey_secret b \<and> kyber_prekey_id b' = kyber_prekey_id b \<and> kyber b' = kyber b"

lemma same_keys_bundle: "same_keys b b' \<Longrightarrow> served_bundle C b' opk = served_bundle C b opk"
  by (simp add: same_keys_def served_bundle_def account_bundle_def account_sign_def identity_public_def identity_ed_bytes_def
      Let_def split: list.split)

lemma respond_all_accepts:
  assumes laws: "sig_ok C" "aead_ok C" "dh_ok C" "kem_ok C" "kyber_wf C (kyber b)"
    and keys: "\<forall>j\<in>set js. fresh_turn C b (cs j) \<and> first_message C S (cs j) (served_bundle C b (nth_offer C b j)) = Inr (ms j)"
  shows "same_keys b b' \<Longrightarrow> distinct js \<Longrightarrow> \<forall>j\<in>set js. offered C b' (nth_offer C b j) \<Longrightarrow>
    fst (respond_all C S (map (\<lambda>j. (ct_turn (cs j), ms j)) js) b') = map (\<lambda>j. Inr (ct_plain (cs j))) js"
  using keys
proof (induction js arbitrary: b')
  case (Cons j js)
  note b' = Cons.prems(1) [unfolded same_keys_def]
  have j: "kyber_wf C (kyber b')" "offered C b' (nth_offer C b j)" "fresh_turn C b' (cs j)"
    using Cons.prems b' laws(5) by (simp_all add: fresh_turn_def)
  have "first_message C S (cs j) (served_bundle C b' (nth_offer C b j)) = Inr (ms j)"
    unfolding same_keys_bundle [OF Cons.prems(1)] using Cons.prems(4) by simp
  then obtain sb where R: "session_respond C S (ct_turn (cs j)) b' (ms j) = (Inr (sb, ct_plain (cs j)), spend (nth_offer C b j) b')"
    using contact_accepted [OF laws(1-4) j, of S] by auto
  let ?b = "spend (nth_offer C b j) b'"
  have "same_keys b ?b" using b' by (simp add: same_keys_def)
  moreover have "offered C ?b (nth_offer C b i)" if "i \<in> set js" for i
  proof (cases "nth_offer C b j")
    case None
    then show ?thesis using Cons.prems(3) that by (simp add: spend_def)
  next
    case (Some p')
    have "i \<noteq> j" using that Cons.prems(2) by auto
    then show ?thesis
      using Some Cons.prems(3) that nth_offers_differ [of C b i _ j p'] offered_spend [of C b' _ p']
      by (cases "nth_offer C b i") (auto simp: offered_def)
  qed
  ultimately have "fst (respond_all C S (map (\<lambda>j. (ct_turn (cs j), ms j)) js) ?b) = map (\<lambda>j. Inr (ct_plain (cs j))) js"
    using Cons.IH [of ?b] Cons.prems by simp
  then show ?case by (simp add: R case_prod_beta)
qed simp

text \<open>A directory that lists somebody's bundle under an identity of its choice.\<close>

definition lists :: "'c crypto_scheme \<Rightarrow> relay_store \<Rightarrow> bytes \<Rightarrow> account \<Rightarrow> bool" where
  "lists C st identity b \<longleftrightarrow> fmlookup (dir_keys (rs_inner st)) identity = Some \<lparr>base_bundle = served_bundle C b None, one_time = []\<rparr>"

lemma fetch_listed:
  assumes "web_ok W" "length identity = 32" "lists C st identity b"
  shows "net_fetch_bundle W (loopback W base t) identity st = (Inr (Some (served_bundle C b None)), st)"
proof -
  have "fetch_bundle st identity = (Some (served_bundle C b None), st)"
    using assms(3) by (simp add: lists_def fetch_bundle_def)
  then show ?thesis using assms(1) by (simp add: net_fetch_bundle_def loopback_bundle [OF assms(1,2)] respond_json_def)
qed

definition hostile_store :: "bytes \<Rightarrow> account \<Rightarrow> relay_store" where
  "hostile_store identity b = store_new\<lparr>rs_inner := inner_default\<lparr>dir_keys :=
     fmupd identity \<lparr>base_bundle = served_bundle demo_crypto b None, one_time = []\<rparr> fmempty\<rparr>\<rparr>"

lemma demo_turn: "fresh_turn demo_crypto (demo_account 8) (demo_contact x)"
  by (simp add: fresh_turn_def demo_contact_def demo_account_def generate_with_prekeys_def demo_rng_def demo_crypto_def pad_to_def)

lemma demo_first_offer: "\<exists>p. first_offer demo_crypto (demo_account 8) = Some p"
  using demo_offered by (auto simp: offered_def demo_opk_def first_offer_def split: list.split)

section \<open>Properties\<close>

text \<open>
  C16: one upload serves all its contacts. After an account is published, any number of strangers fetch its bundle in turn
  (more than the pool has one-time prekeys, too) and write a first message each; in whatever order, and whichever of
  them, the messages arrive, the account accepts every one and reads exactly the text sent.
\<close>

theorem contacts_all_accepted:
  assumes "sig_ok C" "aead_ok C" "dh_ok C" "kem_ok C" "kyber_wf C (kyber b)"
    and "\<forall>j<n. fresh_turn C b (cs j)" "distinct js" "set js \<subseteq> {..<n}"
  shows "\<exists>ms. (\<forall>j<n. \<exists>bundle. fetch_many n (identity_public C b) (publish_account C b st) ! j = Some bundle \<and>
       first_message C S (cs j) bundle = Inr (ms j)) \<and>
    fst (respond_all C S (map (\<lambda>j. (ct_turn (cs j), ms j)) js) b) = map (\<lambda>j. Inr (ct_plain (cs j))) js"
proof -
  have "\<exists>m. first_message C S (cs j) (served_bundle C b (nth_offer C b j)) = Inr m" if "j < n" for j
    using contact_accepted [OF assms(1-5) nth_offer_offered] assms(6) that by blast
  then obtain ms where ms: "first_message C S (cs j) (served_bundle C b (nth_offer C b j)) = Inr (ms j)" if "j < n" for j
    by metis
  have "fst (respond_all C S (map (\<lambda>j. (ct_turn (cs j), ms j)) js) b) = map (\<lambda>j. Inr (ct_plain (cs j))) js"
    by (rule respond_all_accepts [OF assms(1-5) _ _ assms(7)])
      (use assms(6,8) ms nth_offer_offered in \<open>auto simp: same_keys_def\<close>)
  then show ?thesis using ms by (intro exI [of _ ms]) (simp add: served_offers)
qed

theorem contacts_all_accepted_witness:
  "\<exists>ms. fst (respond_all demo_crypto demo_header_serde
     (map (\<lambda>j. (ct_turn (demo_contact (word_of_nat j)), ms j)) [2, 0, 1]) (demo_account 8)) = [Inr [2], Inr [0], Inr [1]]"
proof -
  obtain ms where "fst (respond_all demo_crypto demo_header_serde
      (map (\<lambda>j. (ct_turn (demo_contact (word_of_nat j)), ms j)) [2, 0, 1]) (demo_account 8)) =
      map (\<lambda>j. Inr (ct_plain (demo_contact (word_of_nat j)))) [2, 0, 1]"
    using contacts_all_accepted [where n = 3 and cs = "\<lambda>j. demo_contact (word_of_nat j)" and js = "[2, 0, 1]"
        and st = store_new and S = demo_header_serde,
        OF demo_sig_ok demo_aead_ok demo_dh_ok demo_kem_ok demo_account_wf allI [OF impI [OF demo_turn]]]
    by (fastforce simp del: list.map respond_all.simps)
  moreover have "map (\<lambda>j. Inr (ct_plain (demo_contact (word_of_nat j)))) [2, 0, 1] = [Inr [2], Inr [0], Inr [1]]"
    by (simp add: demo_contact_def)
  ultimately show ?thesis by (intro exI [of _ ms]) (rule trans)
qed

text \<open>
  C35: a repeated upload hands out a key twice. When the account publishes its pool again before the first contact's message
  has arrived (as the application does at every start and after it mints new keys), the directory gives the next contact
  the same one-time prekey; both write genuine first messages, the one that arrives first is read, and the other
  is refused with \<open>UnknownPrekey\<close>.
\<close>

theorem republished_prekey_refused:
  fixes st :: relay_store
  assumes "sig_ok C" "aead_ok C" "dh_ok C" "kem_ok C" "kyber_wf C (kyber b)" "first_offer C b = Some p"
    and "fresh_turn C b x" "fresh_turn C b y"
  defines "once \<equiv> fetch_bundle (publish_account C b st) (identity_public C b)"
  defines "twice \<equiv> fetch_bundle (publish_account C b (snd once)) (identity_public C b)"
  shows "\<exists>bundle mx my. fst once = Some bundle \<and> fst twice = Some bundle \<and> pb_one_time_prekey_id bundle = Some (fst p) \<and>
    first_message C S x bundle = Inr mx \<and> first_message C S y bundle = Inr my \<and>
    fst (respond_all C S [(ct_turn x, mx), (ct_turn y, my)] b) = [Inr (ct_plain x), Inl UnknownPrekey]"
proof -
  have offer: "nth_offer C b 0 = Some p" using assms(6) by (simp add: first_offer_def nth_offer_def split: list.splits)
  have once: "fst (fetch_bundle (publish_account C b st') (identity_public C b)) = Some (served_bundle C b (Some p))" for st'
    using served_offers [of 1 C b st'] by (simp add: offer case_prod_beta)
  obtain i q where p: "p = (i, q)" by fastforce
  have off: "offered C b (Some p)" using nth_offer_offered [of C b 0] by (simp add: offer)
  obtain mx sb where x: "first_message C S x (served_bundle C b (Some p)) = Inr mx"
    "session_respond C S (ct_turn x) b mx = (Inr (sb, ct_plain x), spend (Some p) b)"
    using contact_accepted [OF assms(1-5) off assms(7)] by blast
  obtain my where y: "first_message C S y (served_bundle C b (Some p)) = Inr my"
    using contact_accepted [OF assms(1-5) off assms(8)] by blast
  have "session_respond C S (ct_turn y) (spend (Some p) b) my = (Inl UnknownPrekey, spend (Some p) b)"
    using contact_refused [OF y [unfolded p] assms(1,3-5)] off by (simp add: p)
  then show ?thesis
    using x y by (intro exI [of _ "served_bundle C b (Some p)"] exI [of _ mx] exI [of _ my])
      (simp add: once_def twice_def once)
qed

theorem republished_prekey_refused_witness:
  "\<exists>bundle my. fst (fetch_bundle (publish_account demo_crypto (demo_account 8) (snd (fetch_bundle
       (publish_account demo_crypto (demo_account 8) store_new) (identity_public demo_crypto (demo_account 8)))))
       (identity_public demo_crypto (demo_account 8))) = Some bundle \<and>
     first_message demo_crypto demo_header_serde (demo_contact 9) bundle = Inr my"
proof -
  obtain p where "first_offer demo_crypto (demo_account 8) = Some p" using demo_first_offer by blast
  from republished_prekey_refused [OF demo_sig_ok demo_aead_ok demo_dh_ok demo_kem_ok demo_account_wf this demo_turn demo_turn,
      of store_new demo_header_serde 7 9]
  show ?thesis by auto
qed

text \<open>
  C36: the example peer accepts a bundle of somebody else. A relay that lists its own account under the identity a user
  asks for is not noticed: the bundle verifies under the key it carries, the peer reports success, and the relay, which
  also keeps the mailbox the message is posted to, opens the envelope, learns the sender and reads the text.
\<close>

theorem substituted_bundle_read:
  fixes now :: u64
  assumes laws: "sig_ok C" "aead_ok C" "dh_ok C" "kem_ok C" "dh_len C" "aead_tag_len C" "hash_len C" "serde_ok M" "web_ok W"
    and relay: "length their_id = 32" "lists C st their_id mallory" "kyber_wf C (kyber mallory)"
    and keys: "distinct (map (x25519_public C) [signed_prekey_secret mallory, pr_ratchet r, new'])"
    and lim: "sane_limits (limits st)" "max_message_bytes (limits st) < 2 ^ 32"
    and time: "t \<le> t'" "t' \<le> t + mail_ttl_secs (limits st)"
  defines "self \<equiv> generate_account C (pr_account r)" and "addr \<equiv> inbox_id C their_id (epoch_for_unix now)"
  shows "\<exists>s blob. peer_compose C S M r self (served_bundle C mallory None) plain = Inr (s, blob) \<and>
    (postable W (limits st) addr blob \<longrightarrow>
      (\<exists>st' old env m sb.
        peer_send C S M W r (loopback W base t) their_id plain now st = (Inr (self, s), st') \<and>
        fst (relay_receive W (loopback W base t') st' addr) = Inr (old @ [blob]) \<and>
        open_envelope C mallory blob = Inr env \<and> sender_identity_ed env = identity_public C self \<and>
        message_decode M (payload env) = Inr m \<and> session_respond C S new' mallory m = (Inr (sb, plain), mallory)))"
proof -
  have off: "offered C mallory None" by (simp add: offered_def)
  have none: "spend None mallory = mallory" by (simp add: spend_def)
  show ?thesis
    unfolding self_def addr_def
    by (rule sent_message_read [OF laws relay(3) off keys lim time fetch_listed [OF laws(9) relay(1,2)] refl, unfolded none])
qed

theorem substituted_bundle_read_witness:
  "\<exists>s blob env m sb st'. peer_send demo_crypto demo_header_serde (serde_of message_fmt) demo_web demo_peer
      (loopback demo_web ''http://relay/'' 10) (identity_public demo_crypto (demo_account 8)) [104, 105] 10
      (hostile_store (identity_public demo_crypto (demo_account 8)) (demo_account 6)) =
        (Inr (generate_account demo_crypto (pr_account demo_peer), s), st') \<and>
    open_envelope demo_crypto (demo_account 6) blob = Inr env \<and> message_decode (serde_of message_fmt) (payload env) = Inr m \<and>
    session_respond demo_crypto demo_header_serde [25] (demo_account 6) m = (Inr (sb, [104, 105]), demo_account 6)"
proof -
  let ?id = "identity_public demo_crypto (demo_account 8)"
  let ?st = "hostile_store ?id (demo_account 6)" and ?addr = "inbox_id demo_crypto ?id (epoch_for_unix 10)"
  have id: "length ?id = 32" "lists demo_crypto ?st ?id (demo_account 6)"
    using demo_sig_ok by (simp_all add: sig_ok_def identity_public_def lists_def hostile_store_def)
  have keys: "distinct (map (x25519_public demo_crypto) [signed_prekey_secret (demo_account 6), pr_ratchet demo_peer, [25]])"
    by (simp add: demo_account_def generate_with_prekeys_def demo_rng_def demo_crypto_def pad_to_def demo_peer_def)
  have lim: "sane_limits (limits ?st)" "max_message_bytes (limits ?st) < 2 ^ 32" "limits ?st = default_limits"
    "(20::nat) \<le> 10 + mail_ttl_secs (limits ?st)"
    by (simp_all add: hostile_store_def store_new_def store_with_limits_def default_limits_def sane_limits_def)
  obtain s blob where send: "peer_compose demo_crypto demo_header_serde (serde_of message_fmt) demo_peer
      (generate_account demo_crypto (pr_account demo_peer)) (served_bundle demo_crypto (demo_account 6) None) [104, 105] = Inr (s, blob)"
    "postable demo_web (limits ?st) ?addr blob \<Longrightarrow> \<exists>st' old env m sb. peer_send demo_crypto demo_header_serde (serde_of message_fmt)
        demo_web demo_peer (loopback demo_web ''http://relay/'' 10) ?id [104, 105] 10 ?st =
          (Inr (generate_account demo_crypto (pr_account demo_peer), s), st') \<and>
        open_envelope demo_crypto (demo_account 6) blob = Inr env \<and> message_decode (serde_of message_fmt) (payload env) = Inr m \<and>
        session_respond demo_crypto demo_header_serde [25] (demo_account 6) m = (Inr (sb, [104, 105]), demo_account 6)"
    using substituted_bundle_read [OF demo_sig_ok demo_aead_ok demo_dh_ok demo_kem_ok demo_dh_len demo_aead_tag_len demo_hash_len
        serde_of_ok [OF message_fmt_ok] demo_web_ok id demo_account_wf keys lim(1,2) _ lim(4), where now = 10 and
        S = demo_header_serde and plain = "[104, 105]" and base = "''http://relay/''"] by fastforce
  have "postable demo_web (limits ?st) ?addr blob"
    using demo_postable [of ?addr blob] demo_first_size [OF send(1)] demo_hash_len by (simp add: lim(3) inbox_id_def hash_len_def)
  then show ?thesis using send(2) by blast
qed

end
