(* ===== verification/Ffi_Memory.thy ===== *)
theory Ffi_Memory
  imports Net Enclave Group
begin

text \<open>
  The memory behind the C interface (\<^verbatim>\<open>ffi/src/lib.rs\<close>). Raw pointers are null, dangling (the non-null address
  Rust gives an empty allocation) or the address of an object. The objects are boxed Rust values in one table per
  type, blocks of bytes (the library's buffers and C strings, and the host's own memory) and the host's cells for
  returned buffers. Every allocation takes the next address, so no address is used twice. Following a pointer to
  no object of its type, reading or writing past a block, or freeing what is not allocated is undefined behaviour:
  the value \<open>None\<close>. Pointers into the middle of a block are left out.

  The locale \<open>handle_table\<close> states what the four tables have in common; each is interpreted. \<open>live\<close> collects what
  the library has allocated and not freed, and \<open>effect\<close> says what an operation did to it.
\<close>

section \<open>Pointers, blocks and the heap\<close>

datatype cptr = NullP | Dangling | At nat

record clarity_buffer =
  cb_ptr :: cptr
  cb_len :: nat

datatype block_owner = Host | Lib_Buffer | Lib_String

record block =
  blk_owner :: block_owner
  blk_data :: bytes

record 'w ffi_heap =
  h_accounts :: "(nat, account) fmap"
  h_sessions :: "(nat, session) fmap"
  h_relays :: "(nat, 'w relay_transport) fmap"
  h_nodes :: "(nat, mesh_node) fmap"
  h_blocks :: "(nat, block) fmap"
  h_cells :: "(nat, clarity_buffer) fmap"
  h_next :: nat

text \<open>\<open>as_ref\<close> and \<open>as_mut\<close>: undefined, null, or the object.\<close>

definition deref :: "(nat, 'a) fmap \<Rightarrow> cptr \<Rightarrow> 'a option option" where
  "deref m p = (case p of NullP \<Rightarrow> Some None | Dangling \<Rightarrow> None | At a \<Rightarrow> map_option Some (fmlookup m a))"

text \<open>\<open>Box::into_raw\<close>, \<open>Box::from_raw\<close> followed by drop, and assignment through a mutable reference. The table is
  given by its record update.\<close>

definition box_into_raw :: "(((nat, 'a) fmap \<Rightarrow> (nat, 'a) fmap) \<Rightarrow> 'w ffi_heap \<Rightarrow> 'w ffi_heap) \<Rightarrow> 'a \<Rightarrow> 'w ffi_heap
    \<Rightarrow> cptr \<times> 'w ffi_heap" where
  "box_into_raw upd v h = (At (h_next h), upd (fmupd (h_next h) v) (h\<lparr>h_next := Suc (h_next h)\<rparr>))"

definition box_free :: "('w ffi_heap \<Rightarrow> (nat, 'a) fmap) \<Rightarrow>
    (((nat, 'a) fmap \<Rightarrow> (nat, 'a) fmap) \<Rightarrow> 'w ffi_heap \<Rightarrow> 'w ffi_heap) \<Rightarrow> cptr \<Rightarrow> 'w ffi_heap \<Rightarrow> 'w ffi_heap option" where
  "box_free tbl upd p h =
     (case p of NullP \<Rightarrow> Some h | Dangling \<Rightarrow> None
      | At a \<Rightarrow> if fmlookup (tbl h) a = None then None else Some (upd (fmdrop a) h))"

definition assign :: "(((nat, 'a) fmap \<Rightarrow> (nat, 'a) fmap) \<Rightarrow> 'w ffi_heap \<Rightarrow> 'w ffi_heap) \<Rightarrow> cptr \<Rightarrow> 'a \<Rightarrow> 'w ffi_heap \<Rightarrow> 'w ffi_heap" where
  "assign upd p v h = (case p of At a \<Rightarrow> upd (fmupd a v) h | _ \<Rightarrow> h)"

definition buffer_null :: clarity_buffer where
  "buffer_null = \<lparr>cb_ptr = NullP, cb_len = 0\<rparr>"

text \<open>\<open>ClarityBuffer::from_vec\<close>: a boxed empty slice allocates nothing and has a dangling, non-null pointer.\<close>

definition alloc_block :: "block_owner \<Rightarrow> bytes \<Rightarrow> 'w ffi_heap \<Rightarrow> cptr \<times> 'w ffi_heap" where
  "alloc_block ow v h = box_into_raw h_blocks_update \<lparr>blk_owner = ow, blk_data = v\<rparr> h"

definition from_vec :: "bytes \<Rightarrow> 'w ffi_heap \<Rightarrow> clarity_buffer \<times> 'w ffi_heap" where
  "from_vec v h =
     (if v = [] then (\<lparr>cb_ptr = Dangling, cb_len = 0\<rparr>, h)
      else let (p, h') = alloc_block Lib_Buffer v h in (\<lparr>cb_ptr = p, cb_len = length v\<rparr>, h'))"

definition clarity_buffer_free :: "clarity_buffer \<Rightarrow> 'w ffi_heap \<Rightarrow> 'w ffi_heap option" where
  "clarity_buffer_free buf h =
     (case cb_ptr buf of
        NullP \<Rightarrow> Some h
      | Dangling \<Rightarrow> if cb_len buf = 0 then Some h else None
      | At a \<Rightarrow>
          if cb_len buf = 0 then Some h
          else (case fmlookup (h_blocks h) a of
             None \<Rightarrow> None
           | Some b \<Rightarrow> if blk_owner b = Lib_Buffer \<and> cb_len buf = length (blk_data b)
               then Some (h\<lparr>h_blocks := fmdrop a (h_blocks h)\<rparr>) else None))"

text \<open>\<open>CString::into_raw\<close> and \<open>CString::from_raw\<close>.\<close>

definition clarity_string_free :: "cptr \<Rightarrow> 'w ffi_heap \<Rightarrow> 'w ffi_heap option" where
  "clarity_string_free p h =
     (case p of NullP \<Rightarrow> Some h | Dangling \<Rightarrow> None
      | At a \<Rightarrow> (case fmlookup (h_blocks h) a of
           None \<Rightarrow> None
         | Some b \<Rightarrow> if blk_owner b = Lib_String then Some (h\<lparr>h_blocks := fmdrop a (h_blocks h)\<rparr>) else None))"

definition cstring_into_raw :: "string \<Rightarrow> 'w ffi_heap \<Rightarrow> cptr \<times> 'w ffi_heap" where
  "cstring_into_raw s h =
     (if 0 \<in> set (byte_lit s) then (NullP, h) else alloc_block Lib_String (byte_lit s @ [0]) h)"

definition read_block :: "'w ffi_heap \<Rightarrow> nat \<Rightarrow> nat \<Rightarrow> bytes option" where
  "read_block h a len = (case fmlookup (h_blocks h) a of
     None \<Rightarrow> None
   | Some b \<Rightarrow> if len \<le> length (blk_data b) then Some (take len (blk_data b)) else None)"

definition as_slice :: "'w ffi_heap \<Rightarrow> cptr \<Rightarrow> nat \<Rightarrow> bytes option" where
  "as_slice h p len = (case p of
     NullP \<Rightarrow> Some []
   | Dangling \<Rightarrow> if len = 0 then Some [] else None
   | At a \<Rightarrow> read_block h a len)"

text \<open>\<open>read_key\<close> of the transport and mesh interfaces.\<close>

definition read_key :: "'w ffi_heap \<Rightarrow> cptr \<Rightarrow> bytes option option" where
  "read_key h p = (case p of NullP \<Rightarrow> Some None | Dangling \<Rightarrow> None | At a \<Rightarrow> map_option Some (read_block h a 32))"

text \<open>\<open>copy_nonoverlapping\<close> of a key to a non-null out pointer.\<close>

definition write_key :: "'w ffi_heap \<Rightarrow> cptr \<Rightarrow> bytes \<Rightarrow> 'w ffi_heap option" where
  "write_key h p k = (case p of
     At a \<Rightarrow> (case fmlookup (h_blocks h) a of
         None \<Rightarrow> None
       | Some b \<Rightarrow> if length k \<le> length (blk_data b)
           then Some (h\<lparr>h_blocks := fmupd a (b\<lparr>blk_data := k @ drop (length k) (blk_data b)\<rparr>) (h_blocks h)\<rparr>)
           else None)
   | _ \<Rightarrow> None)"

definition write_cell :: "'w ffi_heap \<Rightarrow> cptr \<Rightarrow> clarity_buffer \<Rightarrow> 'w ffi_heap option" where
  "write_cell h p b = (case p of
     NullP \<Rightarrow> Some h
   | Dangling \<Rightarrow> None
   | At a \<Rightarrow> if fmlookup (h_cells h) a = None then None else Some (h\<lparr>h_cells := fmupd a b (h_cells h)\<rparr>))"

text \<open>\<open>CStr::from_ptr(p).to_str()\<close>.\<close>

definition cstr :: "'w ffi_heap \<Rightarrow> cptr \<Rightarrow> string option option" where
  "cstr h p = (case p of
     NullP \<Rightarrow> Some None
   | Dangling \<Rightarrow> None
   | At a \<Rightarrow> (case fmlookup (h_blocks h) a of
       None \<Rightarrow> None
     | Some b \<Rightarrow> if 0 \<in> set (blk_data b)
         then let s = takeWhile (\<lambda>x. x \<noteq> 0) (blk_data b)
              in Some (if utf8_valid s then Some (map (\<lambda>x. char_of (unat x)) s) else None)
         else None))"

definition encode_byte_list :: "bytes list \<Rightarrow> bytes" where
  "encode_byte_list items = u32_to_le_bytes (usize_as_u32 (length items)) @ concat (map frame_field items)"

text \<open>
  The decoder of the host, \<open>decodeByteList\<close> in \<^verbatim>\<open>app/lib/src/ffi/clarity.dart\<close>. A read past the end throws, which is
  \<open>None\<close>; bytes after the last item are ignored.
\<close>

primrec decode_items :: "nat \<Rightarrow> nat \<Rightarrow> bytes \<Rightarrow> bytes list option" where
  "decode_items 0 offset bs = Some []"
| "decode_items (Suc k) offset bs =
     (if length bs < offset + 4 then None
      else let len = unat (u32_from_le_bytes (take 4 (drop offset bs))); start = offset + 4
           in if length bs < start + len then None
              else map_option ((#) (take len (drop start bs))) (decode_items k (start + len) bs))"

definition decode_byte_list :: "bytes \<Rightarrow> bytes list option" where
  "decode_byte_list bs =
     (if length bs < 4 then Some []
      else decode_items (unat (u32_from_le_bytes (take 4 bs))) 4 bs)"

section \<open>What is allocated\<close>

datatype obj = Acct nat | Sess nat | Rly nat | Nod nat | Blk nat

definition lib_blocks :: "(nat, block) fmap \<Rightarrow> nat set" where
  "lib_blocks m = {a. \<exists>b. fmlookup m a = Some b \<and> blk_owner b \<noteq> Host}"

definition live :: "'w ffi_heap \<Rightarrow> obj set" where
  "live h = Acct ` fset (fmdom (h_accounts h)) \<union> Sess ` fset (fmdom (h_sessions h)) \<union>
     Rly ` fset (fmdom (h_relays h)) \<union> Nod ` fset (fmdom (h_nodes h)) \<union> Blk ` lib_blocks (h_blocks h)"

definition below :: "nat \<Rightarrow> (nat, 'a) fmap \<Rightarrow> bool" where
  "below n m \<longleftrightarrow> (\<forall>a\<in>fset (fmdom m). a < n)"

definition heap_ok :: "'w ffi_heap \<Rightarrow> bool" where
  "heap_ok h \<longleftrightarrow> below (h_next h) (h_accounts h) \<and> below (h_next h) (h_sessions h) \<and> below (h_next h) (h_relays h) \<and>
     below (h_next h) (h_nodes h) \<and> below (h_next h) (h_blocks h) \<and>
     (\<forall>a b. fmlookup (h_blocks h) a = Some b \<and> blk_owner b = Lib_Buffer \<longrightarrow> blk_data b \<noteq> [])"

text \<open>The object a returned pointer refers to.\<close>

definition owned :: "(nat \<Rightarrow> obj) \<Rightarrow> cptr \<Rightarrow> obj set" where
  "owned tag p = (case p of At a \<Rightarrow> {tag a} | _ \<Rightarrow> {})"

text \<open>Going from \<open>h\<close> to \<open>h'\<close> released \<open>R\<close> and acquired \<open>A\<close>, all of it new.\<close>

definition effect :: "'w ffi_heap \<Rightarrow> obj set \<Rightarrow> obj set \<Rightarrow> 'w ffi_heap \<Rightarrow> bool" where
  "effect h R A h' \<longleftrightarrow> heap_ok h' \<and> live h' = (live h - R) \<union> A \<and> A \<inter> live h = {}"

section \<open>The handle tables\<close>

lemma below_simps [simp]:
  "below n (fmupd a v m) \<longleftrightarrow> a < n \<and> below n (fmdrop a m)" "below n m \<Longrightarrow> below n (fmdrop a m)"
  "below n m \<Longrightarrow> below (Suc n) m" "below n fmempty"
  by (auto simp: below_def)

lemma below_lookup: "below n m \<Longrightarrow> fmlookup m a = Some v \<Longrightarrow> a < n"
  by (auto simp: below_def fmlookup_dom_iff)

text \<open>
  What the tables of boxed objects have in common: the record update replaces this table and nothing else, \<open>tag\<close> is how
  its objects appear in \<open>live\<close>, and the well-formedness of the heap asks of it only that its addresses were handed out.
\<close>

locale handle_table =
  fixes tbl :: "'w ffi_heap \<Rightarrow> (nat, 'a) fmap"
    and upd :: "((nat, 'a) fmap \<Rightarrow> (nat, 'a) fmap) \<Rightarrow> 'w ffi_heap \<Rightarrow> 'w ffi_heap"
    and tag :: "nat \<Rightarrow> obj"
  assumes tbl_upd: "tbl (upd f h) = f (tbl h)"
    and tbl_next: "tbl (h\<lparr>h_next := n\<rparr>) = tbl h"
    and live_upd: "live (upd f h) = (live h - tag ` fset (fmdom (tbl h))) \<union> tag ` fset (fmdom (f (tbl h)))"
    and live_tag: "tag a \<in> live h \<longleftrightarrow> fmlookup (tbl h) a \<noteq> None"
    and tag_inj: "inj tag"
    and ok_below: "heap_ok h \<Longrightarrow> below (h_next h) (tbl h)"
    and ok_upd: "heap_ok h \<Longrightarrow> below (h_next h) (f (tbl h)) \<Longrightarrow> heap_ok (upd f h)"
    and ok_next: "heap_ok h \<Longrightarrow> heap_ok (h\<lparr>h_next := Suc (h_next h)\<rparr>)"
    and live_next: "live (h\<lparr>h_next := n\<rparr>) = live h"
begin

lemma tags_live: "tag ` fset (fmdom (tbl h)) \<subseteq> live h"
  by (auto simp: live_tag fmlookup_dom_iff)

lemma fresh: "heap_ok h \<Longrightarrow> fmlookup (tbl h) (h_next h) = None"
  using below_lookup [OF ok_below] by (cases "fmlookup (tbl h) (h_next h)") blast+

lemma box_deref: "box_into_raw upd v h = (p, h') \<Longrightarrow> deref (tbl h') p = Some (Some v) \<and> p = At (h_next h)"
  by (auto simp: box_into_raw_def deref_def tbl_upd)

lemma box_effect: "heap_ok h \<Longrightarrow> box_into_raw upd v h = (p, h') \<Longrightarrow> effect h {} (owned tag p) h'"
proof -
  assume h: "heap_ok h" and b: "box_into_raw upd v h = (p, h')"
  let ?h = "h\<lparr>h_next := Suc (h_next h)\<rparr>"
  have h': "h' = upd (fmupd (h_next h) v) ?h" "p = At (h_next h)" using b by (auto simp: box_into_raw_def)
  have "heap_ok h'" unfolding h'(1)
    using ok_upd [OF ok_next [OF h], of "fmupd (h_next h) v"] ok_below [OF h] by (simp add: tbl_next)
  moreover have "live h' = live h \<union> {tag (h_next h)}"
    using tags_live [of h] unfolding h'(1) live_upd by (auto simp: tbl_next live_next)
  ultimately show ?thesis using fresh [OF h] by (simp add: effect_def h'(2) owned_def live_tag)
qed

lemma free_effect: "heap_ok h \<Longrightarrow> box_free tbl upd p h = Some h' \<Longrightarrow> effect h (owned tag p) {} h'"
proof -
  assume h: "heap_ok h" and f: "box_free tbl upd p h = Some h'"
  show ?thesis
  proof (cases p)
    case (At a)
    then have h': "h' = upd (fmdrop a) h" "a |\<in>| fmdom (tbl h)"
      using f by (auto simp: box_free_def fmlookup_dom_iff split: if_splits)
    have "live h' = live h - {tag a}"
      using tags_live [of h] tag_inj h'(2) unfolding h'(1) live_upd by (auto dest: injD)
    moreover have "heap_ok h'" using h ok_upd [OF h] ok_below [OF h] by (simp add: h'(1))
    ultimately show ?thesis using At by (simp add: effect_def owned_def)
  qed (use h f in \<open>auto simp: box_free_def effect_def owned_def\<close>)
qed

lemma free_defined: "p = NullP \<or> (\<exists>a. p = At a \<and> tag a \<in> live h) \<Longrightarrow> \<exists>h'. box_free tbl upd p h = Some h'"
  by (auto simp: box_free_def live_tag)

lemma deref_defined: "p = NullP \<or> (\<exists>a. p = At a \<and> tag a \<in> live h) \<Longrightarrow> \<exists>x. deref (tbl h) p = Some x"
  by (auto simp: deref_def live_tag)

lemma assign_effect:
  "heap_ok h \<Longrightarrow> deref (tbl h) p = Some (Some u) \<Longrightarrow> effect h {} {} (assign upd p v h)"
proof -
  assume h: "heap_ok h" and d: "deref (tbl h) p = Some (Some u)"
  then obtain a where a: "p = At a" "fmlookup (tbl h) a = Some u" by (auto simp: deref_def split: cptr.splits)
  have "live (upd (fmupd a v) h) = live h"
    using tags_live [of h] a(2) unfolding live_upd by (auto simp: fmlookup_dom_iff)
  moreover have "heap_ok (upd (fmupd a v) h)"
    using ok_upd [OF h] ok_below [OF h] below_lookup [OF ok_below [OF h] a(2)] by simp
  ultimately show ?thesis by (simp add: effect_def assign_def a(1))
qed

lemma assign_deref: "deref (tbl h) p = Some (Some u) \<Longrightarrow> deref (tbl (assign upd p v h)) p = Some (Some v)"
  by (auto simp: deref_def assign_def tbl_upd split: cptr.splits)

end

lemmas heap_laws = live_def heap_ok_def lib_blocks_def

interpretation accts: handle_table h_accounts h_accounts_update Acct
  by unfold_locales (auto simp: heap_laws fmlookup_dom_iff inj_def)

interpretation sesss: handle_table h_sessions h_sessions_update Sess
  by unfold_locales (auto simp: heap_laws fmlookup_dom_iff inj_def)

interpretation relys: handle_table h_relays h_relays_update Rly
  by unfold_locales (auto simp: heap_laws fmlookup_dom_iff inj_def)

interpretation nodes: handle_table h_nodes h_nodes_update Nod
  by unfold_locales (auto simp: heap_laws fmlookup_dom_iff inj_def)

section \<open>Effects of the block operations\<close>

named_theorems effects \<open>what the memory operations release and acquire\<close>

declare accts.box_effect [effects] sesss.box_effect [effects] relys.box_effect [effects] nodes.box_effect [effects]
declare accts.free_effect [effects] sesss.free_effect [effects] relys.free_effect [effects] nodes.free_effect [effects]
declare accts.assign_effect [effects] sesss.assign_effect [effects] nodes.assign_effect [effects]

lemma effect_refl: "heap_ok h \<Longrightarrow> effect h {} {} h"
  by (simp add: effect_def)

lemma effect_ok: "effect h R A h' \<Longrightarrow> heap_ok h'"
  by (simp add: effect_def)

text \<open>Two steps that release nothing.\<close>

lemma effect_trans: "effect h {} A h1 \<Longrightarrow> effect h1 {} B h2 \<Longrightarrow> effect h {} (A \<union> B) h2"
  by (auto simp: effect_def)

lemma heap_ok_blocks:
  assumes "heap_ok h" "below (h_next h) m"
    and "\<And>a b. fmlookup m a = Some b \<Longrightarrow> blk_owner b = Lib_Buffer \<Longrightarrow> blk_data b \<noteq> []"
  shows "heap_ok (h\<lparr>h_blocks := m\<rparr>)"
  using assms unfolding heap_ok_def by auto

lemma heap_ok_block:
  assumes "heap_ok h"
  shows "below (h_next h) (h_blocks h)"
    "fmlookup (h_blocks h) a = Some b \<Longrightarrow> blk_owner b = Lib_Buffer \<Longrightarrow> blk_data b \<noteq> []"
  using assms unfolding heap_ok_def by blast+

lemma block_fresh: "heap_ok h \<Longrightarrow> fmlookup (h_blocks h) (h_next h) = None"
  using below_lookup [OF heap_ok_block(1), of h "h_next h"] by (cases "fmlookup (h_blocks h) (h_next h)") auto

lemma alloc_block_effect:
  assumes "heap_ok h" "alloc_block ow v h = (p, h')" "ow \<noteq> Host" "v \<noteq> []"
  shows "effect h {} (owned Blk p) h'"
proof -
  have h': "p = At (h_next h)" "h' = h\<lparr>h_next := Suc (h_next h),
      h_blocks := fmupd (h_next h) \<lparr>blk_owner = ow, blk_data = v\<rparr> (h_blocks h)\<rparr>"
    using assms(2) by (auto simp: alloc_block_def box_into_raw_def)
  have "lib_blocks (h_blocks h') = insert (h_next h) (lib_blocks (h_blocks h))"
    using assms(3) by (auto simp: lib_blocks_def h')
  then have "live h' = live h \<union> {Blk (h_next h)}" by (auto simp: live_def h')
  moreover have "Blk (h_next h) \<notin> live h"
    using block_fresh [OF assms(1)] by (auto simp: live_def lib_blocks_def)
  moreover have "heap_ok h'"
    unfolding h'(2) by (rule heap_ok_blocks [OF accts.ok_next [OF assms(1)]])
      (use heap_ok_block [OF assms(1)] assms(4) in \<open>auto split: if_splits\<close>)
  ultimately show ?thesis by (simp add: effect_def owned_def h'(1))
qed

lemma from_vec_effect [effects]:
  "heap_ok h \<Longrightarrow> from_vec v h = (b, h') \<Longrightarrow> effect h {} (owned Blk (cb_ptr b)) h'"
  using alloc_block_effect [of h Lib_Buffer v]
  by (auto simp: from_vec_def owned_def effect_refl split: if_splits prod.splits)

lemma cstring_effect [effects]:
  "heap_ok h \<Longrightarrow> cstring_into_raw s h = (p, h') \<Longrightarrow> effect h {} (owned Blk p) h'"
  using alloc_block_effect [of h Lib_String "byte_lit s @ [0]"]
  by (auto simp: cstring_into_raw_def owned_def effect_refl split: if_splits)

lemma write_key_effect [effects]:
  assumes "heap_ok h" "write_key h p k = Some h'"
  shows "effect h {} {} h'"
proof -
  obtain a b where a: "p = At a" "fmlookup (h_blocks h) a = Some b" "length k \<le> length (blk_data b)"
    and h': "h' = h\<lparr>h_blocks := fmupd a (b\<lparr>blk_data := k @ drop (length k) (blk_data b)\<rparr>) (h_blocks h)\<rparr>"
    using assms(2) by (auto simp: write_key_def split: cptr.splits option.splits if_splits)
  have "lib_blocks (h_blocks h') = lib_blocks (h_blocks h)" by (auto simp: lib_blocks_def h' a(2))
  then have "live h' = live h" by (simp add: live_def h')
  moreover have "a < h_next h" by (rule below_lookup [OF heap_ok_block(1) [OF assms(1)] a(2)])
  then have "heap_ok h'"
    unfolding h' by (intro heap_ok_blocks [OF assms(1)])
      (use heap_ok_block [OF assms(1)] a(2,3) in \<open>auto split: if_splits\<close>)
  ultimately show ?thesis by (simp add: effect_def)
qed

lemma write_cell_effect [effects]: "heap_ok h \<Longrightarrow> write_cell h p b = Some h' \<Longrightarrow> effect h {} {} h'"
  by (auto simp: write_cell_def effect_def live_def heap_ok_def split: cptr.splits if_splits)

lemma drop_block_effect:
  assumes "heap_ok h" "fmlookup (h_blocks h) a = Some b" "blk_owner b \<noteq> Host"
  shows "effect h {Blk a} {} (h\<lparr>h_blocks := fmdrop a (h_blocks h)\<rparr>)"
proof -
  have "lib_blocks (fmdrop a (h_blocks h)) = lib_blocks (h_blocks h) - {a}" by (auto simp: lib_blocks_def)
  then have "live (h\<lparr>h_blocks := fmdrop a (h_blocks h)\<rparr>) = live h - {Blk a}" by (auto simp: live_def)
  moreover have "heap_ok (h\<lparr>h_blocks := fmdrop a (h_blocks h)\<rparr>)"
    by (rule heap_ok_blocks [OF assms(1)]) (use heap_ok_block [OF assms(1)] in \<open>auto split: if_splits\<close>)
  ultimately show ?thesis by (simp add: effect_def)
qed

text \<open>The block a non-empty buffer owns.\<close>

definition buffer_owned :: "clarity_buffer \<Rightarrow> obj set" where
  "buffer_owned b = (if cb_len b = 0 then {} else owned Blk (cb_ptr b))"

lemma buffer_free_effect [effects]:
  "heap_ok h \<Longrightarrow> clarity_buffer_free b h = Some h' \<Longrightarrow> effect h (buffer_owned b) {} h'"
  using drop_block_effect [of h]
  by (auto simp: clarity_buffer_free_def buffer_owned_def owned_def effect_refl split: cptr.splits if_splits option.splits)

lemma string_free_effect [effects]:
  "heap_ok h \<Longrightarrow> clarity_string_free p h = Some h' \<Longrightarrow> effect h (owned Blk p) {} h'"
  using drop_block_effect [of h]
  by (auto simp: clarity_string_free_def owned_def effect_refl split: cptr.splits if_splits option.splits)

section \<open>What the block operations keep\<close>

lemma from_vec_keeps [simp]:
  "h_accounts (snd (from_vec v h)) = h_accounts h" "h_sessions (snd (from_vec v h)) = h_sessions h"
  "h_relays (snd (from_vec v h)) = h_relays h" "h_nodes (snd (from_vec v h)) = h_nodes h"
  "h_cells (snd (from_vec v h)) = h_cells h"
  by (simp_all add: from_vec_def alloc_block_def box_into_raw_def)

text \<open>A buffer is never null, has its vector as contents, and leaves the other blocks alone.\<close>

lemma from_vec_holds:
  "cb_ptr (fst (from_vec v h)) \<noteq> NullP"
  "as_slice (snd (from_vec v h)) (cb_ptr (fst (from_vec v h))) (cb_len (fst (from_vec v h))) = Some v"
  by (simp_all add: from_vec_def alloc_block_def box_into_raw_def as_slice_def read_block_def)

lemma from_vec_slice:
  "heap_ok h \<Longrightarrow> as_slice h p n = Some x \<Longrightarrow> as_slice (snd (from_vec v h)) p n = Some x"
  using block_fresh [of h]
  by (cases p) (auto simp: from_vec_def alloc_block_def box_into_raw_def as_slice_def read_block_def split: option.splits)

section \<open>Byte lists\<close>

lemma decode_items_frames:
  assumes "list_all field_ok items" "length pre = offset"
  shows "decode_items (length items) offset (pre @ concat (map frame_field items) @ rest) = Some items"
  using assms
proof (induction items arbitrary: pre offset)
  case Nil
  then show ?case by simp
next
  case (Cons x xs)
  have len: "unat (usize_as_u32 (length x)) = length x" using Cons.prems(1) by (simp add: unat_usize_as_u32)
  have "decode_items (length xs) (offset + (4 + length x)) ((pre @ frame_field x) @ concat (map frame_field xs) @ rest) = Some xs"
    by (rule Cons.IH) (use Cons.prems in \<open>simp_all add: frame_field_def\<close>)
  then show ?case
    using Cons.prems(2) len by (simp add: frame_field_def [of x] Let_def add.commute add.left_commute)
qed

section \<open>Property\<close>

text \<open>
  Lists cross the C interface intact. The host's decoder returns exactly the list the library encoded, whatever bytes
  the items hold and whatever follows the encoding, provided the count and every length fit the 32-bit prefixes.
\<close>

lemma byte_list_roundtrip:
  assumes "length items < 2 ^ 32" "\<forall>x\<in>set items. length x < 2 ^ 32"
  shows "decode_byte_list (encode_byte_list items @ rest) = Some items"
proof -
  let ?n = "u32_to_le_bytes (usize_as_u32 (length items))"
  have "decode_items (length items) 4 (?n @ concat (map frame_field items) @ rest) = Some items"
    by (rule decode_items_frames) (use assms(2) in \<open>simp_all add: list_all_iff\<close>)
  then show ?thesis
    using assms(1) by (simp add: decode_byte_list_def encode_byte_list_def unat_usize_as_u32)
qed

end
