(* ===== verification/Ffi.thy ===== *)
theory Ffi
  imports Ffi_Memory Envelope Inbox Safety "HOL-Library.Monad_Syntax"
begin

text \<open>
  The C interface to accounts, sessions, safety numbers, envelopes and inboxes (\<^verbatim>\<open>ffi/src/lib.rs\<close>), one definition per
  exported function, on the memory of theory \<open>Ffi_Memory\<close>. A function returns its result and the heap it leaves, or
  \<open>None\<close> for undefined behaviour. The order of the null checks, dereferences and reads is the source's. \<open>ffi_env\<close> gathers
  the third-party parameters; random draws are arguments.
\<close>

text \<open>What \<open>entry.get("id").and_then(as_u64)\<close> and \<open>entry.get("public").and_then(as_str)\<close> return for one JSON value.\<close>

record json_entry =
  je_id :: "u64 option"
  je_public :: "string option"

record json_codec =
  js_print :: "(u32 \<times> string) list \<Rightarrow> bytes"
    \<comment> \<open>the array of objects with the fields \<open>id\<close> and \<open>public\<close>\<close>
  js_parse :: "bytes \<Rightarrow> string + json_entry list"

record ffi_env =
  e_crypto :: crypto
  e_codecs :: codecs
  e_message :: "message serde"
  e_web :: web_codecs
  e_json :: json_codec
  e_frame :: "mesh_frame serde"

section \<open>Accounts\<close>

definition clarity_account_generate :: "ffi_env \<Rightarrow> account_rng \<Rightarrow> 'w ffi_heap \<Rightarrow> cptr \<times> 'w ffi_heap" where
  "clarity_account_generate E rng h = box_into_raw h_accounts_update (generate_account (e_crypto E) rng) h"

definition clarity_account_free :: "cptr \<Rightarrow> 'w ffi_heap \<Rightarrow> 'w ffi_heap option" where
  "clarity_account_free acct h = box_free h_accounts h_accounts_update acct h"

definition clarity_account_serialize :: "ffi_env \<Rightarrow> cptr \<Rightarrow> 'w ffi_heap \<Rightarrow> (clarity_buffer \<times> 'w ffi_heap) option" where
  "clarity_account_serialize E acct h = do {
     a \<leftarrow> deref (h_accounts h) acct;
     Some (case a of
        Some a \<Rightarrow> from_vec (account_to_bytes (cd_account (e_codecs E)) a) h
      | None \<Rightarrow> (buffer_null, h)) }"

definition clarity_account_deserialize :: "ffi_env \<Rightarrow> cptr \<Rightarrow> nat \<Rightarrow> 'w ffi_heap \<Rightarrow> (cptr \<times> 'w ffi_heap) option" where
  "clarity_account_deserialize E p len h = do {
     bs \<leftarrow> as_slice h p len;
     Some (case account_from_bytes (e_crypto E) (cd_account (e_codecs E)) bs of
        Inr a \<Rightarrow> box_into_raw h_accounts_update a h
      | Inl _ \<Rightarrow> (NullP, h)) }"

definition clarity_account_identity_public :: "ffi_env \<Rightarrow> cptr \<Rightarrow> cptr \<Rightarrow> 'w ffi_heap \<Rightarrow> 'w ffi_heap option" where
  "clarity_account_identity_public E acct out h = do {
     a \<leftarrow> deref (h_accounts h) acct;
     (case a of
        Some a \<Rightarrow> if out = NullP then Some h else write_key h out (identity_public (e_crypto E) a)
      | None \<Rightarrow> Some h) }"

definition bundle_base_of :: "crypto \<Rightarrow> account \<Rightarrow> prekey_bundle" where
  "bundle_base_of C a = (account_bundle C a)\<lparr>pb_one_time_prekey := None, pb_one_time_prekey_id := None\<rparr>"

definition clarity_account_bundle_base :: "ffi_env \<Rightarrow> cptr \<Rightarrow> 'w ffi_heap \<Rightarrow> (clarity_buffer \<times> 'w ffi_heap) option" where
  "clarity_account_bundle_base E acct h = do {
     a \<leftarrow> deref (h_accounts h) acct;
     Some (case a of
        Some a \<Rightarrow> from_vec (bundle_encode (wc_bundle (e_web E)) (bundle_base_of (e_crypto E) a)) h
      | None \<Rightarrow> (buffer_null, h)) }"

definition clarity_account_one_time_publics :: "ffi_env \<Rightarrow> cptr \<Rightarrow> 'w ffi_heap \<Rightarrow> (clarity_buffer \<times> 'w ffi_heap) option" where
  "clarity_account_one_time_publics E acct h = do {
     a \<leftarrow> deref (h_accounts h) acct;
     Some (case a of
        Some a \<Rightarrow>
          let entries = map (\<lambda>(i, public). (i, b64 (e_web E) public)) (account_one_time_prekey_publics (e_crypto E) a)
          in from_vec (js_print (e_json E) entries) h
      | None \<Rightarrow> (buffer_null, h)) }"

definition clarity_account_one_time_remaining :: "cptr \<Rightarrow> 'w ffi_heap \<Rightarrow> u32 option" where
  "clarity_account_one_time_remaining acct h = do {
     a \<leftarrow> deref (h_accounts h) acct;
     Some (case a of Some a \<Rightarrow> usize_as_u32 (one_time_prekeys_remaining a) | None \<Rightarrow> 0) }"

definition clarity_account_replenish_prekeys :: "(nat \<Rightarrow> bytes) \<Rightarrow> cptr \<Rightarrow> u32 \<Rightarrow> 'w ffi_heap \<Rightarrow> (int \<times> 'w ffi_heap) option" where
  "clarity_account_replenish_prekeys draw acct count h = do {
     a \<leftarrow> deref (h_accounts h) acct;
     Some (case a of
        Some a \<Rightarrow> (0, assign h_accounts_update acct (snd (replenish_one_time_prekeys draw a count)) h)
      | None \<Rightarrow> (- 1, h)) }"

section \<open>Sessions\<close>

definition clarity_session_initiate :: "ffi_env \<Rightarrow> bytes \<Rightarrow> bytes \<Rightarrow> bytes \<Rightarrow> cptr \<Rightarrow> cptr \<Rightarrow> nat \<Rightarrow> 'w ffi_heap
    \<Rightarrow> (cptr \<times> 'w ffi_heap) option" where
  "clarity_session_initiate E eph rng new_self acct bundle_ptr bundle_len h = do {
     a \<leftarrow> deref (h_accounts h) acct;
     (case a of
        None \<Rightarrow> Some (NullP, h)
      | Some a \<Rightarrow> do {
          bs \<leftarrow> as_slice h bundle_ptr bundle_len;
          Some (case bundle_decode (wc_bundle (e_web E)) bs of
             Inl _ \<Rightarrow> (NullP, h)
           | Inr b \<Rightarrow> (case session_initiate (e_crypto E) eph rng new_self a b of
               Inr s \<Rightarrow> box_into_raw h_sessions_update s h
             | Inl _ \<Rightarrow> (NullP, h))) }) }"

definition clarity_session_respond :: "ffi_env \<Rightarrow> bytes \<Rightarrow> cptr \<Rightarrow> cptr \<Rightarrow> nat \<Rightarrow> cptr \<Rightarrow> 'w ffi_heap
    \<Rightarrow> (cptr \<times> 'w ffi_heap) option" where
  "clarity_session_respond E new_self acct msg_ptr msg_len out_plaintext h = do {
     h0 \<leftarrow> write_cell h out_plaintext buffer_null;
     a \<leftarrow> deref (h_accounts h0) acct;
     (case a of
        None \<Rightarrow> Some (NullP, h0)
      | Some a \<Rightarrow> do {
          bs \<leftarrow> as_slice h0 msg_ptr msg_len;
          (case message_decode (e_message E) bs of
             Inl _ \<Rightarrow> Some (NullP, h0)
           | Inr m \<Rightarrow> (case session_respond (e_crypto E) (cd_header (e_codecs E)) new_self a m of
               (Inl _, a') \<Rightarrow> Some (NullP, assign h_accounts_update acct a' h0)
             | (Inr (s, plaintext), a') \<Rightarrow> do {
                 h2 \<leftarrow> (let h1 = assign h_accounts_update acct a' h0
                        in if out_plaintext = NullP then Some h1
                           else let (b, hb) = from_vec plaintext h1 in write_cell hb out_plaintext b);
                 Some (box_into_raw h_sessions_update s h2) })) }) }"

definition clarity_session_encrypt :: "ffi_env \<Rightarrow> cptr \<Rightarrow> cptr \<Rightarrow> nat \<Rightarrow> 'w ffi_heap \<Rightarrow> (clarity_buffer \<times> 'w ffi_heap) option" where
  "clarity_session_encrypt E sess pt_ptr pt_len h = do {
     s \<leftarrow> deref (h_sessions h) sess;
     (case s of
        None \<Rightarrow> Some (buffer_null, h)
      | Some s \<Rightarrow> do {
          pt \<leftarrow> as_slice h pt_ptr pt_len;
          Some (case session_encrypt (e_crypto E) (cd_header (e_codecs E)) s pt of
             (Inr m, s') \<Rightarrow> from_vec (message_encode (e_message E) m) (assign h_sessions_update sess s' h)
           | (Inl _, s') \<Rightarrow> (buffer_null, assign h_sessions_update sess s' h)) }) }"

definition clarity_session_decrypt :: "ffi_env \<Rightarrow> bytes \<Rightarrow> cptr \<Rightarrow> cptr \<Rightarrow> nat \<Rightarrow> 'w ffi_heap
    \<Rightarrow> (clarity_buffer \<times> 'w ffi_heap) option" where
  "clarity_session_decrypt E new_self sess msg_ptr msg_len h = do {
     s \<leftarrow> deref (h_sessions h) sess;
     (case s of
        None \<Rightarrow> Some (buffer_null, h)
      | Some s \<Rightarrow> do {
          bs \<leftarrow> as_slice h msg_ptr msg_len;
          Some (case message_decode (e_message E) bs of
             Inl _ \<Rightarrow> (buffer_null, h)
           | Inr m \<Rightarrow> (case session_decrypt (e_crypto E) (cd_header (e_codecs E)) new_self s m of
               (Inr pt, s') \<Rightarrow> from_vec pt (assign h_sessions_update sess s' h)
             | (Inl _, s') \<Rightarrow> (buffer_null, assign h_sessions_update sess s' h))) }) }"

definition clarity_session_free :: "cptr \<Rightarrow> 'w ffi_heap \<Rightarrow> 'w ffi_heap option" where
  "clarity_session_free sess h = box_free h_sessions h_sessions_update sess h"

definition clarity_session_serialize :: "ffi_env \<Rightarrow> cptr \<Rightarrow> 'w ffi_heap \<Rightarrow> (clarity_buffer \<times> 'w ffi_heap) option" where
  "clarity_session_serialize E sess h = do {
     s \<leftarrow> deref (h_sessions h) sess;
     Some (case s of
        Some s \<Rightarrow> from_vec (session_serialize (cd_ratchet (e_codecs E)) (cd_session (e_codecs E)) s) h
      | None \<Rightarrow> (buffer_null, h)) }"

definition clarity_session_deserialize :: "ffi_env \<Rightarrow> cptr \<Rightarrow> nat \<Rightarrow> 'w ffi_heap \<Rightarrow> (cptr \<times> 'w ffi_heap) option" where
  "clarity_session_deserialize E p len h = do {
     bs \<leftarrow> as_slice h p len;
     Some (case session_deserialize (cd_ratchet (e_codecs E)) (cd_session (e_codecs E)) bs of
        Inr s \<Rightarrow> box_into_raw h_sessions_update s h
      | Inl _ \<Rightarrow> (NullP, h)) }"

section \<open>Safety numbers, inboxes, bundles and envelopes\<close>

text \<open>\<open>copy_nonoverlapping\<close> of 32 bytes from a pointer already known not to be null.\<close>

definition copy_key :: "'w ffi_heap \<Rightarrow> cptr \<Rightarrow> bytes option" where
  "copy_key h p = Option.bind (read_key h p) (\<lambda>k. k)"

definition clarity_safety_number :: "ffi_env \<Rightarrow> cptr \<Rightarrow> cptr \<Rightarrow> 'w ffi_heap \<Rightarrow> (cptr \<times> 'w ffi_heap) option" where
  "clarity_safety_number E id_a id_b h =
     (if id_a = NullP \<or> id_b = NullP then Some (NullP, h)
      else do { a \<leftarrow> copy_key h id_a; b \<leftarrow> copy_key h id_b; Some (cstring_into_raw (safety_number (e_crypto E) a b) h) })"

definition clarity_epoch_for_unix :: "u64 \<Rightarrow> u64" where
  "clarity_epoch_for_unix unix_seconds = epoch_for_unix unix_seconds"

definition clarity_inbox_id :: "ffi_env \<Rightarrow> cptr \<Rightarrow> u64 \<Rightarrow> cptr \<Rightarrow> 'w ffi_heap \<Rightarrow> 'w ffi_heap option" where
  "clarity_inbox_id E identity ep out h =
     (if identity = NullP \<or> out = NullP then Some h
      else do { i \<leftarrow> copy_key h identity; write_key h out (inbox_id (e_crypto E) i ep) })"

definition clarity_bundle_identity_keys :: "ffi_env \<Rightarrow> cptr \<Rightarrow> nat \<Rightarrow> cptr \<Rightarrow> cptr \<Rightarrow> 'w ffi_heap \<Rightarrow> (int \<times> 'w ffi_heap) option" where
  "clarity_bundle_identity_keys E bundle_ptr bundle_len out_identity_ed out_identity_dh h =
     (if out_identity_ed = NullP \<or> out_identity_dh = NullP then Some (- 1, h)
      else do {
        bs \<leftarrow> as_slice h bundle_ptr bundle_len;
        (case bundle_decode (wc_bundle (e_web E)) bs of
           Inl _ \<Rightarrow> Some (- 1, h)
         | Inr b \<Rightarrow>
             if \<not> is_ok (verify_bundle (e_crypto E) b) then Some (- 1, h)
             else do {
               h1 \<leftarrow> write_key h out_identity_ed (pb_identity_ed b);
               h2 \<leftarrow> write_key h1 out_identity_dh (pb_identity_dh b);
               Some (0, h2) }) })"

definition clarity_seal_envelope :: "ffi_env \<Rightarrow> bytes \<Rightarrow> cptr \<Rightarrow> cptr \<Rightarrow> cptr \<Rightarrow> nat \<Rightarrow> 'w ffi_heap
    \<Rightarrow> (clarity_buffer \<times> 'w ffi_heap) option" where
  "clarity_seal_envelope E eph acct recipient_identity_dh payload_ptr payload_len h = do {
     a \<leftarrow> deref (h_accounts h) acct;
     (case a of
        None \<Rightarrow> Some (buffer_null, h)
      | Some a \<Rightarrow>
          if recipient_identity_dh = NullP then Some (buffer_null, h)
          else do {
            dh \<leftarrow> copy_key h recipient_identity_dh;
            pl \<leftarrow> as_slice h payload_ptr payload_len;
            Some (from_vec (seal_envelope (e_crypto E) eph a dh pl) h) }) }"

definition clarity_open_envelope :: "ffi_env \<Rightarrow> cptr \<Rightarrow> cptr \<Rightarrow> nat \<Rightarrow> cptr \<Rightarrow> cptr \<Rightarrow> 'w ffi_heap
    \<Rightarrow> (clarity_buffer \<times> 'w ffi_heap) option" where
  "clarity_open_envelope E acct blob_ptr blob_len out_sender_ed out_sender_dh h = do {
     a \<leftarrow> deref (h_accounts h) acct;
     (case a of
        None \<Rightarrow> Some (buffer_null, h)
      | Some a \<Rightarrow>
          if out_sender_ed = NullP \<or> out_sender_dh = NullP then Some (buffer_null, h)
          else do {
            blob \<leftarrow> as_slice h blob_ptr blob_len;
            (case open_envelope (e_crypto E) a blob of
               Inl _ \<Rightarrow> Some (buffer_null, h)
             | Inr opened \<Rightarrow> do {
                 h1 \<leftarrow> write_key h out_sender_ed (sender_identity_ed opened);
                 h2 \<leftarrow> write_key h1 out_sender_dh (sender_identity_dh opened);
                 Some (from_vec (payload opened) h2) }) }) }"

end
