(* ===== verification/Ffi_Transport.thy ===== *)
theory Ffi_Transport
  imports Ffi
begin

text \<open>
  The C interface to the relay client (\<^verbatim>\<open>ffi/src/transport_ffi.rs\<close>) and to mesh nodes (\<^verbatim>\<open>ffi/src/mesh_ffi.rs\<close>). A call
  that talks to the relay also takes the world its HTTP agent acts on and returns the world it leaves.
\<close>

section \<open>Relay transport\<close>

definition clarity_relay_transport_direct :: "'w agent \<Rightarrow> cptr \<Rightarrow> 'w ffi_heap \<Rightarrow> (cptr \<times> 'w ffi_heap) option" where
  "clarity_relay_transport_direct ag url h = do {
     u \<leftarrow> cstr h url;
     Some (case u of Some u \<Rightarrow> box_into_raw h_relays_update (direct ag u) h | None \<Rightarrow> (NullP, h)) }"

definition clarity_relay_transport_tor :: "(string \<Rightarrow> string + 'w agent) \<Rightarrow> cptr \<Rightarrow> cptr \<Rightarrow> 'w ffi_heap
    \<Rightarrow> (cptr \<times> 'w ffi_heap) option" where
  "clarity_relay_transport_tor proxied url socks_addr h = do {
     u \<leftarrow> cstr h url;
     s \<leftarrow> cstr h socks_addr;
     Some (case (u, s) of
        (Some u, Some s) \<Rightarrow> (case over_tor proxied u s of
            Inr t \<Rightarrow> box_into_raw h_relays_update t h
          | Inl _ \<Rightarrow> (NullP, h))
      | _ \<Rightarrow> (NullP, h)) }"

definition clarity_relay_transport_free :: "cptr \<Rightarrow> 'w ffi_heap \<Rightarrow> 'w ffi_heap option" where
  "clarity_relay_transport_free t h = box_free h_relays h_relays_update t h"

definition status :: "net_error + 'a \<Rightarrow> int" where
  "status r = (case r of Inr _ \<Rightarrow> 0 | Inl _ \<Rightarrow> - 1)"

definition clarity_relay_publish_account :: "ffi_env \<Rightarrow> cptr \<Rightarrow> cptr \<Rightarrow> 'w ffi_heap \<Rightarrow> 'w \<Rightarrow> (int \<times> 'w) option" where
  "clarity_relay_publish_account E t acct h w = do {
     tr \<leftarrow> deref (h_relays h) t;
     a \<leftarrow> deref (h_accounts h) acct;
     Some (case (tr, a) of
        (Some tr, Some a) \<Rightarrow>
          (case net_publish (e_web E) tr (bundle_base_of (e_crypto E) a) (account_one_time_prekey_publics (e_crypto E) a) w of
             (r, w') \<Rightarrow> (status r, w'))
      | _ \<Rightarrow> (- 1, w)) }"

text \<open>The loop over the parsed JSON array; \<open>id as u32\<close> keeps the low 32 bits.\<close>

primrec parse_one_time :: "web_codecs \<Rightarrow> json_entry list \<Rightarrow> (u32 \<times> bytes) list option" where
  "parse_one_time W [] = Some []"
| "parse_one_time W (e # es) =
     (case je_id e of None \<Rightarrow> None
      | Some i \<Rightarrow> (case je_public e of None \<Rightarrow> None
          | Some s \<Rightarrow> (case unb64 W s of Inl _ \<Rightarrow> None
              | Inr bs \<Rightarrow> if length bs \<noteq> 32 then None
                  else map_option ((#) (ucast i, bs)) (parse_one_time W es))))"

definition clarity_relay_publish :: "ffi_env \<Rightarrow> cptr \<Rightarrow> cptr \<Rightarrow> nat \<Rightarrow> cptr \<Rightarrow> nat \<Rightarrow> 'w ffi_heap \<Rightarrow> 'w
    \<Rightarrow> (int \<times> 'w) option" where
  "clarity_relay_publish E t bundle bundle_len one_time_json one_time_len h w = do {
     tr \<leftarrow> deref (h_relays h) t;
     (case tr of
        None \<Rightarrow> Some (- 1, w)
      | Some tr \<Rightarrow> do {
          bs \<leftarrow> as_slice h bundle bundle_len;
          (case bundle_decode (wc_bundle (e_web E)) bs of
             Inl _ \<Rightarrow> Some (- 1, w)
           | Inr b \<Rightarrow> do {
               js \<leftarrow> as_slice h one_time_json one_time_len;
               Some (case js_parse (e_json E) js of
                  Inl _ \<Rightarrow> (- 1, w)
                | Inr parsed \<Rightarrow> (case parse_one_time (e_web E) parsed of
                    None \<Rightarrow> (- 1, w)
                  | Some otps \<Rightarrow> (case net_publish (e_web E) tr b otps w of (r, w') \<Rightarrow> (status r, w')))) }) }) }"

definition clarity_relay_fetch_bundle :: "ffi_env \<Rightarrow> cptr \<Rightarrow> cptr \<Rightarrow> 'w ffi_heap \<Rightarrow> 'w
    \<Rightarrow> (clarity_buffer \<times> 'w ffi_heap \<times> 'w) option" where
  "clarity_relay_fetch_bundle E t identity h w = do {
     tr \<leftarrow> deref (h_relays h) t;
     (case tr of
        None \<Rightarrow> Some (buffer_null, h, w)
      | Some tr \<Rightarrow> do {
          i \<leftarrow> read_key h identity;
          Some (case i of
             None \<Rightarrow> (buffer_null, h, w)
           | Some i \<Rightarrow> (case net_fetch_bundle (e_web E) tr i w of
               (Inr (Some b), w') \<Rightarrow> (case from_vec (bundle_encode (wc_bundle (e_web E)) b) h of (v, h') \<Rightarrow> (v, h', w'))
             | (Inr None, w') \<Rightarrow> (case from_vec [] h of (v, h') \<Rightarrow> (v, h', w'))
             | (Inl _, w') \<Rightarrow> (buffer_null, h, w'))) }) }"

definition clarity_relay_send :: "ffi_env \<Rightarrow> cptr \<Rightarrow> cptr \<Rightarrow> cptr \<Rightarrow> nat \<Rightarrow> 'w ffi_heap \<Rightarrow> 'w \<Rightarrow> (int \<times> 'w) option" where
  "clarity_relay_send E t rcpt msg msg_len h w = do {
     tr \<leftarrow> deref (h_relays h) t;
     (case tr of
        None \<Rightarrow> Some (- 1, w)
      | Some tr \<Rightarrow> do {
          k \<leftarrow> read_key h rcpt;
          (case k of
             None \<Rightarrow> Some (- 1, w)
           | Some k \<Rightarrow> do {
               m \<leftarrow> as_slice h msg msg_len;
               Some (case net_send (e_web E) tr k m w of (r, w') \<Rightarrow> (status r, w')) }) }) }"

definition clarity_relay_poll :: "ffi_env \<Rightarrow> cptr \<Rightarrow> cptr \<Rightarrow> 'w ffi_heap \<Rightarrow> 'w
    \<Rightarrow> (clarity_buffer \<times> 'w ffi_heap \<times> 'w) option" where
  "clarity_relay_poll E t rcpt h w = do {
     tr \<leftarrow> deref (h_relays h) t;
     (case tr of
        None \<Rightarrow> Some (buffer_null, h, w)
      | Some tr \<Rightarrow> do {
          k \<leftarrow> read_key h rcpt;
          Some (case k of
             None \<Rightarrow> (buffer_null, h, w)
           | Some k \<Rightarrow> (case net_poll (e_web E) tr k w of
               (Inr messages, w') \<Rightarrow> (case from_vec (encode_byte_list messages) h of (v, h') \<Rightarrow> (v, h', w'))
             | (Inl _, w') \<Rightarrow> (buffer_null, h, w'))) }) }"

section \<open>Mesh nodes\<close>

definition clarity_mesh_node_new :: "cptr \<Rightarrow> 'w ffi_heap \<Rightarrow> (cptr \<times> 'w ffi_heap) option" where
  "clarity_mesh_node_new m h = do {
     k \<leftarrow> read_key h m;
     Some (case k of Some k \<Rightarrow> box_into_raw h_nodes_update (new_node k) h | None \<Rightarrow> (NullP, h)) }"

definition clarity_mesh_node_free :: "cptr \<Rightarrow> 'w ffi_heap \<Rightarrow> 'w ffi_heap option" where
  "clarity_mesh_node_free n h = box_free h_nodes h_nodes_update n h"

definition clarity_mesh_originate :: "ffi_env \<Rightarrow> bytes \<Rightarrow> cptr \<Rightarrow> cptr \<Rightarrow> cptr \<Rightarrow> nat \<Rightarrow> 'w ffi_heap
    \<Rightarrow> (clarity_buffer \<times> 'w ffi_heap) option" where
  "clarity_mesh_originate E rng node rcpt pl pl_len h = do {
     n \<leftarrow> deref (h_nodes h) node;
     (case n of
        None \<Rightarrow> Some (buffer_null, h)
      | Some n \<Rightarrow> do {
          k \<leftarrow> read_key h rcpt;
          (case k of
             None \<Rightarrow> Some (buffer_null, h)
           | Some k \<Rightarrow> do {
               bs \<leftarrow> as_slice h pl pl_len;
               Some (case originate rng n k bs of
                  (f, n') \<Rightarrow> from_vec (frame_encode (e_frame E) f) (assign h_nodes_update node n' h)) }) }) }"

definition clarity_mesh_ingest :: "ffi_env \<Rightarrow> cptr \<Rightarrow> cptr \<Rightarrow> nat \<Rightarrow> 'w ffi_heap \<Rightarrow> (int \<times> 'w ffi_heap) option" where
  "clarity_mesh_ingest E node fr fr_len h = do {
     n \<leftarrow> deref (h_nodes h) node;
     (case n of
        None \<Rightarrow> Some (- 1, h)
      | Some n \<Rightarrow> do {
          bs \<leftarrow> as_slice h fr fr_len;
          Some (case frame_decode (e_frame E) bs of
             Inr f \<Rightarrow> (0, assign h_nodes_update node (snd (handle_incoming n f)) h)
           | Inl _ \<Rightarrow> (- 1, h)) }) }"

definition clarity_mesh_pending_broadcast :: "ffi_env \<Rightarrow> cptr \<Rightarrow> 'w ffi_heap \<Rightarrow> (clarity_buffer \<times> 'w ffi_heap) option" where
  "clarity_mesh_pending_broadcast E node h = do {
     n \<leftarrow> deref (h_nodes h) node;
     Some (case n of
        None \<Rightarrow> (buffer_null, h)
      | Some n \<Rightarrow> from_vec (encode_byte_list (map (frame_encode (e_frame E)) (outbound n))) h) }"

definition clarity_mesh_take_inbox :: "cptr \<Rightarrow> 'w ffi_heap \<Rightarrow> (clarity_buffer \<times> 'w ffi_heap) option" where
  "clarity_mesh_take_inbox node h = do {
     n \<leftarrow> deref (h_nodes h) node;
     Some (case n of
        None \<Rightarrow> (buffer_null, h)
      | Some n \<Rightarrow> (case take_inbox n of (ps, n') \<Rightarrow> from_vec (encode_byte_list ps) (assign h_nodes_update node n' h))) }"

end
