(* ===== verification/Ffi_Host.thy ===== *)
theory Ffi_Host
  imports Ffi_Transport
begin

text \<open>
  A host program behind the C interface: the calls it can make, the rules the header and the safety comments of the
  sources put on their arguments, and what each call allocates and frees. A run is a list of calls. The properties are
  the ones the ownership comments of \<^verbatim>\<open>ffi/src/lib.rs\<close> and \<^verbatim>\<open>clarity.h\<close> promise.
\<close>

datatype call =
    Buffer_Free clarity_buffer | String_Free cptr
  | Account_Generate account_rng | Account_Free cptr | Account_Serialize cptr | Account_Deserialize cptr nat
  | Identity_Public cptr cptr | Bundle_Base cptr | One_Time_Publics cptr | One_Time_Remaining cptr
  | Replenish "nat \<Rightarrow> bytes" cptr u32
  | Session_Initiate bytes bytes bytes cptr cptr nat | Session_Respond bytes cptr cptr nat cptr
  | Session_Encrypt cptr cptr nat | Session_Decrypt bytes cptr cptr nat | Session_Free cptr
  | Session_Serialize cptr | Session_Deserialize cptr nat
  | Safety_Number cptr cptr | Epoch_For_Unix u64 | Inbox_Id cptr u64 cptr
  | Bundle_Identity_Keys cptr nat cptr cptr | Seal_Envelope bytes cptr cptr cptr nat
  | Open_Envelope cptr cptr nat cptr cptr
  | Relay_Direct cptr | Relay_Tor cptr cptr | Relay_Free cptr | Relay_Publish_Account cptr cptr
  | Relay_Publish cptr cptr nat cptr nat | Relay_Fetch cptr cptr | Relay_Send cptr cptr cptr nat | Relay_Poll cptr cptr
  | Mesh_New cptr | Mesh_Free cptr | Mesh_Originate bytes cptr cptr cptr nat | Mesh_Ingest cptr cptr nat
  | Mesh_Pending cptr | Mesh_Take_Inbox cptr

datatype ret =
    Ret_Unit | Ret_Num int | Ret_Acct cptr | Ret_Sess cptr | Ret_Sess_Out cptr clarity_buffer | Ret_Rly cptr
  | Ret_Nod cptr | Ret_Str cptr | Ret_Buf clarity_buffer

record 'w net_env =
  x_agent :: "'w agent"
  x_proxied :: "string \<Rightarrow> string + 'w agent"

text \<open>How a result enters the host: with the heap, and with the world when the call did not touch it.\<close>

definition ret_with :: "('a \<Rightarrow> ret) \<Rightarrow> 'w \<Rightarrow> ('a \<times> 'w ffi_heap) option \<Rightarrow> (ret \<times> 'w ffi_heap \<times> 'w) option" where
  "ret_with f w r = map_option (\<lambda>(x, h). (f x, h, w)) r"

definition ret_unit :: "'w \<Rightarrow> 'w ffi_heap option \<Rightarrow> (ret \<times> 'w ffi_heap \<times> 'w) option" where
  "ret_unit w r = map_option (\<lambda>h. (Ret_Unit, h, w)) r"

definition ret_net :: "'w ffi_heap \<Rightarrow> (int \<times> 'w) option \<Rightarrow> (ret \<times> 'w ffi_heap \<times> 'w) option" where
  "ret_net h r = map_option (\<lambda>(i, w). (Ret_Num i, h, w)) r"

definition ret_buf :: "(clarity_buffer \<times> 'w ffi_heap \<times> 'w) option \<Rightarrow> (ret \<times> 'w ffi_heap \<times> 'w) option" where
  "ret_buf r = map_option (\<lambda>(b, h, w). (Ret_Buf b, h, w)) r"

definition cell_of :: "'w ffi_heap \<Rightarrow> cptr \<Rightarrow> clarity_buffer" where
  "cell_of h p = (case p of At a \<Rightarrow> (case fmlookup (h_cells h) a of Some b \<Rightarrow> b | None \<Rightarrow> buffer_null) | _ \<Rightarrow> buffer_null)"

primrec exec :: "ffi_env \<Rightarrow> 'w net_env \<Rightarrow> call \<Rightarrow> 'w ffi_heap \<Rightarrow> 'w \<Rightarrow> (ret \<times> 'w ffi_heap \<times> 'w) option" where
  "exec E X (Buffer_Free b) h w = ret_unit w (clarity_buffer_free b h)"
| "exec E X (String_Free p) h w = ret_unit w (clarity_string_free p h)"
| "exec E X (Account_Generate rng) h w = ret_with Ret_Acct w (Some (clarity_account_generate E rng h))"
| "exec E X (Account_Free p) h w = ret_unit w (clarity_account_free p h)"
| "exec E X (Account_Serialize p) h w = ret_with Ret_Buf w (clarity_account_serialize E p h)"
| "exec E X (Account_Deserialize p n) h w = ret_with Ret_Acct w (clarity_account_deserialize E p n h)"
| "exec E X (Identity_Public p out) h w = ret_unit w (clarity_account_identity_public E p out h)"
| "exec E X (Bundle_Base p) h w = ret_with Ret_Buf w (clarity_account_bundle_base E p h)"
| "exec E X (One_Time_Publics p) h w = ret_with Ret_Buf w (clarity_account_one_time_publics E p h)"
| "exec E X (One_Time_Remaining p) h w =
     map_option (\<lambda>n. (Ret_Num (uint n), h, w)) (clarity_account_one_time_remaining p h)"
| "exec E X (Replenish draw p k) h w = ret_with Ret_Num w (clarity_account_replenish_prekeys draw p k h)"
| "exec E X (Session_Initiate eph rng new p q n) h w = ret_with Ret_Sess w (clarity_session_initiate E eph rng new p q n h)"
| "exec E X (Session_Respond new p q n out) h w =
     map_option (\<lambda>(s, h'). (Ret_Sess_Out s (cell_of h' out), h', w)) (clarity_session_respond E new p q n out h)"
| "exec E X (Session_Encrypt p q n) h w = ret_with Ret_Buf w (clarity_session_encrypt E p q n h)"
| "exec E X (Session_Decrypt new p q n) h w = ret_with Ret_Buf w (clarity_session_decrypt E new p q n h)"
| "exec E X (Session_Free p) h w = ret_unit w (clarity_session_free p h)"
| "exec E X (Session_Serialize p) h w = ret_with Ret_Buf w (clarity_session_serialize E p h)"
| "exec E X (Session_Deserialize p n) h w = ret_with Ret_Sess w (clarity_session_deserialize E p n h)"
| "exec E X (Safety_Number p q) h w = ret_with Ret_Str w (clarity_safety_number E p q h)"
| "exec E X (Epoch_For_Unix t) h w = Some (Ret_Num (uint (clarity_epoch_for_unix t)), h, w)"
| "exec E X (Inbox_Id p ep out) h w = ret_unit w (clarity_inbox_id E p ep out h)"
| "exec E X (Bundle_Identity_Keys p n o1 o2) h w = ret_with Ret_Num w (clarity_bundle_identity_keys E p n o1 o2 h)"
| "exec E X (Seal_Envelope eph p r q n) h w = ret_with Ret_Buf w (clarity_seal_envelope E eph p r q n h)"
| "exec E X (Open_Envelope p q n o1 o2) h w = ret_with Ret_Buf w (clarity_open_envelope E p q n o1 o2 h)"
| "exec E X (Relay_Direct u) h w = ret_with Ret_Rly w (clarity_relay_transport_direct (x_agent X) u h)"
| "exec E X (Relay_Tor u s) h w = ret_with Ret_Rly w (clarity_relay_transport_tor (x_proxied X) u s h)"
| "exec E X (Relay_Free t) h w = ret_unit w (clarity_relay_transport_free t h)"
| "exec E X (Relay_Publish_Account t p) h w = ret_net h (clarity_relay_publish_account E t p h w)"
| "exec E X (Relay_Publish t p n q k) h w = ret_net h (clarity_relay_publish E t p n q k h w)"
| "exec E X (Relay_Fetch t p) h w = ret_buf (clarity_relay_fetch_bundle E t p h w)"
| "exec E X (Relay_Send t r p n) h w = ret_net h (clarity_relay_send E t r p n h w)"
| "exec E X (Relay_Poll t r) h w = ret_buf (clarity_relay_poll E t r h w)"
| "exec E X (Mesh_New p) h w = ret_with Ret_Nod w (clarity_mesh_node_new p h)"
| "exec E X (Mesh_Free p) h w = ret_unit w (clarity_mesh_node_free p h)"
| "exec E X (Mesh_Originate rng p r q n) h w = ret_with Ret_Buf w (clarity_mesh_originate E rng p r q n h)"
| "exec E X (Mesh_Ingest p q n) h w = ret_with Ret_Num w (clarity_mesh_ingest E p q n h)"
| "exec E X (Mesh_Pending p) h w = ret_with Ret_Buf w (clarity_mesh_pending_broadcast E p h)"
| "exec E X (Mesh_Take_Inbox p) h w = ret_with Ret_Buf w (clarity_mesh_take_inbox p h)"

section \<open>The rules for the host\<close>

definition handle_ok :: "(nat, 'a) fmap \<Rightarrow> cptr \<Rightarrow> bool" where
  "handle_ok m p \<longleftrightarrow> (case p of NullP \<Rightarrow> True | Dangling \<Rightarrow> False | At a \<Rightarrow> a |\<in>| fmdom m)"

definition block_sat :: "'w ffi_heap \<Rightarrow> nat \<Rightarrow> (block \<Rightarrow> bool) \<Rightarrow> bool" where
  "block_sat h a P \<longleftrightarrow> (case fmlookup (h_blocks h) a of None \<Rightarrow> False | Some b \<Rightarrow> P b)"

definition region_ok :: "'w ffi_heap \<Rightarrow> cptr \<Rightarrow> nat \<Rightarrow> bool" where
  "region_ok h p n \<longleftrightarrow> (case p of NullP \<Rightarrow> True | Dangling \<Rightarrow> n = 0 | At a \<Rightarrow> block_sat h a (\<lambda>b. n \<le> length (blk_data b)))"

definition key_ok :: "'w ffi_heap \<Rightarrow> cptr \<Rightarrow> bool" where
  "key_ok h p \<longleftrightarrow> (case p of NullP \<Rightarrow> True | Dangling \<Rightarrow> False | At a \<Rightarrow> block_sat h a (\<lambda>b. 32 \<le> length (blk_data b)))"

definition cell_ok :: "'w ffi_heap \<Rightarrow> cptr \<Rightarrow> bool" where
  "cell_ok h p \<longleftrightarrow> handle_ok (h_cells h) p"

definition text_ok :: "'w ffi_heap \<Rightarrow> cptr \<Rightarrow> bool" where
  "text_ok h p \<longleftrightarrow> (case p of NullP \<Rightarrow> True | Dangling \<Rightarrow> False | At a \<Rightarrow> block_sat h a (\<lambda>b. 0 \<in> set (blk_data b)))"

definition buffer_ok :: "'w ffi_heap \<Rightarrow> clarity_buffer \<Rightarrow> bool" where
  "buffer_ok h buf \<longleftrightarrow> (case cb_ptr buf of NullP \<Rightarrow> True | Dangling \<Rightarrow> cb_len buf = 0
     | At a \<Rightarrow> block_sat h a (\<lambda>b. blk_owner b = Lib_Buffer \<and> cb_len buf = length (blk_data b)))"

definition string_ok :: "'w ffi_heap \<Rightarrow> cptr \<Rightarrow> bool" where
  "string_ok h p \<longleftrightarrow> (case p of NullP \<Rightarrow> True | Dangling \<Rightarrow> False | At a \<Rightarrow> block_sat h a (\<lambda>b. blk_owner b = Lib_String))"

primrec call_ok :: "'w ffi_heap \<Rightarrow> call \<Rightarrow> bool" where
  "call_ok h (Buffer_Free b) \<longleftrightarrow> buffer_ok h b"
| "call_ok h (String_Free p) \<longleftrightarrow> string_ok h p"
| "call_ok h (Account_Generate rng) \<longleftrightarrow> True"
| "call_ok h (Account_Free p) \<longleftrightarrow> handle_ok (h_accounts h) p"
| "call_ok h (Account_Serialize p) \<longleftrightarrow> handle_ok (h_accounts h) p"
| "call_ok h (Account_Deserialize p n) \<longleftrightarrow> region_ok h p n"
| "call_ok h (Identity_Public p out) \<longleftrightarrow> handle_ok (h_accounts h) p \<and> key_ok h out"
| "call_ok h (Bundle_Base p) \<longleftrightarrow> handle_ok (h_accounts h) p"
| "call_ok h (One_Time_Publics p) \<longleftrightarrow> handle_ok (h_accounts h) p"
| "call_ok h (One_Time_Remaining p) \<longleftrightarrow> handle_ok (h_accounts h) p"
| "call_ok h (Replenish draw p k) \<longleftrightarrow> handle_ok (h_accounts h) p"
| "call_ok h (Session_Initiate eph rng new p q n) \<longleftrightarrow> handle_ok (h_accounts h) p \<and> region_ok h q n"
| "call_ok h (Session_Respond new p q n out) \<longleftrightarrow> handle_ok (h_accounts h) p \<and> region_ok h q n \<and> cell_ok h out"
| "call_ok h (Session_Encrypt p q n) \<longleftrightarrow> handle_ok (h_sessions h) p \<and> region_ok h q n"
| "call_ok h (Session_Decrypt new p q n) \<longleftrightarrow> handle_ok (h_sessions h) p \<and> region_ok h q n"
| "call_ok h (Session_Free p) \<longleftrightarrow> handle_ok (h_sessions h) p"
| "call_ok h (Session_Serialize p) \<longleftrightarrow> handle_ok (h_sessions h) p"
| "call_ok h (Session_Deserialize p n) \<longleftrightarrow> region_ok h p n"
| "call_ok h (Safety_Number p q) \<longleftrightarrow> key_ok h p \<and> key_ok h q"
| "call_ok h (Epoch_For_Unix t) \<longleftrightarrow> True"
| "call_ok h (Inbox_Id p ep out) \<longleftrightarrow> key_ok h p \<and> key_ok h out"
| "call_ok h (Bundle_Identity_Keys p n o1 o2) \<longleftrightarrow> region_ok h p n \<and> key_ok h o1 \<and> key_ok h o2"
| "call_ok h (Seal_Envelope eph p r q n) \<longleftrightarrow> handle_ok (h_accounts h) p \<and> key_ok h r \<and> region_ok h q n"
| "call_ok h (Open_Envelope p q n o1 o2) \<longleftrightarrow>
     handle_ok (h_accounts h) p \<and> region_ok h q n \<and> key_ok h o1 \<and> key_ok h o2"
| "call_ok h (Relay_Direct u) \<longleftrightarrow> text_ok h u"
| "call_ok h (Relay_Tor u s) \<longleftrightarrow> text_ok h u \<and> text_ok h s"
| "call_ok h (Relay_Free t) \<longleftrightarrow> handle_ok (h_relays h) t"
| "call_ok h (Relay_Publish_Account t p) \<longleftrightarrow> handle_ok (h_relays h) t \<and> handle_ok (h_accounts h) p"
| "call_ok h (Relay_Publish t p n q k) \<longleftrightarrow> handle_ok (h_relays h) t \<and> region_ok h p n \<and> region_ok h q k"
| "call_ok h (Relay_Fetch t p) \<longleftrightarrow> handle_ok (h_relays h) t \<and> key_ok h p"
| "call_ok h (Relay_Send t r p n) \<longleftrightarrow> handle_ok (h_relays h) t \<and> key_ok h r \<and> region_ok h p n"
| "call_ok h (Relay_Poll t r) \<longleftrightarrow> handle_ok (h_relays h) t \<and> key_ok h r"
| "call_ok h (Mesh_New p) \<longleftrightarrow> key_ok h p"
| "call_ok h (Mesh_Free p) \<longleftrightarrow> handle_ok (h_nodes h) p"
| "call_ok h (Mesh_Originate rng p r q n) \<longleftrightarrow> handle_ok (h_nodes h) p \<and> key_ok h r \<and> region_ok h q n"
| "call_ok h (Mesh_Ingest p q n) \<longleftrightarrow> handle_ok (h_nodes h) p \<and> region_ok h q n"
| "call_ok h (Mesh_Pending p) \<longleftrightarrow> handle_ok (h_nodes h) p"
| "call_ok h (Mesh_Take_Inbox p) \<longleftrightarrow> handle_ok (h_nodes h) p"

text \<open>What a call gives back to the library, and what a result hands to the host.\<close>

definition released :: "call \<Rightarrow> obj set" where
  "released c = (case c of
     Buffer_Free b \<Rightarrow> buffer_owned b
   | String_Free p \<Rightarrow> owned Blk p
   | Account_Free p \<Rightarrow> owned Acct p
   | Session_Free p \<Rightarrow> owned Sess p
   | Relay_Free p \<Rightarrow> owned Rly p
   | Mesh_Free p \<Rightarrow> owned Nod p
   | _ \<Rightarrow> {})"

fun acquired :: "ret \<Rightarrow> obj set" where
  "acquired (Ret_Acct p) = owned Acct p"
| "acquired (Ret_Sess p) = owned Sess p"
| "acquired (Ret_Sess_Out p b) = owned Sess p \<union> owned Blk (cb_ptr b)"
| "acquired (Ret_Rly p) = owned Rly p"
| "acquired (Ret_Nod p) = owned Nod p"
| "acquired (Ret_Str p) = owned Blk p"
| "acquired (Ret_Buf b) = owned Blk (cb_ptr b)"
| "acquired _ = {}"

text \<open>The keys the libraries hand to the interface are 32-byte arrays.\<close>

definition env_ok :: "ffi_env \<Rightarrow> bool" where
  "env_ok E \<longleftrightarrow> sig_ok (e_crypto E) \<and> hash_len (e_crypto E) \<and>
     (\<forall>bs b. bundle_decode (wc_bundle (e_web E)) bs = Inr b \<longrightarrow> length (pb_identity_ed b) = 32 \<and> length (pb_identity_dh b) = 32)"

section \<open>What each call allocates\<close>

lemma owned_null [simp]: "owned tag NullP = {}" "owned tag Dangling = {}" "cb_ptr buffer_null = NullP"
  by (simp_all add: owned_def buffer_null_def)

lemma effect_then: "effect h {} {} h1 \<Longrightarrow> effect h1 {} A h2 \<Longrightarrow> effect h {} A h2"
  using effect_trans [of h "{}" h1 A h2] by simp

lemma session_from_vec [effects]:
  "heap_ok h \<Longrightarrow> deref (h_sessions h) p = Some (Some u) \<Longrightarrow> from_vec v (assign h_sessions_update p s h) = (b, h') \<Longrightarrow>
   effect h {} (owned Blk (cb_ptr b)) h'"
  using effect_then effect_ok sesss.assign_effect from_vec_effect by meson

lemma node_from_vec [effects]:
  "heap_ok h \<Longrightarrow> deref (h_nodes h) p = Some (Some u) \<Longrightarrow> from_vec v (assign h_nodes_update p s h) = (b, h') \<Longrightarrow>
   effect h {} (owned Blk (cb_ptr b)) h'"
  using effect_then effect_ok nodes.assign_effect from_vec_effect by meson

lemma write_two_keys [effects]:
  "heap_ok h \<Longrightarrow> write_key h p k = Some h1 \<Longrightarrow> write_key h1 q l = Some h2 \<Longrightarrow> effect h {} {} h2"
  using effect_then effect_ok write_key_effect by meson

lemma keys_from_vec [effects]:
  "heap_ok h \<Longrightarrow> write_key h p k = Some h1 \<Longrightarrow> write_key h1 q l = Some h2 \<Longrightarrow> from_vec v h2 = (b, h') \<Longrightarrow>
   effect h {} (owned Blk (cb_ptr b)) h'"
  using effect_then effect_ok write_two_keys from_vec_effect by meson

lemmas account_calls = clarity_account_generate_def clarity_account_free_def clarity_account_serialize_def
  clarity_account_deserialize_def clarity_account_identity_public_def clarity_account_bundle_base_def
  clarity_account_one_time_publics_def clarity_account_one_time_remaining_def clarity_account_replenish_prekeys_def

lemmas session_calls = clarity_session_initiate_def clarity_session_encrypt_def clarity_session_decrypt_def
  clarity_session_free_def clarity_session_serialize_def clarity_session_deserialize_def

lemmas other_calls = clarity_safety_number_def clarity_epoch_for_unix_def clarity_inbox_id_def
  clarity_bundle_identity_keys_def clarity_seal_envelope_def clarity_open_envelope_def

lemmas relay_calls = clarity_relay_transport_direct_def clarity_relay_transport_tor_def clarity_relay_transport_free_def
  clarity_relay_publish_account_def clarity_relay_publish_def clarity_relay_fetch_bundle_def clarity_relay_send_def
  clarity_relay_poll_def

lemmas mesh_calls = clarity_mesh_node_new_def clarity_mesh_node_free_def clarity_mesh_originate_def
  clarity_mesh_ingest_def clarity_mesh_pending_broadcast_def clarity_mesh_take_inbox_def

lemmas calls = account_calls session_calls other_calls relay_calls mesh_calls

lemmas rets = ret_with_def ret_unit_def ret_net_def ret_buf_def

lemmas call_splits = option.splits prod.splits sum.splits if_splits bind_splits

text \<open>\<open>clarity_session_respond\<close> is the one call with two results: the handle, and the buffer in the host's cell.\<close>

lemma assign_cells [simp]: "h_cells (assign h_accounts_update p v h) = h_cells h"
  by (simp add: assign_def split: cptr.split)

lemma box_cells: "box_into_raw h_sessions_update s h = (q, h') \<Longrightarrow> h_cells h' = h_cells h"
  by (auto simp: box_into_raw_def)

lemma write_cell_of: "write_cell h out b = Some h' \<Longrightarrow> out \<noteq> NullP \<Longrightarrow> cell_of h' out = b"
  by (auto simp: write_cell_def cell_of_def split: cptr.splits if_splits)

lemma write_cell_keeps:
  "write_cell h out b = Some h' \<Longrightarrow> h_accounts h' = h_accounts h \<and> h_blocks h' = h_blocks h \<and> (out = NullP \<longrightarrow> h' = h)"
  by (auto simp: write_cell_def split: cptr.splits if_splits)

lemma cell_of_cong: "h_cells h = h_cells h' \<Longrightarrow> cell_of h p = cell_of h' p"
  by (cases p) (simp_all add: cell_of_def)

lemma cell_of_null [simp]: "cell_of h NullP = buffer_null"
  by (simp add: cell_of_def)

text \<open>The last steps of a successful respond.\<close>

lemma respond_success:
  assumes h1: "heap_ok h1"
    and h2: "(if out = NullP then Some h1 else let (b, hb) = from_vec pt h1 in write_cell hb out b) = Some h2"
    and box: "box_into_raw h_sessions_update s h2 = (q, h')"
  shows "effect h1 {} (owned Sess q \<union> owned Blk (cb_ptr (cell_of h' out))) h'"
proof -
  have "effect h1 {} (owned Blk (cb_ptr (cell_of h2 out))) h2"
  proof (cases "out = NullP")
    case True
    then show ?thesis using h1 h2 by (simp add: effect_refl)
  next
    case False
    obtain b hb where f: "from_vec pt h1 = (b, hb)" by fastforce
    then have w: "write_cell hb out b = Some h2" using h2 False by simp
    have e: "effect h1 {} (owned Blk (cb_ptr b)) hb" using h1 f by (rule from_vec_effect)
    have "effect hb {} {} h2" using effect_ok [OF e] w by (rule write_cell_effect)
    then show ?thesis using effect_trans [OF e, of "{}" h2] write_cell_of [OF w False] by simp
  qed
  moreover have "effect h2 {} (owned Sess q) h'" using effect_ok [OF calculation] box by (rule sesss.box_effect)
  moreover have "cell_of h' out = cell_of h2 out" using box_cells [OF box] by (rule cell_of_cong)
  ultimately show ?thesis by (metis effect_trans sup_commute)
qed

lemma respond_effect:
  assumes h: "heap_ok h" and r: "clarity_session_respond E new p q n out h = Some (s, h')"
  shows "effect h {} (owned Sess s \<union> owned Blk (cb_ptr (cell_of h' out))) h'"
proof -
  obtain h0 where h0: "write_cell h out buffer_null = Some h0"
    using r by (auto simp: clarity_session_respond_def split: bind_splits)
  have e0: "effect h {} {} h0" using h h0 by (rule write_cell_effect)
  have null: "cell_of h0 out = buffer_null" using write_cell_of [OF h0] by (cases "out = NullP") simp_all
  have ok: "effect h0 {} {} (assign h_accounts_update p a' h0)" "cell_of (assign h_accounts_update p a' h0) out = buffer_null"
    if "deref (h_accounts h0) p = Some (Some a)" for a a'
    using accts.assign_effect [OF effect_ok [OF e0] that] cell_of_cong [of "assign h_accounts_update p a' h0" h0 out] null by simp_all
  have "effect h0 {} (owned Sess s \<union> owned Blk (cb_ptr (cell_of h' out))) h'"
  proof -
    consider (fail) "s = NullP" "effect h0 {} {} h'" "cell_of h' out = buffer_null"
      | (success) a a' h2 sess pt where "deref (h_accounts h0) p = Some (Some a)"
        "(let h1 = assign h_accounts_update p a' h0 in if out = NullP then Some h1
            else let (b, hb) = from_vec pt h1 in write_cell hb out b) = Some h2"
        "box_into_raw h_sessions_update sess h2 = (s, h')"
      using r ok null effect_refl [OF effect_ok [OF e0]]
      by (auto simp: clarity_session_respond_def h0 split: call_splits)
    then show ?thesis
    proof cases
      case fail
      then show ?thesis by simp
    next
      case success
      note e1 = ok(1) [OF success(1), of a']
      show ?thesis
        by (rule effect_then [OF e1], rule respond_success [OF effect_ok [OF e1] _ success(3)])
          (use success(2) in \<open>simp add: Let_def\<close>)
    qed
  qed
  with e0 show ?thesis by (rule effect_then)
qed

section \<open>Every call\<close>

lemma exec_effect:
  assumes "heap_ok h" "exec E X c h w = Some (r, h', w')"
  shows "effect h (released c) (acquired r) h'"
  using assms
  by (cases c) (auto simp: calls rets released_def effect_refl intro: effects respond_effect split: call_splits)

section \<open>No call that keeps the rules is undefined\<close>

lemma handle_ok_iff: "handle_ok m p \<longleftrightarrow> deref m p \<noteq> None"
  by (auto simp: handle_ok_def deref_def fmlookup_dom_iff split: cptr.split)

lemma rules_iff:
  "region_ok h p n \<longleftrightarrow> as_slice h p n \<noteq> None" "key_ok h p \<longleftrightarrow> read_key h p \<noteq> None" "text_ok h p \<longleftrightarrow> cstr h p \<noteq> None"
  by (auto simp: block_sat_def region_ok_def key_ok_def text_ok_def as_slice_def read_key_def cstr_def read_block_def Let_def
      split: cptr.split option.splits)

lemma frees_defined:
  "heap_ok h \<Longrightarrow> buffer_ok h b \<Longrightarrow> clarity_buffer_free b h \<noteq> None" "string_ok h p \<Longrightarrow> clarity_string_free p h \<noteq> None"
  by (auto simp: block_sat_def buffer_ok_def string_ok_def clarity_buffer_free_def clarity_string_free_def
      split: cptr.splits option.splits)

lemma write_key_defined: "key_ok h p \<Longrightarrow> p \<noteq> NullP \<Longrightarrow> length k = 32 \<Longrightarrow> \<exists>h'. write_key h p k = Some h'"
  by (auto simp: block_sat_def key_ok_def write_key_def split: cptr.splits option.splits if_splits)

lemma write_key_key_out: "write_key h p k = Some h' \<Longrightarrow> key_ok h q \<Longrightarrow> key_ok h' q"
  by (cases q) (auto simp: block_sat_def key_ok_def write_key_def split: cptr.splits option.splits if_splits)

lemma write_two_defined:
  assumes "key_ok h p" "key_ok h q" "p \<noteq> NullP" "q \<noteq> NullP" "length k = 32" "length l = 32"
  shows "\<exists>h1 h2. write_key h p k = Some h1 \<and> write_key h1 q l = Some h2"
proof -
  obtain h1 where w: "write_key h p k = Some h1" using write_key_defined assms by blast
  moreover obtain h2 where "write_key h1 q l = Some h2"
    using write_key_defined [OF write_key_key_out [OF w assms(2)]] assms by blast
  ultimately show ?thesis by blast
qed

lemma copy_key_defined: "key_ok h p \<Longrightarrow> p \<noteq> NullP \<Longrightarrow> \<exists>k. copy_key h p = Some k \<and> length k = 32"
  by (auto simp: key_ok_def block_sat_def copy_key_def read_key_def read_block_def split: cptr.splits option.splits if_splits)

lemma write_cell_defined: "cell_ok h p \<Longrightarrow> \<exists>h'. write_cell h p b = Some h'"
  by (auto simp: cell_ok_def handle_ok_def write_cell_def fmlookup_dom_iff split: cptr.splits)

lemma box_free_None [simp]: "box_free tbl upd p h = None \<longleftrightarrow> deref (tbl h) p = None"
  by (simp add: box_free_def deref_def split: cptr.split)

lemma opened_keys: "open_envelope C a blob = Inr e \<Longrightarrow> length (sender_identity_ed e) = 32 \<and> length (sender_identity_dh e) = 32"
  by (auto simp: open_envelope_def parse_inner_def INNER_PREFIX_LEN_def LEN_PREFIX_def Let_def split: if_splits sum.splits)

lemma respond_defined:
  assumes "handle_ok (h_accounts h) p" "region_ok h q n" "cell_ok h out"
  shows "clarity_session_respond E new p q n out h \<noteq> None"
proof -
  obtain h0 where h0: "write_cell h out buffer_null = Some h0" using write_cell_defined [OF assms(3)] by blast
  have eq: "h_accounts h0 = h_accounts h" "h_blocks h0 = h_blocks h" using write_cell_keeps [OF h0] by simp_all
  have cell: "cell_ok h' out" if "h_cells h' = h_cells h0" for h' :: "'a ffi_heap"
    using assms(3) h0 that by (auto simp: cell_ok_def handle_ok_def write_cell_def split: cptr.splits if_splits)
  have store: "write_cell (snd (from_vec v (assign h_accounts_update p a h0))) out b = None \<longleftrightarrow> False" for v a b
    using write_cell_defined [OF cell, of "snd (from_vec v (assign h_accounts_update p a h0))" b] by auto
  have "as_slice h0 q n = as_slice h q n" by (cases q) (simp_all add: as_slice_def read_block_def eq(2))
  then show ?thesis
    using assms(1,2)
    by (auto simp: store clarity_session_respond_def h0 eq(1) handle_ok_iff rules_iff Let_def case_prod_beta split: call_splits)
qed

lemma exec_defined:
  assumes "env_ok E" "call_ok h c" "heap_ok h"
  shows "exec E X c h w \<noteq> None"
proof (cases c)
  case (Identity_Public p out)
  then show ?thesis
    using assms write_key_defined [of h out] by (auto simp: env_ok_def sig_ok_def identity_public_def handle_ok_iff rets account_calls split: call_splits)
next
  case (Session_Respond new p q n out)
  then show ?thesis using assms respond_defined [of h p q n out E new] by auto
next
  case (Safety_Number p q)
  then show ?thesis using assms(2) copy_key_defined [of h p] copy_key_defined [of h q] by (auto simp: rets other_calls)
next
  case (Inbox_Id p ep out)
  then show ?thesis
    using assms copy_key_defined [of h p] write_key_defined [of h out]
    by (auto simp: rets other_calls env_ok_def hash_len_def inbox_id_def)
next
  case (Bundle_Identity_Keys p n o1 o2)
  then show ?thesis
    using assms write_two_defined [of h o1 o2]
    by (auto simp: rets other_calls env_ok_def rules_iff split: call_splits) fastforce+
next
  case (Seal_Envelope eph p r q n)
  then show ?thesis
    using assms(2) copy_key_defined [of h r] by (auto simp: rets other_calls handle_ok_iff rules_iff split: call_splits)
next
  case (Open_Envelope p q n o1 o2)
  then show ?thesis
    using assms(2) write_two_defined [of h o1 o2] opened_keys
    by (auto simp: rets other_calls handle_ok_iff rules_iff split: call_splits) fastforce+
qed (use assms(2,3) frees_defined in \<open>auto simp: rets calls
    handle_ok_iff rules_iff split: call_splits\<close>)

section \<open>Runs\<close>

primrec run :: "ffi_env \<Rightarrow> 'w net_env \<Rightarrow> call list \<Rightarrow> 'w ffi_heap \<Rightarrow> 'w \<Rightarrow> (ret list \<times> 'w ffi_heap \<times> 'w) option" where
  "run E X [] h w = Some ([], h, w)"
| "run E X (c # cs) h w = (case exec E X c h w of None \<Rightarrow> None
     | Some (r, h', w') \<Rightarrow> map_option (apfst ((#) r)) (run E X cs h' w'))"

text \<open>Each call keeps the rules in the heap it meets.\<close>

primrec rules_kept :: "ffi_env \<Rightarrow> 'w net_env \<Rightarrow> call list \<Rightarrow> 'w ffi_heap \<Rightarrow> 'w \<Rightarrow> bool" where
  "rules_kept E X [] h w \<longleftrightarrow> True"
| "rules_kept E X (c # cs) h w \<longleftrightarrow> call_ok h c \<and>
     (case exec E X c h w of None \<Rightarrow> True | Some (r, h', w') \<Rightarrow> rules_kept E X cs h' w')"

text \<open>What the host still has to free: it starts with \<open>L\<close>, and every call gives something back and hands something out.\<close>

primrec outstanding :: "obj set \<Rightarrow> (call \<times> ret) list \<Rightarrow> obj set" where
  "outstanding L [] = L"
| "outstanding L (x # xs) = outstanding ((L - released (fst x)) \<union> acquired (snd x)) xs"

lemma run_safe:
  assumes "env_ok E" "heap_ok h" "rules_kept E X cs h w"
  shows "\<exists>rs h' w'. run E X cs h w = Some (rs, h', w') \<and> length rs = length cs \<and> heap_ok h' \<and>
    live h' = outstanding (live h) (zip cs rs)"
  using assms(2,3)
proof (induction cs arbitrary: h w)
  case Nil
  then show ?case by simp
next
  case (Cons c cs)
  have "exec E X c h w \<noteq> None" using exec_defined [OF assms(1), of h c X w] Cons.prems by simp
  then obtain r h1 w1 where e: "exec E X c h w = Some (r, h1, w1)" by (metis not_None_eq prod_cases3)
  have eff: "effect h (released c) (acquired r) h1" using Cons.prems(1) e by (rule exec_effect)
  have "rules_kept E X cs h1 w1" using Cons.prems(2) e by simp
  then obtain rs h' w' where "run E X cs h1 w1 = Some (rs, h', w')" "length rs = length cs" "heap_ok h'"
    "live h' = outstanding (live h1) (zip cs rs)"
    using Cons.IH [OF effect_ok [OF eff]] by blast
  then show ?case using e eff by (auto simp: effect_def intro!: exI [of _ "r # rs"])
qed

section \<open>Properties\<close>

text \<open>
  C11: the ownership contract of the C interface. A host whose every call keeps the documented rules (handles live or
  null, regions readable, out pointers writable, only unfreed objects freed) never meets undefined behaviour, whatever
  the bytes it passes and whether calls succeed or fail. What the library holds at the end is exactly what it handed out
  and did not get back: no call leaks on any path, and no object is handed out twice.
\<close>

theorem ffi_ownership:
  assumes "env_ok E" "heap_ok h" "rules_kept E X cs h w"
  shows "\<exists>rs h' w'. run E X cs h w = Some (rs, h', w') \<and> length rs = length cs \<and>
    live h' = outstanding (live h) (zip cs rs)"
  using run_safe [OF assms] by blast

text \<open>A concrete host: it creates a mesh node from an identity in its own memory, drains its empty inbox, makes one call on a
  null handle, and frees what it was given.\<close>

definition checked_bundle :: "prekey_bundle serde" where
  "checked_bundle = \<lparr>ser = ser (serde_of prekey_bundle_fmt),
     de = (\<lambda>bs. case de (serde_of prekey_bundle_fmt) bs of Inl e \<Rightarrow> Inl e
       | Inr b \<Rightarrow> if length (pb_identity_ed b) = 32 \<and> length (pb_identity_dh b) = 32 then Inr b else Inl ''invalid length'')\<rparr>"

definition demo_env :: "prekey_bundle serde \<Rightarrow> ffi_env" where
  "demo_env B = \<lparr>e_crypto = demo_crypto, e_codecs = demo_codecs, e_message = \<lparr>ser = (\<lambda>_. []), de = (\<lambda>_. Inl [])\<rparr>,
     e_web = demo_web\<lparr>wc_bundle := B\<rparr>, e_json = \<lparr>js_print = (\<lambda>_. []), js_parse = (\<lambda>_. Inl [])\<rparr>,
     e_frame = \<lparr>ser = (\<lambda>_. []), de = (\<lambda>_. Inl [])\<rparr>\<rparr>"

definition demo_net :: "unit net_env" where
  "demo_net = \<lparr>x_agent = \<lparr>ag_call = (\<lambda>_ _ _ _ w. (Failed [], w)), ag_show = (\<lambda>_. [])\<rparr>, x_proxied = (\<lambda>_. Inl [])\<rparr>"

definition demo_heap :: "unit ffi_heap" where
  "demo_heap = \<lparr>h_accounts = fmempty, h_sessions = fmempty, h_relays = fmempty, h_nodes = fmempty,
     h_blocks = fmupd 0 \<lparr>blk_owner = Host, blk_data = replicate 32 7\<rparr> fmempty, h_cells = fmempty, h_next = 1\<rparr>"

definition demo_calls :: "call list" where
  "demo_calls = [Mesh_New (At 0), Mesh_Take_Inbox (At 1), Session_Encrypt NullP (At 0) 5,
     Buffer_Free \<lparr>cb_ptr = At 2, cb_len = 4\<rparr>, Mesh_Free (At 1)]"

lemma demo_env_ok: "env_ok (demo_env checked_bundle)"
  using demo_sig_ok demo_hash_len
  by (auto simp: env_ok_def demo_env_def checked_bundle_def bundle_decode_def split: sum.splits if_splits)

lemma demo_heap_ok: "heap_ok demo_heap"
  by (simp add: heap_ok_def demo_heap_def split: if_splits)

lemma u32_bytes_nonempty [simp]: "u32_to_le_bytes w \<noteq> []"
  using length_u32_to_le_bytes [of w] by (metis list.size(3) zero_neq_numeral)

lemmas demo_eval = demo_calls_def demo_heap_def mesh_calls session_calls rets read_key_def read_block_def box_into_raw_def
  deref_def handle_ok_def key_ok_def region_ok_def buffer_ok_def block_sat_def as_slice_def new_node_def with_ttl_def take_inbox_def from_vec_def
  alloc_block_def encode_byte_list_def assign_def clarity_buffer_free_def box_free_def

theorem ffi_ownership_witness:
  "\<exists>rs h'. run (demo_env checked_bundle) demo_net demo_calls demo_heap () = Some (rs, h', ()) \<and> live h' = {}"
proof -
  have "rules_kept (demo_env checked_bundle) demo_net demo_calls demo_heap ()"
    by (simp add: demo_eval)
  moreover have "run (demo_env checked_bundle) demo_net demo_calls demo_heap () = Some (rs, h', w') \<Longrightarrow>
      rs = [Ret_Nod (At 1), Ret_Buf \<lparr>cb_ptr = At 2, cb_len = 4\<rparr>, Ret_Buf buffer_null, Ret_Unit, Ret_Unit]" for rs h' w'
    by (auto simp: demo_eval)
  moreover have "live demo_heap = {}"
    by (auto simp: live_def demo_heap_def lib_blocks_def split: if_splits)
  ultimately show ?thesis
    using ffi_ownership [OF demo_env_ok demo_heap_ok, of demo_net demo_calls "()"]
    by (auto simp: demo_calls_def released_def buffer_owned_def owned_def)
qed

end
