(* ===== verification/Ffi_Protocol.thy ===== *)
theory Ffi_Protocol
  imports Ffi_Host Peer
begin

text \<open>
  The protocol as a host sees it through the C interface: the two ways to publish agree, and a conversation can be started
  through handles and buffers alone.
\<close>

section \<open>Reading back what was written\<close>

lemma deref_block_ops [simp]:
  "deref (h_accounts (snd (from_vec v h))) p = deref (h_accounts h) p"
  "deref (h_sessions (snd (from_vec v h))) p = deref (h_sessions h) p"
  by simp_all

lemma from_vec_split: "from_vec v h = (fst (from_vec v h), snd (from_vec v h))"
  by simp

lemma box_slice:
  "as_slice (snd (box_into_raw h_sessions_update s h)) p n = as_slice h p n"
  by (cases p) (simp_all add: box_into_raw_def as_slice_def read_block_def)

lemma assign_slice:
  "as_slice (assign h_sessions_update q s h) p n = as_slice h p n" "as_slice (assign h_accounts_update q a h) p n = as_slice h p n"
  by (cases p; cases q; simp add: assign_def as_slice_def read_block_def)+

lemma box_accounts: "h_accounts (snd (box_into_raw h_sessions_update s h)) = h_accounts h"
  by (simp add: box_into_raw_def)

lemma assign_accounts: "h_accounts (assign h_sessions_update q s h) = h_accounts h"
  by (simp add: assign_def split: cptr.split)

section \<open>Publishing\<close>

text \<open>\<open>serde_json\<close>: the printed array parses back to its entries, whose ids are 64-bit numbers to the reader.\<close>

definition json_ok :: "json_codec \<Rightarrow> bool" where
  "json_ok J \<longleftrightarrow> (\<forall>xs. js_parse J (js_print J xs) = Inr (map (\<lambda>(i, s). \<lparr>je_id = Some (ucast i), je_public = Some s\<rparr>) xs))"

lemma parse_one_time_publics:
  assumes "web_ok W" "\<forall>(i, k)\<in>set xs. length k = 32"
  shows "parse_one_time W (map (\<lambda>(i, s). \<lparr>je_id = Some (ucast i), je_public = Some s\<rparr>)
    (map (\<lambda>(i, k). (i, b64 W k)) xs)) = Some xs"
  using assms(2)
proof (induction xs)
  case Nil
  then show ?case by simp
next
  case (Cons x xs)
  have "ucast (ucast i :: u64) = (i :: u32)" for i by transfer simp
  then show ?case using Cons assms(1) by (cases x) simp
qed

lemma publics_len: "dh_len C \<Longrightarrow> \<forall>(i, k)\<in>set (account_one_time_prekey_publics C a). length k = 32"
  by (auto simp: account_one_time_prekey_publics_def dh_len_def)

text \<open>
  The two ways to publish agree. A host that takes the base bundle and the JSON list of one-time prekeys out of an
  account handle and passes both buffers to \<open>clarity_relay_publish\<close> makes the same request, with the same status, as
  \<open>clarity_relay_publish_account\<close> on the handle.
\<close>

lemma relay_publish_agrees:
  assumes "heap_ok h" "json_ok (e_json E)" "web_ok (e_web E)" "dh_len (e_crypto E)"
    and "deref (h_accounts h) acct = Some (Some a)"
    and "clarity_account_bundle_base E acct h = Some (b1, h1)" "clarity_account_one_time_publics E acct h1 = Some (b2, h2)"
  shows "clarity_relay_publish E t (cb_ptr b1) (cb_len b1) (cb_ptr b2) (cb_len b2) h2 w =
    clarity_relay_publish_account E t acct h2 w"
proof -
  have h1: "h1 = snd (from_vec (bundle_encode (wc_bundle (e_web E)) (bundle_base_of (e_crypto E) a)) h)"
    "b1 = fst (from_vec (bundle_encode (wc_bundle (e_web E)) (bundle_base_of (e_crypto E) a)) h)"
    using assms(5,6) by (auto simp: clarity_account_bundle_base_def)
  let ?js = "js_print (e_json E) (map (\<lambda>(i, k). (i, b64 (e_web E) k)) (account_one_time_prekey_publics (e_crypto E) a))"
  have h2: "h2 = snd (from_vec ?js h1)" "b2 = fst (from_vec ?js h1)"
    using assms(5,7) by (auto simp: clarity_account_one_time_publics_def h1(1))
  have ok1: "heap_ok h1" using effect_ok [OF from_vec_effect [OF assms(1) from_vec_split]] by (simp add: h1(1))
  have s1: "as_slice h2 (cb_ptr b1) (cb_len b1) = Some (bundle_encode (wc_bundle (e_web E)) (bundle_base_of (e_crypto E) a))"
    unfolding h2(1) by (rule from_vec_slice [OF ok1]) (simp add: h1 from_vec_holds)
  have s2: "as_slice h2 (cb_ptr b2) (cb_len b2) = Some ?js"
    by (simp add: h2 from_vec_holds)
  have acct: "deref (h_accounts h2) acct = Some (Some a)" using assms(5) by (simp add: h1(1) h2(1))
  have parse: "js_parse (e_json E) ?js = Inr (map (\<lambda>(i, s). \<lparr>je_id = Some (ucast i), je_public = Some s\<rparr>)
      (map (\<lambda>(i, k). (i, b64 (e_web E) k)) (account_one_time_prekey_publics (e_crypto E) a)))"
    using assms(2) by (simp only: json_ok_def)
  show ?thesis
    using assms(3) parse_one_time_publics [OF assms(3) publics_len [OF assms(4)], of a]
    by (simp add: clarity_relay_publish_def clarity_relay_publish_account_def s1 s2 acct parse
        split: option.split bind_split) 
qed

section \<open>Starting a conversation\<close>

lemma bundle_base_served: "bundle_base_of C a = served_bundle C a None"
  by (simp add: bundle_base_of_def served_bundle_def)

lemma encrypt_first:
  "session_encrypt_all C S s [pt] = (map Inr ms, s') \<Longrightarrow> length ms = 1 \<Longrightarrow> session_encrypt C S s pt = (Inr (ms ! 0), s')"
  by (cases ms) (auto split: prod.splits)

text \<open>The last step of the responder: the handle is fresh and the host's cell holds the plaintext.\<close>

lemma respond_delivers:
  assumes h: "heap_ok h" and cell: "cell_ok h out" "out \<noteq> NullP"
    and acct: "deref (h_accounts h) acct = Some (Some b)" and msg: "as_slice h q n = Some (message_encode (e_message E) m)"
    and M: "serde_ok (e_message E)"
    and r: "session_respond (e_crypto E) (cd_header (e_codecs E)) new b m = (Inr (sb, plain), b')"
  shows "\<exists>s h'. clarity_session_respond E new acct q n out h = Some (s, h') \<and> deref (h_sessions h') s = Some (Some sb) \<and>
    s \<noteq> NullP \<and> cb_ptr (cell_of h' out) \<noteq> NullP \<and>
    as_slice h' (cb_ptr (cell_of h' out)) (cb_len (cell_of h' out)) = Some plain \<and>
    deref (h_accounts h') acct = Some (Some b')"
proof -
  obtain h0 where h0: "write_cell h out buffer_null = Some h0" using write_cell_defined [OF cell(1)] by blast
  note k0 = write_cell_keeps [OF h0]
  have slice0: "as_slice h0 q n = as_slice h q n" using k0 by (cases q) (simp_all add: as_slice_def read_block_def)
  let ?h1 = "assign h_accounts_update acct b' h0"
  let ?v = "from_vec plain ?h1"
  have cells: "h_cells (snd ?v) = h_cells h0" by simp
  obtain h2 where h2: "write_cell (snd ?v) out (fst ?v) = Some h2"
    using h0 cells cell(2) by (auto simp: write_cell_def split: cptr.splits if_splits)
  obtain s h' where box: "box_into_raw h_sessions_update sb h2 = (s, h')" by fastforce
  have "clarity_session_respond E new acct q n out h = Some (s, h')"
    using acct k0 slice0 msg M r h2 box cell(2)
    by (simp add: clarity_session_respond_def h0 Let_def case_prod_beta)
  moreover have "deref (h_sessions h') s = Some (Some sb)" "s \<noteq> NullP"
    using sesss.box_deref [OF box] by auto
  moreover have c: "cell_of h' out = fst ?v"
    using write_cell_of [OF h2 cell(2)] cell_of_cong [OF box_cells [OF box]] by simp
  moreover have "as_slice h' p k = as_slice (snd ?v) p k" for p k
    using box_slice [of sb h2 p k] write_cell_keeps [OF h2] box
    by (cases p) (simp_all add: as_slice_def read_block_def)
  moreover have "deref (h_accounts h') acct = Some (Some b')"
    using accts.assign_deref [of h0 acct b b'] acct k0 write_cell_keeps [OF h2] box_accounts [of sb h2] box by simp
  ultimately show ?thesis using from_vec_holds [of plain ?h1] by metis
qed

text \<open>
  C30: a conversation through the C interface. Of two accounts behind handles, the second exports its bundle into a buffer,
  the first opens a session from that buffer and encrypts a plaintext, and the second responds to the resulting buffer:
  every pointer that comes back is non-null, and the responder's out buffer holds exactly the plaintext (a non-null buffer
  of length zero if the plaintext is empty).
\<close>

theorem ffi_conversation_starts:
  assumes h: "heap_ok h" and cell: "cell_ok h out" "out \<noteq> NullP"
    and accts: "deref (h_accounts h) pa = Some (Some a)" "deref (h_accounts h) pb = Some (Some b)"
    and pt: "as_slice h q n = Some plain"
    and C: "sig_ok (e_crypto E)" "aead_ok (e_crypto E)" "dh_ok (e_crypto E)" "kem_ok (e_crypto E)" "kyber_wf (e_crypto E) (kyber b)"
    and S: "serde_ok (e_message E)" "serde_ok (wc_bundle (e_web E))"
    and keys: "distinct (map (x25519_public (e_crypto E)) [signed_prekey_secret b, new, new'])"
  shows "\<exists>b1 h1 s h2 b2 h3 s' h4. clarity_account_bundle_base E pb h = Some (b1, h1) \<and>
    clarity_session_initiate E eph rng new pa (cb_ptr b1) (cb_len b1) h1 = Some (s, h2) \<and> s \<noteq> NullP \<and>
    clarity_session_encrypt E s q n h2 = Some (b2, h3) \<and> cb_ptr b2 \<noteq> NullP \<and>
    clarity_session_respond E new' pb (cb_ptr b2) (cb_len b2) out h3 = Some (s', h4) \<and> s' \<noteq> NullP \<and>
    cb_ptr (cell_of h4 out) \<noteq> NullP \<and> as_slice h4 (cb_ptr (cell_of h4 out)) (cb_len (cell_of h4 out)) = Some plain"
proof -
  let ?C = "e_crypto E" and ?S = "cd_header (e_codecs E)"
  have "offered ?C b None" by (simp add: offered_def)
  then obtain s0 ms s1 sb where P: "session_initiate ?C eph rng new a (served_bundle ?C b None) = Inr s0"
    "session_encrypt_all ?C ?S s0 [plain] = (map Inr ms, s1)" "length ms = 1"
    "session_respond ?C ?S new' b (ms ! 0) = (Inr (sb, plain), spend None b)"
    using early_message_accepted [OF C, of None new new' "[plain]" 0 eph rng a ?S] keys by auto
  let ?f1 = "from_vec (bundle_encode (wc_bundle (e_web E)) (bundle_base_of ?C b)) h"
  have B: "clarity_account_bundle_base E pb h = Some (fst ?f1, snd ?f1)"
    using accts(2) by (simp add: clarity_account_bundle_base_def)
  have ok1: "heap_ok (snd ?f1)" using effect_ok [OF from_vec_effect [OF h from_vec_split]] .
  obtain s h2 where box: "box_into_raw h_sessions_update s0 (snd ?f1) = (s, h2)" by fastforce
  have I: "clarity_session_initiate E eph rng new pa (cb_ptr (fst ?f1)) (cb_len (fst ?f1)) (snd ?f1) = Some (s, h2)"
    using accts(1) P(1) S(2) box
    by (simp add: clarity_session_initiate_def from_vec_holds bundle_base_served)
  have ok2: "heap_ok h2" using effect_ok [OF sesss.box_effect [OF ok1 box]] .
  have s: "deref (h_sessions h2) s = Some (Some s0)" "s \<noteq> NullP" using sesss.box_deref [OF box] by auto
  have pt2: "as_slice h2 q n = Some plain"
    using box_slice [of s0 "snd ?f1" q n] box from_vec_slice [OF h pt] by simp
  let ?f2 = "from_vec (message_encode (e_message E) (ms ! 0)) (assign h_sessions_update s s1 h2)"
  have X: "clarity_session_encrypt E s q n h2 = Some (fst ?f2, snd ?f2)"
    using s(1) pt2 encrypt_first [OF P(2,3)] by (simp add: clarity_session_encrypt_def)
  have ok3: "heap_ok (snd ?f2)" using effect_ok [OF session_from_vec [OF ok2 s(1) from_vec_split]] .
  have acct3: "deref (h_accounts (snd ?f2)) pb = Some (Some b)"
    using accts(2) box_accounts [of s0 "snd ?f1"] box by (simp add: assign_accounts)
  have "h_cells (snd ?f2) = h_cells h"
    using box_cells [OF box] by (simp add: assign_def split: cptr.split)
  then have cell3: "cell_ok (snd ?f2) out" using cell(1) by (simp add: cell_ok_def)
  obtain s' h4 where "clarity_session_respond E new' pb (cb_ptr (fst ?f2)) (cb_len (fst ?f2)) out (snd ?f2) = Some (s', h4)"
    "s' \<noteq> NullP" "cb_ptr (cell_of h4 out) \<noteq> NullP"
    "as_slice h4 (cb_ptr (cell_of h4 out)) (cb_len (cell_of h4 out)) = Some plain"
    using respond_delivers [OF ok3 cell3 cell(2) acct3 from_vec_holds(2) S(1) P(4)] by blast
  then show ?thesis using B I X s(2) from_vec_holds(1) by blast
qed

section \<open>A concrete host\<close>

text \<open>Two accounts behind handles 0 and 1, a relay client behind 2, a plaintext in the host's block 3 and a cell at 4.\<close>

definition proto_json :: json_codec where
  "proto_json = \<lparr>js_print = put (fmt_list (fmt_pair fmt_u32 fmt_string)),
     js_parse = (\<lambda>bs. case get (fmt_list (fmt_pair fmt_u32 fmt_string)) bs of None \<Rightarrow> Inl ''malformed''
       | Some (xs, _) \<Rightarrow> Inr (map (\<lambda>(i, s). \<lparr>je_id = Some (ucast i), je_public = Some s\<rparr>) xs))\<rparr>"

definition proto_env :: ffi_env where
  "proto_env = \<lparr>e_crypto = demo_crypto, e_codecs = demo_codecs\<lparr>cd_header := demo_header_serde\<rparr>, e_message = serde_of message_fmt,
     e_web = demo_web, e_json = proto_json, e_frame = \<lparr>ser = (\<lambda>_. []), de = (\<lambda>_. Inl [])\<rparr>\<rparr>"

definition proto_heap :: "relay_store ffi_heap" where
  "proto_heap = \<lparr>h_accounts = fmupd 0 (demo_account 7) (fmupd 1 (demo_account 8) fmempty), h_sessions = fmempty,
     h_relays = fmupd 2 (loopback demo_web ''http://relay'' 5) fmempty, h_nodes = fmempty,
     h_blocks = fmupd 3 \<lparr>blk_owner = Host, blk_data = [104, 105]\<rparr> fmempty, h_cells = fmupd 4 buffer_null fmempty, h_next = 5\<rparr>"

lemma proto_json_ok: "json_ok proto_json"
  using fmt_okD [OF fmt_list_ok [OF fmt_pair_ok [OF fmt_u32_ok fmt_string_ok]], of _ "[]"]
  by (simp add: json_ok_def proto_json_def)

lemma proto_heap_ok: "heap_ok proto_heap"
  by (simp add: heap_ok_def proto_heap_def split: if_splits)

lemma proto_handles:
  "deref (h_accounts proto_heap) (At 0) = Some (Some (demo_account 7))"
  "deref (h_accounts proto_heap) (At 1) = Some (Some (demo_account 8))"
  "cell_ok proto_heap (At 4)" "as_slice proto_heap (At 3) 2 = Some [104, 105]"
  by (simp_all add: proto_heap_def deref_def cell_ok_def handle_ok_def as_slice_def read_block_def)

lemma proto_env_simps [simp]:
  "e_crypto proto_env = demo_crypto" "e_web proto_env = demo_web" "e_json proto_env = proto_json"
  "e_message proto_env = serde_of message_fmt" "cd_header (e_codecs proto_env) = demo_header_serde"
  by (simp_all add: proto_env_def)

theorem ffi_conversation_starts_witness:
  "\<exists>b1 h1 s h2 b2 h3 s' h4. clarity_account_bundle_base proto_env (At 1) proto_heap = Some (b1, h1) \<and>
     clarity_session_initiate proto_env [20] [21] [22] (At 0) (cb_ptr b1) (cb_len b1) h1 = Some (s, h2) \<and>
     clarity_session_encrypt proto_env s (At 3) 2 h2 = Some (b2, h3) \<and>
     clarity_session_respond proto_env [23] (At 1) (cb_ptr b2) (cb_len b2) (At 4) h3 = Some (s', h4) \<and>
     as_slice h4 (cb_ptr (cell_of h4 (At 4))) (cb_len (cell_of h4 (At 4))) = Some [104, 105]"
proof -
  have "distinct (map (x25519_public demo_crypto) [signed_prekey_secret (demo_account 8), [22], [23]])"
    by (simp add: demo_account_def generate_with_prekeys_def demo_rng_def demo_crypto_def pad_to_def)
  then show ?thesis
    using ffi_conversation_starts [OF proto_heap_ok proto_handles(3) _ proto_handles(1,2,4), of proto_env "[22]" "[23]" "[20]" "[21]"]
      demo_sig_ok demo_aead_ok demo_dh_ok demo_kem_ok demo_account_wf serde_of_ok [OF message_fmt_ok] demo_web_ok
    by (simp add: web_ok_def) blast
qed

end
