(* ===== verification/Impersonation.thy ===== *)
theory Impersonation
  imports Peer
begin

text \<open>
  Who a first message comes from. The header of \<^verbatim>\<open>core/src/envelope.rs\<close> says that anyone can seal an envelope that
  names any sender, and that the inner handshake settles the question: a forged claim fails to decrypt. This theory
  plays the forger against the model of \<^verbatim>\<open>core/src/session.rs\<close> and \<^verbatim>\<open>core/src/handshake.rs\<close>. The forger owns an
  account and knows the victim's Ed25519 identity key, which is public; \<open>forge_first\<close> is the initiator's code with that
  key in the three places where the initiator's own belongs: the envelope, the handshake header and the associated data.
  None of the three is checked against a secret of the victim, since only the DH identity key takes part in the key
  agreement and the responder never compares the DH key of the header with a signed one.
\<close>

text \<open>\<open>seal_envelope\<close> by a sender who writes the two identity keys by hand.\<close>

definition seal_claiming :: "'c crypto_scheme \<Rightarrow> bytes \<Rightarrow> bytes \<Rightarrow> bytes \<Rightarrow> bytes \<Rightarrow> bytes \<Rightarrow> bytes" where
  "seal_claiming C eph_secret claimed_ed claimed_dh recipient_identity_dh pl =
     (let eph_pub = x25519_public C eph_secret;
          seal_key = derive_seal_key C (x25519_dh C eph_secret recipient_identity_dh) eph_pub recipient_identity_dh;
          inner = resize (INNER_PREFIX_LEN + bucket (length pl)) 0
            (claimed_ed @ claimed_dh @ u32_to_le_bytes (usize_as_u32 (length pl)) @ pl)
      in SEALED_ENVELOPE_VERSION # eph_pub @ aead_seal C seal_key inner eph_pub)"

text \<open>A session that the forger \<open>mallory\<close> opens in the name of \<open>claimed_ed\<close>, and its first message.\<close>

definition claim_session :: "bytes \<Rightarrow> prekey_bundle \<Rightarrow> session \<Rightarrow> session" where
  "claim_session claimed_ed b s = s\<lparr>ad_prefix := make_ad_prefix claimed_ed (pb_identity_ed b),
     pending_handshake := map_option (\<lambda>hs. hs\<lparr>hh_identity_ed := claimed_ed\<rparr>) (pending_handshake s)\<rparr>"

definition forge_first :: "'c crypto_scheme \<Rightarrow> ratchet_header serde \<Rightarrow> message serde \<Rightarrow> peer_rng \<Rightarrow> account \<Rightarrow> bytes
    \<Rightarrow> prekey_bundle \<Rightarrow> bytes \<Rightarrow> error + session \<times> bytes" where
  "forge_first C S M r mallory claimed_ed b plain =
     (case session_initiate C (pr_ephemeral r) (pr_kem r) (pr_ratchet r) mallory b of
        Inl e \<Rightarrow> Inl e
      | Inr s \<Rightarrow> (case session_encrypt C S (claim_session claimed_ed b s) plain of
          (Inl e, _) \<Rightarrow> Inl e
        | (Inr m, s') \<Rightarrow> Inr (s', seal_claiming C (pr_seal r) claimed_ed (identity_dh_public C mallory)
            (pb_identity_dh b) (message_encode M m))))"

section \<open>The forgery is an honest run by an account nobody has to own\<close>

text \<open>
  The signing key of the initiator's account never enters the computation: only its public half does. So the forger's
  output is what an account with the victim's signing key and the forger's DH key would have sent.
\<close>

lemma seal_claiming_eq:
  "seal_claiming C eph (identity_public C a) (identity_dh_public C m) q pl = seal_envelope C eph (m\<lparr>ed_signing := ed_signing a\<rparr>) q pl"
  by (simp add: seal_claiming_def seal_envelope_def identity_public_def identity_dh_public_def Let_def)

lemma initiate_claiming:
  "session_initiate C eph rng new (m\<lparr>ed_signing := ed_signing a\<rparr>) b =
    map_sum id (claim_session (identity_public C a) b) (session_initiate C eph rng new m b)"
  by (simp add: session_initiate_def handshake_initiate_def claim_session_def identity_public_def identity_ed_bytes_def Let_def
      split: sum.split prod.split option.split)

lemma forge_first_eq:
  "peer_compose C S M r (m\<lparr>ed_signing := ed_signing a\<rparr>) b plain = Inr res \<Longrightarrow>
    forge_first C S M r m (identity_public C a) b plain = Inr res"
  by (auto simp: peer_compose_def forge_first_def initiate_claiming seal_claiming_eq split: sum.splits prod.splits)

lemma composed_ad:
  assumes "peer_compose C S M r x (served_bundle C b opk) plain = Inr (s, blob)"
  shows "ad_prefix s = make_ad_prefix (identity_public C x) (identity_public C b)"
  using assms
  by (auto simp: peer_compose_def session_initiate_def handshake_initiate_def session_encrypt_def identity_ed_bytes_def
      identity_public_def Let_def split: sum.splits prod.splits)

section \<open>Property\<close>

text \<open>
  C17: a first message proves nothing about who sent it. Mallory, with an account of his own, Bob's published bundle and
  Alice's public identity key, seals an envelope that Bob opens to Alice's identity; its payload is a handshake that
  Bob's \<open>respond\<close> completes: it returns Mallory's text, the session's associated data begins with Alice's identity, and
  Bob's answers on that session decrypt at Mallory. Alice's account takes no part, so the safety number Bob sees (a
  function of the two identity keys) is the one Alice would read out to him.
\<close>

theorem forged_sender_accepted:
  assumes laws: "sig_ok C" "aead_ok C" "dh_ok C" "kem_ok C" "dh_len C" "aead_tag_len C" "serde_ok M"
    and b: "kyber_wf C (kyber b)" "offered C b opk"
    and keys: "distinct (map (x25519_public C) [signed_prekey_secret b, pr_ratchet r, new'])"
  shows "\<exists>s blob m sb.
    forge_first C S M r mallory (identity_public C a) (served_bundle C b opk) plain = Inr (s, blob) \<and>
    (length blob < 2 ^ 32 \<longrightarrow> open_envelope C b blob = Inr \<lparr>sender_identity_ed = identity_public C a,
       sender_identity_dh = identity_dh_public C mallory, payload = message_encode M m\<rparr>) \<and>
    message_decode M (message_encode M m) = Inr m \<and>
    session_respond C S new' b m = (Inr (sb, plain), spend opk b) \<and>
    ad_prefix sb = make_ad_prefix (identity_public C a) (identity_public C b) \<and>
    (\<forall>new'' reply. x25519_public C new'' \<notin> x25519_public C ` {signed_prekey_secret b, pr_ratchet r, new'} \<longrightarrow>
       (\<exists>m' sb'. session_encrypt C S sb reply = (Inr m', sb') \<and> fst (session_decrypt C S new'' s m') = Inr reply))"
proof -
  let ?x = "mallory\<lparr>ed_signing := ed_signing a\<rparr>"
  obtain s blob m sb where P: "peer_compose C S M r ?x (served_bundle C b opk) plain = Inr (s, blob)"
    "blob = seal_envelope C (pr_seal r) ?x (identity_dh_public C b) (message_encode M m)"
    "length (message_encode M m) < 2 ^ 32 \<longrightarrow> open_envelope C b blob = Inr \<lparr>sender_identity_ed = identity_public C ?x,
        sender_identity_dh = identity_dh_public C ?x, payload = message_encode M m\<rparr>"
    "message_decode M (message_encode M m) = Inr m" "session_respond C S new' b m = (Inr (sb, plain), spend opk b)"
    "ad_prefix sb = ad_prefix s"
    "\<forall>new'' reply. x25519_public C new'' \<notin> x25519_public C ` {signed_prekey_secret b, pr_ratchet r, new'} \<longrightarrow>
      (\<exists>m' sb'. session_encrypt C S sb reply = (Inr m', sb') \<and> fst (session_decrypt C S new'' s m') = Inr reply)"
    using composed_message_opens [OF laws b keys, of S ?x plain] by blast
  have ids: "identity_public C ?x = identity_public C a" "identity_dh_public C ?x = identity_dh_public C mallory"
    by (simp_all add: identity_public_def identity_dh_public_def)
  have "length (message_encode M m) \<le> length blob" using sealed_longer [OF laws(5,6)] P(2) by metis
  moreover have "ad_prefix s = make_ad_prefix (identity_public C ?x) (identity_public C b)"
    using P(1) by (rule composed_ad)
  ultimately show ?thesis
    using forge_first_eq [OF P(1)] P(3-7) ids by (intro exI [of _ s] exI [of _ blob] exI [of _ m] exI [of _ sb]) auto
qed

theorem forged_sender_accepted_witness:
  "\<exists>s blob env m sb. forge_first demo_crypto demo_header_serde (serde_of message_fmt) demo_peer (demo_account 66)
      (identity_public demo_crypto (demo_account 7)) (served_bundle demo_crypto (demo_account 8) demo_opk) [104, 105] = Inr (s, blob) \<and>
    open_envelope demo_crypto (demo_account 8) blob = Inr env \<and>
    sender_identity_ed env = identity_public demo_crypto (demo_account 7) \<and>
    message_decode (serde_of message_fmt) (payload env) = Inr m \<and>
    session_respond demo_crypto demo_header_serde [25] (demo_account 8) m = (Inr (sb, [104, 105]), spend demo_opk (demo_account 8)) \<and>
    ad_prefix sb = identity_public demo_crypto (demo_account 7) @ identity_public demo_crypto (demo_account 8)"
proof -
  note laws = demo_sig_ok demo_aead_ok demo_dh_ok demo_kem_ok demo_dh_len demo_aead_tag_len serde_of_ok [OF message_fmt_ok]
  have keys: "distinct (map (x25519_public demo_crypto) [signed_prekey_secret (demo_account 8), pr_ratchet demo_peer, [25]])"
    by (simp add: demo_account_def generate_with_prekeys_def demo_rng_def demo_crypto_def pad_to_def demo_peer_def)
  let ?x = "(demo_account 66)\<lparr>ed_signing := ed_signing (demo_account 7)\<rparr>"
  obtain s blob where comp: "peer_compose demo_crypto demo_header_serde (serde_of message_fmt) demo_peer ?x
      (served_bundle demo_crypto (demo_account 8) demo_opk) [104, 105] = Inr (s, blob)"
    using composed_message_opens [OF laws demo_account_wf demo_offered keys, of demo_header_serde ?x "[104, 105]"] by metis
  have "length blob \<le> 10000" by (rule demo_first_size [OF comp]) simp
  then have "length blob < 2 ^ 32" by simp
  then show ?thesis
    using forged_sender_accepted [OF laws demo_account_wf demo_offered keys, of demo_header_serde "demo_account 66"
        "demo_account 7" "[104, 105]"] forge_first_eq [OF comp]
    by (auto simp: make_ad_prefix_def)
qed

end
