(* ===== verification/App_Content.thy ===== *)
theory App_Content
  imports Prelude
begin

text \<open>
  What the application puts inside the encryption and how it reads it back (\<^verbatim>\<open>app/lib/src/services/content.dart\<close>),
  the data classes of \<^verbatim>\<open>app/lib/src/models/models.dart\<close>, and the pieces of the Dart library they use: 64-bit integers,
  \<open>Duration\<close> and \<open>DateTime\<close> arithmetic. Dart strings are represented by their UTF-8 characters. The text form of JSON is
  a parameter (\<open>dart_codec\<close>); what a decoded value means to the application is modelled on the value itself.
\<close>

text \<open>A decoded JSON value. A double is kept by its integer value, if it has one: \<open>1.0 == 1\<close> holds in Dart.\<close>

datatype json =
    JNull | JBool bool | JInt int | JDouble "int option" | JString string | JList "json list" | JMap "(string \<times> json) list"

record dart_codec =
  dc_encode :: "json \<Rightarrow> bytes"
    \<comment> \<open>\<open>utf8.encode(jsonEncode(v))\<close>\<close>
  dc_decode :: "bytes \<Rightarrow> json option"
    \<comment> \<open>\<open>jsonDecode(utf8.decode(b))\<close>; \<open>None\<close> is a \<open>FormatException\<close>\<close>
  dc_lossy :: "bytes \<Rightarrow> string"
    \<comment> \<open>\<open>utf8.decode(b, allowMalformed: true)\<close>\<close>
  dc_base64 :: "bytes \<Rightarrow> string"
  dc_unbase64 :: "string \<Rightarrow> bytes option"

section \<open>Typed message content\<close>

datatype message_content = TextContent string | TimerUpdateContent "int option" | UnknownContent

definition json_is :: "int \<Rightarrow> json option \<Rightarrow> bool" where
  "json_is n j \<longleftrightarrow> j = Some (JInt n) \<or> j = Some (JDouble (Some n))"

definition opt_int_json :: "int option \<Rightarrow> json" where
  "opt_int_json x = (case x of None \<Rightarrow> JNull | Some i \<Rightarrow> JInt i)"

text \<open>The casts \<open>as String?\<close> and \<open>as int?\<close> of a map entry; \<open>None\<close> is a \<open>TypeError\<close>.\<close>

definition cast_string :: "json option \<Rightarrow> string option option" where
  "cast_string j = (case j of None \<Rightarrow> Some None | Some JNull \<Rightarrow> Some None | Some (JString s) \<Rightarrow> Some (Some s) | _ \<Rightarrow> None)"

definition cast_int :: "json option \<Rightarrow> int option option" where
  "cast_int j = (case j of None \<Rightarrow> Some None | Some JNull \<Rightarrow> Some None | Some (JInt i) \<Rightarrow> Some (Some i) | _ \<Rightarrow> None)"

definition content_json :: "message_content \<Rightarrow> json option" where
  "content_json c = (case c of
      TextContent body \<Rightarrow> Some (JMap [(''v'', JInt 1), (''t'', JString ''text''), (''body'', JString body)])
    | TimerUpdateContent seconds \<Rightarrow> Some (JMap [(''v'', JInt 1), (''t'', JString ''timer''), (''seconds'', opt_int_json seconds)])
    | UnknownContent \<Rightarrow> None)"

text \<open>\<open>encode\<close>; \<open>None\<close> is the \<open>UnsupportedError\<close> of a receive-only content.\<close>

definition content_encode :: "dart_codec \<Rightarrow> message_content \<Rightarrow> bytes option" where
  "content_encode D c = map_option (dc_encode D) (content_json c)"

definition content_of_map :: "string \<Rightarrow> (string \<Rightarrow> json option) \<Rightarrow> message_content" where
  "content_of_map lossy m =
     (if m ''t'' = Some (JString ''text'') then
        (case cast_string (m ''body'') of Some body \<Rightarrow> TextContent (case body of None \<Rightarrow> [] | Some s \<Rightarrow> s) | None \<Rightarrow> TextContent lossy)
      else if m ''t'' = Some (JString ''timer'') then
        (case cast_int (m ''seconds'') of Some s \<Rightarrow> TimerUpdateContent s | None \<Rightarrow> TextContent lossy)
      else UnknownContent)"

definition content_decode :: "dart_codec \<Rightarrow> bytes \<Rightarrow> message_content" where
  "content_decode D plaintext =
     (case dc_decode D plaintext of
        Some (JMap m) \<Rightarrow> if json_is 1 (map_of m ''v'') then content_of_map (dc_lossy D plaintext) (map_of m)
                        else TextContent (dc_lossy D plaintext)
      | _ \<Rightarrow> TextContent (dc_lossy D plaintext))"

section \<open>Durations and instants\<close>

text \<open>Arithmetic on \<open>int\<close> wraps at 64 bits.\<close>

definition dart_int :: "int \<Rightarrow> int" where
  "dart_int i = signed_take_bit 63 i"

text \<open>The operator \<open>~/\<close> rounds towards zero; the divisors are positive.\<close>

definition trunc_div :: "int \<Rightarrow> int \<Rightarrow> int" where
  "trunc_div x y = sgn x * (\<bar>x\<bar> div y)"

definition duration_seconds :: "int \<Rightarrow> int" where
  "duration_seconds s = dart_int (s * 1000000)"
    \<comment> \<open>in microseconds\<close>

text \<open>\<open>DateTime\<close> spans 100 million days on either side of the epoch; constructing an instant outside throws.\<close>

definition MAX_INSTANT :: int where
  "MAX_INSTANT = 8640000000000000000"

definition date_subtract :: "int \<Rightarrow> int \<Rightarrow> int option" where
  "date_subtract now d = (let v = dart_int (now - d) in if \<bar>v\<bar> > MAX_INSTANT then None else Some v)"

definition show_int :: "int \<Rightarrow> string" where
  "show_int i = (if i < 0 then CHR ''-'' # show_nat (nat (- i)) else show_nat (nat i))"

definition pad_left :: "nat \<Rightarrow> string \<Rightarrow> string" where
  "pad_left k s = replicate (k - length s) CHR ''0'' @ s"

text \<open>\<open>Duration.toString\<close>: hours, minutes, seconds and six digits of microseconds.\<close>

definition show_duration :: "int \<Rightarrow> string" where
  "show_duration us =
     (let n = nat \<bar>us\<bar>
      in (if us < 0 then ''-'' else []) @ show_nat (n div 3600000000) @ '':''
         @ pad_left 2 (show_nat (n div 60000000 mod 60)) @ '':''
         @ pad_left 2 (show_nat (n div 1000000 mod 60)) @ ''.'' @ pad_left 6 (show_nat (n mod 1000000)))"

definition retention_label :: "int option \<Rightarrow> string" where
  "retention_label seconds =
     (case seconds of
        None \<Rightarrow> ''off''
      | Some s \<Rightarrow> if s = 3600 then ''1 hour'' else if s = 86400 then ''1 day'' else if s = 604800 then ''1 week''
                 else show_duration (duration_seconds s))"

section \<open>Contacts and messages\<close>

record app_contact =
  ac_identity :: bytes
  ac_identity_dh :: bytes
  ac_display_name :: string
  ac_verified :: bool
  ac_retention :: "int option"

definition hex_char :: "nat \<Rightarrow> char" where
  "hex_char d = (if d < 10 then char_of (48 + d) else char_of (87 + d))"

definition hex_byte :: "u8 \<Rightarrow> string" where
  "hex_byte b = [hex_char (unat b div 16), hex_char (unat b mod 16)]"

definition hex :: "bytes \<Rightarrow> string" where
  "hex bs = concat (map hex_byte bs)"

definition contact_id :: "app_contact \<Rightarrow> string" where
  "contact_id c = hex (ac_identity c)"

text \<open>The first eight digits and an ellipsis (U+2026, three bytes of UTF-8).\<close>

definition short_id :: "bytes \<Rightarrow> string" where
  "short_id i = take 8 (hex i) @ [char_of (226 :: nat), char_of (128 :: nat), char_of (166 :: nat)]"

datatype message_direction = Incoming | Outgoing | Info

record chat_message =
  cm_direction :: message_direction
  cm_text :: string
  cm_timestamp :: int
    \<comment> \<open>microseconds since the epoch\<close>

section \<open>Laws\<close>

text \<open>
  What the application relies on: the text of the JSON values it writes reads back as the same value (integers are 64
  bits wide), and so does Base64.
\<close>

definition dart_ok :: "dart_codec \<Rightarrow> bool" where
  "dart_ok D \<longleftrightarrow>
     (\<forall>c j. content_json c = Some j \<longrightarrow> (\<forall>s. c = TimerUpdateContent (Some s) \<longrightarrow> dart_int s = s) \<longrightarrow>
        dc_decode D (dc_encode D j) = Some j) \<and>
     (\<forall>bs. dc_unbase64 D (dc_base64 D bs) = Some bs)"

lemma content_roundtrip:
  assumes "dart_ok D" "content_encode D c = Some bs" "\<forall>s. c = TimerUpdateContent (Some s) \<longrightarrow> dart_int s = s"
  shows "content_decode D bs = c"
proof -
  obtain j where j: "content_json c = Some j" "bs = dc_encode D j" using assms(2) by (auto simp: content_encode_def)
  then have "dc_decode D bs = Some j" using assms(1,3) by (auto simp: dart_ok_def)
  then show ?thesis
    using j(1) by (cases c) (auto simp: content_decode_def content_json_def content_of_map_def json_is_def cast_string_def
        cast_int_def opt_int_json_def split: option.split)
qed

lemma text_roundtrip:
  assumes "dart_ok D" "content_encode D (TextContent body) = Some bs"
  shows "content_decode D bs = TextContent body"
  by (rule content_roundtrip [OF assms]) simp

lemma hex_char_inj: "d < 16 \<Longrightarrow> d' < 16 \<Longrightarrow> hex_char d = hex_char d' \<Longrightarrow> d = d'"
proof -
  assume "d < 16" "d' < 16" "hex_char d = hex_char d'"
  moreover have "of_char (hex_char n) = (if n < 10 then 48 + n else 87 + n)" if "n < 16" for n
    using that by (simp add: hex_char_def)
  ultimately have "(if d < 10 then 48 + d else 87 + d) = (if d' < 10 then 48 + d' else 87 + d')" by metis
  then show "d = d'" by (simp split: if_splits)
qed

lemma hex_byte_inj: "hex_byte b = hex_byte b' \<Longrightarrow> b = b'"
proof -
  assume "hex_byte b = hex_byte b'"
  moreover have "unat b < 256" "unat b' < 256" using unsigned_less [of b] unsigned_less [of b'] by simp_all
  ultimately have "unat b div 16 = unat b' div 16" "unat b mod 16 = unat b' mod 16"
    by (auto simp: hex_byte_def intro: hex_char_inj)
  then show "b = b'" by (metis mult_div_mod_eq unsigned_word_eqI)
qed

lemma hex_inj: "hex bs = hex bs' \<Longrightarrow> bs = bs'"
proof (induction bs arbitrary: bs')
  case Nil
  then show ?case by (cases bs') (simp_all add: hex_def hex_byte_def)
next
  case (Cons b bs)
  then obtain b' cs where bs': "bs' = b' # cs" by (cases bs') (simp_all add: hex_def hex_byte_def)
  then have "hex_byte b = hex_byte b'" "hex bs = hex cs" using Cons.prems by (simp_all add: hex_def hex_byte_def)
  then show ?case using Cons.IH hex_byte_inj bs' by blast
qed

text \<open>A concrete codec: a tag byte and the text, or a tag byte and the number.\<close>

definition demo_dart :: dart_codec where
  "demo_dart = \<lparr>
     dc_encode = (\<lambda>j. case j of JMap [_, _, (_, JString s)] \<Rightarrow> 0 # byte_lit s
                    | JMap [_, _, (_, JInt i)] \<Rightarrow> 1 # le_digits 8 (unat (word_of_int i :: u64))
                    | _ \<Rightarrow> [2]),
     dc_decode = (\<lambda>bs. case bs of [] \<Rightarrow> None
                    | tag # rest \<Rightarrow> if tag = 0 then content_json (TextContent (map (\<lambda>b. char_of (unat b)) rest))
                        else if tag = 1 then content_json (TimerUpdateContent (Some (dart_int (int (le_value rest)))))
                        else if rest = [] then content_json (TimerUpdateContent None) else None),
     dc_lossy = map (\<lambda>b. char_of (unat b)),
     dc_base64 = map (\<lambda>b. char_of (unat b)),
     dc_unbase64 = (\<lambda>s. Some (byte_lit s))\<rparr>"

lemma byte_lit_chars: "byte_lit (map (\<lambda>b. char_of (unat b)) bs) = bs" "map (\<lambda>b. char_of (unat b)) (byte_lit s) = s"
proof -
  have "word_of_nat (of_char (char_of (unat b) :: char)) = b" for b :: u8
    using unsigned_less [where 'a = nat, of b] by simp
  moreover have "(char_of (unat (word_of_nat (of_char c) :: u8)) :: char) = c" for c :: char
    by (simp add: unat_of_nat)
  ultimately show "byte_lit (map (\<lambda>b. char_of (unat b)) bs) = bs" "map (\<lambda>b. char_of (unat b)) (byte_lit s) = s"
    by (simp_all add: byte_lit_def comp_def map_idI)
qed

lemma demo_dart_ok: "dart_ok demo_dart"
proof -
  have "dart_int (int (le_value (le_digits 8 (unat (word_of_int s :: u64))))) = s" if "dart_int s = s" for s
  proof -
    have "int (unat (word_of_int s :: u64)) = take_bit 64 s" by (simp add: unsigned_of_int)
    moreover have "le_value (le_digits 8 (unat (word_of_int s :: u64))) = unat (word_of_int s :: u64)"
      using unsigned_less [where 'a = nat, of "word_of_int s :: u64"] by (simp add: le_value_digits)
    ultimately show ?thesis using that by (simp add: dart_int_def signed_take_bit_take_bit)
  qed
  then show ?thesis
    by (auto simp: dart_ok_def demo_dart_def content_json_def opt_int_json_def byte_lit_chars split: message_content.splits option.splits)
qed

end
