(* ===== verification/App.thy ===== *)
theory App
  imports App_Content Peer_Main Enclave Safety "HOL-Library.AList"
begin

text \<open>
  The application state of \<^verbatim>\<open>app/lib/src/state/app_state.dart\<close>: the account, the sessions, the contacts and the
  conversations in memory, the platform's secure storage beside them, and every operation of \<open>AppState\<close> that changes
  them, with the relay calls of \<^verbatim>\<open>app/lib/src/services/relay_worker.dart\<close>.

  The application calls the Rust core through the C interface; the operations here call the core's definitions, an error
  of which is a \<open>ClarityException\<close>. A \<open>Map\<close> that is iterated (the contacts) is an association list in insertion order,
  the others are maps. The storage maps each key to the value whose text (\<open>jsonEncode\<close>, \<open>base64.encode\<close>, \<open>toString\<close>) is
  written there. An operation runs to its end before the next one starts, and a write takes effect when it is issued;
  \<open>notifyListeners\<close> and the timers are left out. The clock is in microseconds.
\<close>

record 'c app_env =
  ae_crypto :: "'c crypto_scheme"
  ae_codecs :: codecs
  ae_message :: "message serde"
  ae_web :: web_codecs
  ae_dart :: dart_codec

record app_rng =
  ar_account :: account_rng
  ar_ephemeral :: bytes
  ar_kem :: bytes
  ar_ratchet :: bytes
  ar_seal :: bytes
  ar_opk :: "nat \<Rightarrow> bytes"

datatype dart_error =
    State_Error string | Clarity_Exception | Range_Error | Type_Error | Unsupported_Error

datatype storage_key = Account_Key | Contacts_Key | Last_Poll_Key | Session_Key string | History_Key string

datatype stored_value = Base64_Text bytes | Json_Text json | Number_Text int

type_synonym storage = "storage_key \<rightharpoonup> stored_value"

record app =
  ap_account :: account
  ap_last_poll :: "int option"
  ap_contacts :: "(string \<times> app_contact) list"
  ap_sessions :: "string \<rightharpoonup> session"
  ap_conversations :: "string \<rightharpoonup> chat_message list"
  ap_storage :: storage

datatype 'w app_transport = Relay "'w relay_transport" | Mesh "bytes \<Rightarrow> bytes \<Rightarrow> 'w \<Rightarrow> 'w" | Offline
  \<comment> \<open>the mesh is its \<open>send\<close>: recipient and payload\<close>

definition MAX_POLL_EPOCHS :: int where
  "MAX_POLL_EPOCHS = 30"

definition PREKEY_LOW_WATER :: nat where
  "PREKEY_LOW_WATER = 40"

definition PREKEY_TARGET :: nat where
  "PREKEY_TARGET = 100"

section \<open>Persistence\<close>

definition storage_write :: "storage_key \<Rightarrow> stored_value \<Rightarrow> app \<Rightarrow> app" where
  "storage_write k v a = a\<lparr>ap_storage := (ap_storage a)(k \<mapsto> v)\<rparr>"

definition persist_account :: "'c app_env \<Rightarrow> app \<Rightarrow> app" where
  "persist_account E a = storage_write Account_Key (Base64_Text (account_to_bytes (cd_account (ae_codecs E)) (ap_account a))) a"

definition persist_session :: "'c app_env \<Rightarrow> string \<Rightarrow> app \<Rightarrow> app" where
  "persist_session E cid a = (case ap_sessions a cid of
      None \<Rightarrow> a
    | Some s \<Rightarrow> storage_write (Session_Key cid)
        (Base64_Text (session_serialize (cd_ratchet (ae_codecs E)) (cd_session (ae_codecs E)) s)) a)"

definition contact_json :: "dart_codec \<Rightarrow> app_contact \<Rightarrow> json" where
  "contact_json D c = JMap ([(''identity'', JString (dc_base64 D (ac_identity c))),
     (''identityDh'', JString (dc_base64 D (ac_identity_dh c))), (''name'', JString (ac_display_name c)),
     (''verified'', JBool (ac_verified c))]
     @ (case ac_retention c of None \<Rightarrow> [] | Some r \<Rightarrow> [(''retention'', JInt r)]))"

definition persist_contacts :: "'c app_env \<Rightarrow> app \<Rightarrow> app" where
  "persist_contacts E a = storage_write Contacts_Key
     (Json_Text (JList (map (contact_json (ae_dart E) \<circ> snd) (ap_contacts a)))) a"

definition direction_text :: "message_direction \<Rightarrow> string" where
  "direction_text d = (case d of Outgoing \<Rightarrow> ''out'' | Incoming \<Rightarrow> ''in'' | Info \<Rightarrow> ''info'')"

definition message_json :: "chat_message \<Rightarrow> json" where
  "message_json m = JMap [(''d'', JString (direction_text (cm_direction m))), (''t'', JString (cm_text m)),
     (''ts'', JInt (trunc_div (cm_timestamp m) 1000))]"

definition persist_history :: "string \<Rightarrow> app \<Rightarrow> app" where
  "persist_history cid a = (case ap_conversations a cid of
      None \<Rightarrow> a\<lparr>ap_storage := (ap_storage a)(History_Key cid := None)\<rparr>
    | Some [] \<Rightarrow> a\<lparr>ap_storage := (ap_storage a)(History_Key cid := None)\<rparr>
    | Some ms \<Rightarrow> storage_write (History_Key cid) (Json_Text (JList (map message_json ms))) a)"

section \<open>Conversations\<close>

definition put_if_absent :: "'k \<Rightarrow> 'v \<Rightarrow> ('k \<rightharpoonup> 'v) \<Rightarrow> 'k \<rightharpoonup> 'v" where
  "put_if_absent k v m = (if m k = None then m(k \<mapsto> v) else m)"

definition add_message :: "string \<Rightarrow> message_direction \<Rightarrow> string \<Rightarrow> int \<Rightarrow> app \<Rightarrow> app" where
  "add_message cid d txt now a = a\<lparr>ap_conversations := (ap_conversations a)(cid \<mapsto>
     (case ap_conversations a cid of None \<Rightarrow> [] | Some ms \<Rightarrow> ms) @ [\<lparr>cm_direction = d, cm_text = txt, cm_timestamp = now\<rparr>])\<rparr>"

definition append_info :: "int \<Rightarrow> string \<Rightarrow> string \<Rightarrow> app \<Rightarrow> app" where
  "append_info now cid txt a = persist_history cid (add_message cid Info txt now a)"

definition sweep_contact :: "int \<Rightarrow> app_contact \<Rightarrow> app \<Rightarrow> (dart_error + unit) \<times> app" where
  "sweep_contact now c a =
     (case (ac_retention c, ap_conversations a (contact_id c)) of
        (Some retention, Some (m # ms)) \<Rightarrow>
          (case date_subtract now (duration_seconds retention) of
             None \<Rightarrow> (Inl Range_Error, a)
           | Some cutoff \<Rightarrow>
               (let kept = filter (\<lambda>m. \<not> cm_timestamp m < cutoff) (m # ms)
                in (Inr (), if length kept \<noteq> length (m # ms)
                      then persist_history (contact_id c) (a\<lparr>ap_conversations := (ap_conversations a)(contact_id c \<mapsto> kept)\<rparr>)
                      else a)))
      | _ \<Rightarrow> (Inr (), a))"

primrec sweep_contacts :: "int \<Rightarrow> app_contact list \<Rightarrow> app \<Rightarrow> (dart_error + unit) \<times> app" where
  "sweep_contacts now [] a = (Inr (), a)"
| "sweep_contacts now (c # cs) a = (case sweep_contact now c a of
      (Inl e, a') \<Rightarrow> (Inl e, a') | (Inr _, a') \<Rightarrow> sweep_contacts now cs a')"

definition sweep_expired_messages :: "int \<Rightarrow> app \<Rightarrow> (dart_error + unit) \<times> app" where
  "sweep_expired_messages now a = sweep_contacts now (map snd (ap_contacts a)) a"

section \<open>The relay worker\<close>

text \<open>\<open>pollMany\<close>: one inbox after the other; the first failure loses what the earlier ones gave.\<close>

fun poll_many :: "web_codecs \<Rightarrow> 'w relay_transport \<Rightarrow> bytes list \<Rightarrow> 'w \<Rightarrow> (dart_error + bytes list) \<times> 'w" where
  "poll_many W t [] w = (Inr [], w)"
| "poll_many W t (ib # ibs) w =
     (case net_poll W t ib w of
        (Inl _, w1) \<Rightarrow> (Inl (State_Error ''relay worker: poll transport error''), w1)
      | (Inr ms, w1) \<Rightarrow> (case poll_many W t ibs w1 of
          (Inl e, w2) \<Rightarrow> (Inl e, w2) | (Inr ms', w2) \<Rightarrow> (Inr (ms @ ms'), w2)))"

section \<open>Publishing\<close>

definition publish_bundle :: "'c app_env \<Rightarrow> 'w app_transport \<Rightarrow> app \<Rightarrow> 'w \<Rightarrow> 'w" where
  "publish_bundle E t a w = (case t of
      Relay rt \<Rightarrow> (case split_bundle (ae_crypto E) (ap_account a) of (b, otps) \<Rightarrow> snd (net_publish (ae_web E) rt b otps w))
    | _ \<Rightarrow> w)"

definition maybe_replenish_prekeys :: "'c app_env \<Rightarrow> (nat \<Rightarrow> bytes) \<Rightarrow> 'w app_transport \<Rightarrow> app \<Rightarrow> 'w \<Rightarrow> app \<times> 'w" where
  "maybe_replenish_prekeys E draw t a w = (case t of
      Relay _ \<Rightarrow>
        (let remaining = one_time_prekeys_remaining (ap_account a)
         in if remaining \<ge> PREKEY_LOW_WATER then (a, w)
            else let a' = persist_account E (a\<lparr>ap_account :=
                       snd (replenish_one_time_prekeys draw (ap_account a) (word_of_nat (PREKEY_TARGET - remaining)))\<rparr>)
                 in (a', publish_bundle E t a' w))
    | _ \<Rightarrow> (a, w))"

section \<open>Contacts and sending\<close>

definition current_epoch :: "int \<Rightarrow> u64" where
  "current_epoch now = epoch_for_unix (word_of_int (trunc_div (trunc_div now 1000) 1000))"

definition add_contact :: "'c app_env \<Rightarrow> app_rng \<Rightarrow> 'w app_transport \<Rightarrow> bytes \<Rightarrow> string \<Rightarrow> app \<Rightarrow> 'w
    \<Rightarrow> (dart_error + unit) \<times> app \<times> 'w" where
  "add_contact E r t identity name a w =
     (case t of
        Relay rt \<Rightarrow>
          (case net_fetch_bundle (ae_web E) rt identity w of
             (Inl _, w1) \<Rightarrow> (Inl (State_Error ''relay worker: fetch transport error''), a, w1)
           | (Inr None, w1) \<Rightarrow> (Inl (State_Error ''no prekey bundle available for that identity''), a, w1)
           | (Inr (Some b), w1) \<Rightarrow>
               (case verify_bundle (ae_crypto E) b of
                  Inl _ \<Rightarrow> (Inl Clarity_Exception, a, w1)
                | Inr _ \<Rightarrow>
                    if pb_identity_ed b \<noteq> identity
                    then (Inl (State_Error ''directory returned a bundle for a different identity''), a, w1)
                    else (case session_initiate (ae_crypto E) (ar_ephemeral r) (ar_kem r) (ar_ratchet r) (ap_account a) b of
                        Inl _ \<Rightarrow> (Inl Clarity_Exception, a, w1)
                      | Inr s \<Rightarrow>
                          (let c = \<lparr>ac_identity = identity, ac_identity_dh = pb_identity_dh b, ac_display_name = name,
                                    ac_verified = False, ac_retention = None\<rparr>;
                               a1 = a\<lparr>ap_contacts := AList.update (contact_id c) c (ap_contacts a),
                                      ap_sessions := (ap_sessions a)(contact_id c \<mapsto> s),
                                      ap_conversations := put_if_absent (contact_id c) [] (ap_conversations a)\<rparr>
                           in (Inr (), persist_contacts E (persist_session E (contact_id c) a1), w1)))))
      | _ \<Rightarrow> (Inl (State_Error ''bundle fetch requires a relay transport''), a, w))"

text \<open>The result of \<open>RelayWorker.send\<close>, whether the relay took the message, is not looked at.\<close>

definition transport_send :: "'c app_env \<Rightarrow> 'w app_transport \<Rightarrow> int \<Rightarrow> app_contact \<Rightarrow> bytes \<Rightarrow> 'w
    \<Rightarrow> (dart_error + unit) \<times> 'w" where
  "transport_send E t now c sealed_blob w = (case t of
      Relay rt \<Rightarrow> (Inr (), snd (net_send (ae_web E) rt (inbox_id (ae_crypto E) (ac_identity c) (current_epoch now)) sealed_blob w))
    | Mesh snd_frame \<Rightarrow> (Inr (), snd_frame (ac_identity c) sealed_blob w)
    | Offline \<Rightarrow> (Inl (State_Error ''no active transport''), w))"

definition send_content :: "'c app_env \<Rightarrow> app_rng \<Rightarrow> 'w app_transport \<Rightarrow> int \<Rightarrow> string \<Rightarrow> message_content \<Rightarrow> app \<Rightarrow> 'w
    \<Rightarrow> (dart_error + unit) \<times> app \<times> 'w" where
  "send_content E r t now cid content a w =
     (case (ap_sessions a cid, map_of (ap_contacts a) cid) of
        (Some s, Some c) \<Rightarrow>
          (case content_encode (ae_dart E) content of
             None \<Rightarrow> (Inl Unsupported_Error, a, w)
           | Some bs \<Rightarrow>
               (case session_encrypt (ae_crypto E) (cd_header (ae_codecs E)) s bs of
                  (Inl _, s') \<Rightarrow> (Inl Clarity_Exception, a\<lparr>ap_sessions := (ap_sessions a)(cid \<mapsto> s')\<rparr>, w)
                | (Inr m, s') \<Rightarrow>
                    (let a1 = a\<lparr>ap_sessions := (ap_sessions a)(cid \<mapsto> s')\<rparr>;
                         envelope = seal_envelope (ae_crypto E) (ar_seal r) (ap_account a) (ac_identity_dh c)
                           (message_encode (ae_message E) m)
                     in case transport_send E t now c envelope w of
                          (Inl e, w1) \<Rightarrow> (Inl e, a1, w1)
                        | (Inr _, w1) \<Rightarrow> (Inr (), persist_session E cid a1, w1))))
      | _ \<Rightarrow> (Inl (State_Error ''no session for contact''), a, w))"

definition send_message :: "'c app_env \<Rightarrow> app_rng \<Rightarrow> 'w app_transport \<Rightarrow> int \<Rightarrow> string \<Rightarrow> string \<Rightarrow> app \<Rightarrow> 'w
    \<Rightarrow> (dart_error + unit) \<times> app \<times> 'w" where
  "send_message E r t now cid txt a w =
     (case send_content E r t now cid (TextContent txt) a w of
        (Inl e, a1, w1) \<Rightarrow> (Inl e, a1, w1)
      | (Inr _, a1, w1) \<Rightarrow>
          (if ap_conversations a1 cid = None then (Inl Type_Error, a1, w1)
           else (Inr (), persist_history cid (add_message cid Outgoing txt now a1), w1)))"

definition set_retention :: "'c app_env \<Rightarrow> app_rng \<Rightarrow> 'w app_transport \<Rightarrow> int \<Rightarrow> string \<Rightarrow> int option \<Rightarrow> app \<Rightarrow> 'w
    \<Rightarrow> (dart_error + unit) \<times> app \<times> 'w" where
  "set_retention E r t now cid seconds a w =
     (case map_of (ap_contacts a) cid of
        None \<Rightarrow> (Inr (), a, w)
      | Some c \<Rightarrow>
          (let a1 = persist_contacts E (a\<lparr>ap_contacts := AList.update cid (c\<lparr>ac_retention := seconds\<rparr>) (ap_contacts a)\<rparr>)
           in if ap_sessions a1 cid = None
              then (case sweep_expired_messages now a1 of (res, a2) \<Rightarrow> (res, a2, w))
              else (case send_content E r t now cid (TimerUpdateContent seconds) a1 w of
                  (Inl e, a2, w1) \<Rightarrow> (Inl e, a2, w1)
                | (Inr _, a2, w1) \<Rightarrow>
                    (case sweep_expired_messages now (append_info now cid
                         (''You set disappearing messages to '' @ retention_label seconds @ ''.'') a2) of
                       (res, a3) \<Rightarrow> (res, a3, w1)))))"

definition mark_verified :: "'c app_env \<Rightarrow> string \<Rightarrow> app \<Rightarrow> app" where
  "mark_verified E cid a = persist_contacts E (case map_of (ap_contacts a) cid of
      None \<Rightarrow> a
    | Some c \<Rightarrow> a\<lparr>ap_contacts := AList.update cid (c\<lparr>ac_verified := True\<rparr>) (ap_contacts a)\<rparr>)"

definition safety_number_for :: "'c app_env \<Rightarrow> string \<Rightarrow> app \<Rightarrow> string option" where
  "safety_number_for E cid a = map_option (\<lambda>c. safety_number (ae_crypto E) (identity_public (ae_crypto E) (ap_account a))
     (ac_identity c)) (map_of (ap_contacts a) cid)"

section \<open>Inbound handling\<close>

text \<open>The \<open>switch\<close> on the decrypted content.\<close>

definition show_content :: "'c app_env \<Rightarrow> int \<Rightarrow> string \<Rightarrow> message_content \<Rightarrow> app \<Rightarrow> (dart_error + bool) \<times> app" where
  "show_content E now sender content a = (case content of
      TextContent body \<Rightarrow> (Inr True, persist_history sender (add_message sender Incoming body now a))
    | TimerUpdateContent seconds \<Rightarrow>
        (case map_of (ap_contacts a) sender of
           None \<Rightarrow> (Inr False, a)
         | Some c \<Rightarrow>
             (let a1 = persist_contacts E (a\<lparr>ap_contacts := AList.update sender (c\<lparr>ac_retention := seconds\<rparr>) (ap_contacts a)\<rparr>);
                  a2 = append_info now sender
                    (ac_display_name c @ '' set disappearing messages to '' @ retention_label seconds @ ''.'') a1
              in case sweep_expired_messages now a2 of (Inl e, a3) \<Rightarrow> (Inl e, a3) | (Inr _, a3) \<Rightarrow> (Inr True, a3)))
    | UnknownContent \<Rightarrow> (Inr False, a))"

text \<open>The session a new sender gets, stored under the identity its envelope names.\<close>

definition accept_sender :: "string \<Rightarrow> opened_envelope \<Rightarrow> session \<Rightarrow> app \<Rightarrow> app" where
  "accept_sender sender opened s a =
     a\<lparr>ap_contacts := (if map_of (ap_contacts a) sender = None
         then AList.update sender \<lparr>ac_identity = sender_identity_ed opened, ac_identity_dh = sender_identity_dh opened,
                ac_display_name = short_id (sender_identity_ed opened), ac_verified = False, ac_retention = None\<rparr> (ap_contacts a)
         else ap_contacts a),
       ap_sessions := (ap_sessions a)(sender \<mapsto> s),
       ap_conversations := put_if_absent sender [] (ap_conversations a)\<rparr>"

definition app_handle_incoming :: "'c app_env \<Rightarrow> app_rng \<Rightarrow> 'w app_transport \<Rightarrow> int \<Rightarrow> bytes \<Rightarrow> app \<Rightarrow> 'w
    \<Rightarrow> (dart_error + bool) \<times> app \<times> 'w" where
  "app_handle_incoming E r t now raw a w =
     (case open_envelope (ae_crypto E) (ap_account a) raw of
        Inl _ \<Rightarrow> (Inr False, a, w)
      | Inr opened \<Rightarrow>
          (let sender = hex (sender_identity_ed opened)
           in case message_decode (ae_message E) (payload opened) of
                Inl _ \<Rightarrow> (Inr False, a, w)
              | Inr m \<Rightarrow>
                  (case ap_sessions a sender of
                     Some existing \<Rightarrow>
                       (case session_decrypt (ae_crypto E) (cd_header (ae_codecs E)) (ar_ratchet r) existing m of
                          (Inl _, s') \<Rightarrow> (Inr False, a\<lparr>ap_sessions := (ap_sessions a)(sender \<mapsto> s')\<rparr>, w)
                        | (Inr plain, s') \<Rightarrow>
                            (case show_content E now sender (content_decode (ae_dart E) plain)
                                (persist_contacts E (persist_session E sender (a\<lparr>ap_sessions := (ap_sessions a)(sender \<mapsto> s')\<rparr>))) of
                               (res, a') \<Rightarrow> (res, a', w)))
                   | None \<Rightarrow>
                       (case session_respond (ae_crypto E) (cd_header (ae_codecs E)) (ar_ratchet r) (ap_account a) m of
                          (Inl _, acct) \<Rightarrow> (Inr False, a\<lparr>ap_account := acct\<rparr>, w)
                        | (Inr (s, first), acct) \<Rightarrow>
                            (case maybe_replenish_prekeys E (ar_opk r) t (accept_sender sender opened s (a\<lparr>ap_account := acct\<rparr>)) w of
                               (a1, w1) \<Rightarrow>
                                 (case show_content E now sender (content_decode (ae_dart E) first)
                                     (persist_contacts E (persist_session E sender a1)) of
                                    (res, a') \<Rightarrow> (res, a', w1)))))))"

text \<open>The envelopes of one poll; an exception other than a \<open>ClarityException\<close> leaves the loop.\<close>

fun handle_all :: "'c app_env \<Rightarrow> (nat \<Rightarrow> app_rng) \<Rightarrow> 'w app_transport \<Rightarrow> int \<Rightarrow> bytes list \<Rightarrow> app \<Rightarrow> 'w
    \<Rightarrow> (dart_error + unit) \<times> app \<times> 'w" where
  "handle_all E r t now [] a w = (Inr (), a, w)"
| "handle_all E r t now (raw # raws) a w =
     (case app_handle_incoming E (r 0) t now raw a w of
        (Inl e, a1, w1) \<Rightarrow> (Inl e, a1, w1)
      | (Inr _, a1, w1) \<Rightarrow> handle_all E (r \<circ> Suc) t now raws a1 w1)"

definition window_from :: "int option \<Rightarrow> int \<Rightarrow> int" where
  "window_from prev current =
     (let from1 = max 0 ((case prev of None \<Rightarrow> current | Some l \<Rightarrow> l) - 1)
      in if current + 1 - from1 \<ge> MAX_POLL_EPOCHS then current + 1 - MAX_POLL_EPOCHS else from1)"

definition poll_window :: "int option \<Rightarrow> int \<Rightarrow> int list" where
  "poll_window prev current = [window_from prev current..current + 1]"

definition poll_once :: "'c app_env \<Rightarrow> (nat \<Rightarrow> app_rng) \<Rightarrow> 'w app_transport \<Rightarrow> int \<Rightarrow> app \<Rightarrow> 'w
    \<Rightarrow> (dart_error + unit) \<times> app \<times> 'w" where
  "poll_once E r t now a w = (case t of
      Relay rt \<Rightarrow>
        (let current = uint (current_epoch now);
             inboxes = map (\<lambda>e. inbox_id (ae_crypto E) (identity_public (ae_crypto E) (ap_account a)) (word_of_int e))
               (poll_window (ap_last_poll a) current)
         in case poll_many (ae_web E) rt inboxes w of
              (Inl _, w1) \<Rightarrow> (Inr (), a, w1)
            | (Inr envelopes, w1) \<Rightarrow>
                handle_all E r t now envelopes
                  (if ap_last_poll a \<noteq> Some current
                   then storage_write Last_Poll_Key (Number_Text current) (a\<lparr>ap_last_poll := Some current\<rparr>) else a) w1)
    | _ \<Rightarrow> (Inr (), a, w))"

section \<open>Restart\<close>

text \<open>\<open>None\<close> is the exception of a cast or of a decoder on an entry that was not written by the application.\<close>

definition json_contact :: "dart_codec \<Rightarrow> json \<Rightarrow> app_contact option" where
  "json_contact D j = (case j of
      JMap m \<Rightarrow>
        (case (map_of m ''identity'', map_of m ''identityDh'', map_of m ''name'', map_of m ''verified'', cast_int (map_of m ''retention'')) of
           (Some (JString i64), Some (JString dh64), Some (JString name), v, Some retention) \<Rightarrow>
             (case (dc_unbase64 D i64, dc_unbase64 D dh64, v) of
                (Some ib, Some dhb, Some (JBool b)) \<Rightarrow> Some \<lparr>ac_identity = ib, ac_identity_dh = dhb, ac_display_name = name,
                   ac_verified = b, ac_retention = retention\<rparr>
              | (Some ib, Some dhb, None) \<Rightarrow> Some \<lparr>ac_identity = ib, ac_identity_dh = dhb, ac_display_name = name,
                   ac_verified = False, ac_retention = retention\<rparr>
              | (Some ib, Some dhb, Some JNull) \<Rightarrow> Some \<lparr>ac_identity = ib, ac_identity_dh = dhb, ac_display_name = name,
                   ac_verified = False, ac_retention = retention\<rparr>
              | _ \<Rightarrow> None)
         | _ \<Rightarrow> None)
    | _ \<Rightarrow> None)"

definition json_message :: "json \<Rightarrow> chat_message option" where
  "json_message j = (case j of
      JMap m \<Rightarrow> (case (map_of m ''t'', map_of m ''ts'') of
          (Some (JString txt), Some (JInt ts)) \<Rightarrow>
            if \<bar>ts * 1000\<bar> > MAX_INSTANT then None
            else Some \<lparr>cm_direction = (if map_of m ''d'' = Some (JString ''out'') then Outgoing
                    else if map_of m ''d'' = Some (JString ''info'') then Info else Incoming),
                  cm_text = txt, cm_timestamp = ts * 1000\<rparr>
        | _ \<Rightarrow> None)
    | _ \<Rightarrow> None)"

definition json_list :: "(json \<Rightarrow> 'a option) \<Rightarrow> json \<Rightarrow> 'a list option" where
  "json_list f j = (case j of JList js \<Rightarrow> those (map f js) | _ \<Rightarrow> None)"

definition restore_history :: "string \<Rightarrow> app \<Rightarrow> app option" where
  "restore_history cid a = (case ap_storage a (History_Key cid) of
      None \<Rightarrow> Some a
    | Some (Json_Text j) \<Rightarrow> map_option (\<lambda>ms. a\<lparr>ap_conversations := (ap_conversations a)(cid \<mapsto> ms)\<rparr>) (json_list json_message j)
    | Some _ \<Rightarrow> None)"

definition restore_session :: "'c app_env \<Rightarrow> string \<Rightarrow> app \<Rightarrow> app" where
  "restore_session E cid a = (case ap_storage a (Session_Key cid) of
      Some (Base64_Text bs) \<Rightarrow> (case session_deserialize (cd_ratchet (ae_codecs E)) (cd_session (ae_codecs E)) bs of
          Inl _ \<Rightarrow> a
        | Inr s \<Rightarrow> a\<lparr>ap_sessions := (ap_sessions a)(cid \<mapsto> s)\<rparr>)
    | _ \<Rightarrow> a)"

primrec restore_contacts :: "'c app_env \<Rightarrow> app_contact list \<Rightarrow> app \<Rightarrow> app option" where
  "restore_contacts E [] a = Some a"
| "restore_contacts E (c # cs) a =
     (case restore_history (contact_id c) (a\<lparr>ap_contacts := AList.update (contact_id c) c (ap_contacts a),
          ap_conversations := put_if_absent (contact_id c) [] (ap_conversations a)\<rparr>) of
        None \<Rightarrow> None
      | Some a1 \<Rightarrow> restore_contacts E cs (restore_session E (contact_id c) a1))"

definition restore_contacts_and_sessions :: "'c app_env \<Rightarrow> app \<Rightarrow> app option" where
  "restore_contacts_and_sessions E a =
     (let a1 = a\<lparr>ap_last_poll := (case ap_storage a Last_Poll_Key of Some (Number_Text i) \<Rightarrow> Some i | _ \<Rightarrow> None)\<rparr>
      in case ap_storage a Contacts_Key of
           None \<Rightarrow> Some a1
         | Some (Json_Text j) \<Rightarrow> (case json_list (json_contact (ae_dart E)) j of
             None \<Rightarrow> None | Some cs \<Rightarrow> restore_contacts E cs a1)
         | Some _ \<Rightarrow> None)"

text \<open>The state of a new process, which has only its storage.\<close>

definition fresh_app :: "account \<Rightarrow> storage \<Rightarrow> app" where
  "fresh_app acct st = \<lparr>ap_account = acct, ap_last_poll = None, ap_contacts = [], ap_sessions = Map.empty,
     ap_conversations = Map.empty, ap_storage = st\<rparr>"

definition load_account :: "'c app_env \<Rightarrow> app_rng \<Rightarrow> storage \<Rightarrow> dart_error + app" where
  "load_account E r st = (case st Account_Key of
      Some (Base64_Text bs) \<Rightarrow> (case account_from_bytes (ae_crypto E) (cd_account (ae_codecs E)) bs of
          Inl _ \<Rightarrow> Inl Clarity_Exception | Inr acct \<Rightarrow> Inr (fresh_app acct st))
    | Some _ \<Rightarrow> Inl Type_Error
    | None \<Rightarrow> Inr (persist_account E (fresh_app (generate_account (ae_crypto E) (ar_account r)) st)))"

definition start_transport :: "'c app_env \<Rightarrow> app_rng \<Rightarrow> 'w app_transport \<Rightarrow> app \<Rightarrow> 'w \<Rightarrow> app \<times> 'w" where
  "start_transport E r t a w = (case t of
      Relay _ \<Rightarrow> maybe_replenish_prekeys E (ar_opk r) t a (publish_bundle E t a w)
    | _ \<Rightarrow> (a, w))"

definition initialize :: "'c app_env \<Rightarrow> app_rng \<Rightarrow> 'w app_transport \<Rightarrow> int \<Rightarrow> storage \<Rightarrow> 'w
    \<Rightarrow> (dart_error + app) \<times> 'w" where
  "initialize E r t now st w =
     (case load_account E r st of
        Inl e \<Rightarrow> (Inl e, w)
      | Inr a \<Rightarrow> (case restore_contacts_and_sessions E a of
          None \<Rightarrow> (Inl Type_Error, w)
        | Some a1 \<Rightarrow> (case sweep_expired_messages now a1 of
            (Inl e, _) \<Rightarrow> (Inl e, w)
          | (Inr _, a2) \<Rightarrow> (case start_transport E r t a2 w of (a3, w1) \<Rightarrow> (Inr a3, w1)))))"

end
