(* ===== verification/App_Saved.thy ===== *)
theory App_Saved
  imports App
begin

text \<open>
  The storage of the application keeps up with its memory. \<open>app_saved\<close> says that the contacts, the conversations and the
  poll position in storage are those in memory, that every contact has a conversation, and that every session has a
  saved state. Every operation of \<open>AppState\<close> keeps it, also when it fails half way. The account is not covered, and
  neither is the exact state of a session; theory \<open>App_Restart\<close> shows what that costs.
\<close>

section \<open>What each write changes\<close>

lemma storage_write_fields [simp]:
  "ap_account (storage_write k v a) = ap_account a" "ap_last_poll (storage_write k v a) = ap_last_poll a"
  "ap_contacts (storage_write k v a) = ap_contacts a" "ap_sessions (storage_write k v a) = ap_sessions a"
  "ap_conversations (storage_write k v a) = ap_conversations a" "ap_storage (storage_write k v a) = (ap_storage a)(k \<mapsto> v)"
  by (simp_all add: storage_write_def)

lemma persist_session_fields [simp]:
  "ap_account (persist_session E k a) = ap_account a" "ap_last_poll (persist_session E k a) = ap_last_poll a"
  "ap_contacts (persist_session E k a) = ap_contacts a" "ap_sessions (persist_session E k a) = ap_sessions a"
  "ap_conversations (persist_session E k a) = ap_conversations a"
  by (simp_all add: persist_session_def split: option.split)

lemma persist_history_fields [simp]:
  "ap_account (persist_history k a) = ap_account a" "ap_last_poll (persist_history k a) = ap_last_poll a"
  "ap_contacts (persist_history k a) = ap_contacts a" "ap_sessions (persist_history k a) = ap_sessions a"
  "ap_conversations (persist_history k a) = ap_conversations a"
  by (simp_all add: persist_history_def split: option.split list.split)

lemma persist_contacts_fields [simp]:
  "ap_account (persist_contacts E a) = ap_account a" "ap_last_poll (persist_contacts E a) = ap_last_poll a"
  "ap_contacts (persist_contacts E a) = ap_contacts a" "ap_sessions (persist_contacts E a) = ap_sessions a"
  "ap_conversations (persist_contacts E a) = ap_conversations a"
  by (simp_all add: persist_contacts_def)

text \<open>The text of a conversation in storage; an empty one has none.\<close>

definition saved_history :: "chat_message list option \<Rightarrow> stored_value option" where
  "saved_history ms = (case ms of None \<Rightarrow> None | Some [] \<Rightarrow> None | Some ms \<Rightarrow> Some (Json_Text (JList (map message_json ms))))"

definition saved_session :: "'c app_env \<Rightarrow> session \<Rightarrow> stored_value" where
  "saved_session E s = Base64_Text (session_serialize (cd_ratchet (ae_codecs E)) (cd_session (ae_codecs E)) s)"

definition saved_contacts :: "'c app_env \<Rightarrow> (string \<times> app_contact) list \<Rightarrow> stored_value" where
  "saved_contacts E cs = Json_Text (JList (map (contact_json (ae_dart E) \<circ> snd) cs))"

lemma persist_storage [simp]:
  "ap_storage (persist_history k a) = (ap_storage a)(History_Key k := saved_history (ap_conversations a k))"
  "ap_storage (persist_session E k a) = (case ap_sessions a k of None \<Rightarrow> ap_storage a
     | Some s \<Rightarrow> (ap_storage a)(Session_Key k \<mapsto> saved_session E s))"
  "ap_storage (persist_contacts E a) = (ap_storage a)(Contacts_Key \<mapsto> saved_contacts E (ap_contacts a))"
  by (simp_all add: persist_history_def persist_session_def persist_contacts_def saved_history_def saved_session_def
      saved_contacts_def split: option.split list.split)

section \<open>The invariant\<close>

definition keys_ok :: "app \<Rightarrow> bool" where
  "keys_ok a \<longleftrightarrow> distinct (map fst (ap_contacts a)) \<and> (\<forall>(k, c)\<in>set (ap_contacts a). k = contact_id c) \<and>
     dom (ap_conversations a) = fst ` set (ap_contacts a) \<and> dom (ap_sessions a) \<subseteq> fst ` set (ap_contacts a)"

definition contacts_saved :: "'c app_env \<Rightarrow> app \<Rightarrow> bool" where
  "contacts_saved E a \<longleftrightarrow> ap_storage a Contacts_Key = Some (saved_contacts E (ap_contacts a)) \<or>
     ap_contacts a = [] \<and> ap_storage a Contacts_Key = None"

definition history_saved :: "app \<Rightarrow> bool" where
  "history_saved a \<longleftrightarrow> (\<forall>k. ap_storage a (History_Key k) = saved_history (ap_conversations a k))"

definition times_ok :: "app \<Rightarrow> bool" where
  "times_ok a \<longleftrightarrow> (\<forall>ms\<in>ran (ap_conversations a). \<forall>m\<in>set ms. \<bar>cm_timestamp m\<bar> \<le> MAX_INSTANT)"

definition sessions_saved :: "'c app_env \<Rightarrow> app \<Rightarrow> bool" where
  "sessions_saved E a \<longleftrightarrow> (\<forall>k. ap_sessions a k = None \<longrightarrow> ap_storage a (Session_Key k) = None) \<and>
     (\<forall>k s. ap_sessions a k = Some s \<longrightarrow> (\<exists>s'. ap_storage a (Session_Key k) = Some (saved_session E s')))"

definition poll_saved :: "app \<Rightarrow> bool" where
  "poll_saved a \<longleftrightarrow> ap_storage a Last_Poll_Key = map_option Number_Text (ap_last_poll a)"

definition app_saved :: "'c app_env \<Rightarrow> app \<Rightarrow> bool" where
  "app_saved E a \<longleftrightarrow> keys_ok a \<and> contacts_saved E a \<and> history_saved a \<and> times_ok a \<and> sessions_saved E a \<and> poll_saved a"

lemmas saved_defs = app_saved_def keys_ok_def contacts_saved_def history_saved_def times_ok_def sessions_saved_def poll_saved_def

text \<open>The account and its text are outside the invariant.\<close>

lemma saved_account [simp]: "app_saved E (a\<lparr>ap_account := acct\<rparr>) = app_saved E a" "app_saved E (persist_account E' a) = app_saved E a"
  by (simp_all add: saved_defs persist_account_def)

lemma saved_replenish: "app_saved E a \<Longrightarrow> app_saved E (fst (maybe_replenish_prekeys E draw t a w))"
  by (simp add: maybe_replenish_prekeys_def Let_def split: app_transport.split)

text \<open>A message added to a known conversation, and a conversation cut down, with the history written.\<close>

lemma saved_conversation:
  assumes "app_saved E a" "k \<in> dom (ap_conversations a)" "\<forall>m\<in>set ms. \<bar>cm_timestamp m\<bar> \<le> MAX_INSTANT"
  shows "app_saved E (persist_history k (a\<lparr>ap_conversations := (ap_conversations a)(k \<mapsto> ms)\<rparr>))"
  using assms by (auto simp: saved_defs ran_def insert_absorb split: if_splits)

lemma saved_add_message:
  assumes "app_saved E a" "k \<in> dom (ap_conversations a)" "\<bar>now\<bar> \<le> MAX_INSTANT"
  shows "app_saved E (persist_history k (add_message k d tx now a))"
proof -
  obtain ms where ms: "ap_conversations a k = Some ms" using assms(2) by blast
  then have "\<forall>m\<in>set (ms @ [\<lparr>cm_direction = d, cm_text = tx, cm_timestamp = now\<rparr>]). \<bar>cm_timestamp m\<bar> \<le> MAX_INSTANT"
    using assms(1,3) by (auto simp: app_saved_def times_ok_def ran_def)
  from saved_conversation [OF assms(1,2) this] show ?thesis by (simp add: add_message_def ms)
qed

lemma saved_sweep_contact: "app_saved E a \<Longrightarrow> app_saved E (snd (sweep_contact now c a))"
proof -
  assume a: "app_saved E a"
  have "app_saved E (persist_history k (a\<lparr>ap_conversations := (ap_conversations a)(k \<mapsto> filter P ms)\<rparr>))"
    if "ap_conversations a k = Some ms" for k ms P
    using that a by (intro saved_conversation) (auto simp: app_saved_def times_ok_def ran_def)
  from this [of "contact_id c"] show ?thesis
    using a by (simp add: sweep_contact_def Let_def del: filter.simps split: option.split list.split)
qed

lemma saved_sweep_contacts: "app_saved E a \<Longrightarrow> app_saved E (snd (sweep_contacts now cs a))"
proof (induction cs arbitrary: a)
  case (Cons c cs)
  then show ?case using saved_sweep_contact [of E a now c] by (auto split: prod.split sum.split)
qed simp

lemma saved_sweep: "sweep_expired_messages now a = (res, a') \<Longrightarrow> app_saved E a \<Longrightarrow> app_saved E a'"
  using saved_sweep_contacts [of E a now] by (metis snd_conv sweep_expired_messages_def)

text \<open>A contact changed in place, and a new one.\<close>

lemma update_known:
  assumes "distinct (map fst cs)" "map_of cs k = Some c"
  shows "map fst (AList.update k c' cs) = map fst cs"
  using assms by (induction cs) (auto split: if_splits)

lemma set_update: "set (AList.update k v al) \<subseteq> insert (k, v) (set al)"
  by (induction al) auto

lemma saved_update_contact:
  assumes "app_saved E a" "map_of (ap_contacts a) k = Some c" "ac_identity c' = ac_identity c"
  shows "app_saved E (persist_contacts E (a\<lparr>ap_contacts := AList.update k c' (ap_contacts a)\<rparr>))"
proof -
  have d: "distinct (map fst (ap_contacts a))" using assms(1) by (simp add: app_saved_def keys_ok_def)
  have "k = contact_id c" using assms(1) map_of_SomeD [OF assms(2)] by (auto simp: app_saved_def keys_ok_def)
  then have "k = contact_id c'" by (simp add: contact_id_def assms(3))
  moreover have "fst ` set (AList.update k c' (ap_contacts a)) = fst ` set (ap_contacts a)"
    using update_known [OF d assms(2)] by (metis list.set_map)
  ultimately show ?thesis
    using assms(1) update_known [OF d assms(2), of c'] set_update [of k c' "ap_contacts a"] by (auto simp: saved_defs)
qed

text \<open>A session that was stored before keeps the storage in step, whatever its state in memory.\<close>

lemma saved_session_state:
  "app_saved E a \<Longrightarrow> ap_sessions a k \<noteq> None \<Longrightarrow> app_saved E (a\<lparr>ap_sessions := (ap_sessions a)(k \<mapsto> s)\<rparr>)"
  by (auto simp: saved_defs dom_def)

lemma saved_persist_session: "app_saved E a \<Longrightarrow> app_saved E (persist_session E k a)"
  by (auto simp: saved_defs split: option.split)

lemma saved_persist_contacts: "app_saved E a \<Longrightarrow> app_saved E (persist_contacts E a)"
  by (auto simp: saved_defs)

lemma update_contacts:
  assumes "distinct (map fst cs)" "\<forall>(k, c)\<in>set cs. k = contact_id c"
  shows "distinct (map fst (AList.update (contact_id c) c cs))" "\<forall>(k, c)\<in>set (AList.update (contact_id c) c cs). k = contact_id c"
    "fst ` set (AList.update (contact_id c) c cs) = insert (contact_id c) (fst ` set cs)"
  using assms(2) AList.distinct_update [OF assms(1)] dom_update [of "contact_id c" c cs]
    set_update [of "contact_id c" c cs] by auto

lemma dom_put_if_absent: "dom (put_if_absent k v m) = insert k (dom m)"
  by (auto simp: put_if_absent_def dom_def)

lemma saved_history_absent: "saved_history (put_if_absent k [] m j) = saved_history (m j)"
  by (simp add: put_if_absent_def saved_history_def)

lemma ran_put_if_absent: "ran (put_if_absent k [] m) \<subseteq> insert [] (ran m)"
  by (auto simp: put_if_absent_def ran_def split: if_splits)

text \<open>A contact with its session: new, or put in the place of an old one.\<close>

lemma saved_new_contact:
  assumes a: "app_saved E a" and cs: "distinct (map fst cs)" "\<forall>(k, c)\<in>set cs. k = contact_id c" "fst ` set cs = insert k (fst ` set (ap_contacts a))"
  shows "app_saved E (persist_contacts E (persist_session E k (a\<lparr>ap_contacts := cs, ap_sessions := (ap_sessions a)(k \<mapsto> s),
    ap_conversations := put_if_absent k [] (ap_conversations a)\<rparr>)))"
  using a cs ran_put_if_absent [of k "ap_conversations a"]
  by (auto simp: saved_defs dom_put_if_absent saved_history_absent)

section \<open>Every operation keeps it\<close>

lemma saved_append_info:
  "app_saved E a \<Longrightarrow> k \<in> dom (ap_conversations a) \<Longrightarrow> \<bar>now\<bar> \<le> MAX_INSTANT \<Longrightarrow> app_saved E (append_info now k tx a)"
  by (simp add: append_info_def saved_add_message)

lemma contact_has_conversation:
  "app_saved E a \<Longrightarrow> map_of (ap_contacts a) k = Some c \<Longrightarrow> k \<in> dom (ap_conversations a)"
  by (auto simp: app_saved_def keys_ok_def dest!: map_of_SomeD intro: rev_image_eqI)

lemma session_has_conversation: "app_saved E a \<Longrightarrow> ap_sessions a k = Some s \<Longrightarrow> k \<in> dom (ap_conversations a)"
  by (auto simp: app_saved_def keys_ok_def)

lemma saved_send_content: "app_saved E a \<Longrightarrow> app_saved E (fst (snd (send_content E r t now k c a w)))"
  by (auto simp: send_content_def Let_def saved_session_state saved_persist_session
      split: option.split prod.split sum.split)

lemma send_content_keeps [simp]:
  "ap_conversations (fst (snd (send_content E r t now k c a w))) = ap_conversations a"
  "ap_contacts (fst (snd (send_content E r t now k c a w))) = ap_contacts a"
  by (auto simp: send_content_def Let_def split: option.split prod.split sum.split)

lemma saved_send_message:
  assumes "app_saved E a" "\<bar>now\<bar> \<le> MAX_INSTANT"
  shows "app_saved E (fst (snd (send_message E r t now k tx a w)))"
  using saved_send_content [OF assms(1), of r t now k "TextContent tx" w] assms(2)
  by (auto simp: send_message_def intro!: saved_add_message split: prod.split sum.split)

lemma saved_set_retention:
  assumes "app_saved E a" "\<bar>now\<bar> \<le> MAX_INSTANT"
  shows "app_saved E (fst (snd (set_retention E r t now k secs a w)))"
proof (cases "map_of (ap_contacts a) k")
  case (Some c)
  let ?a = "persist_contacts E (a\<lparr>ap_contacts := AList.update k (c\<lparr>ac_retention := secs\<rparr>) (ap_contacts a)\<rparr>)"
  have a: "app_saved E ?a" by (rule saved_update_contact [OF assms(1) Some]) simp
  obtain res a2 w1 where sent: "send_content E r t now k (TimerUpdateContent secs) ?a w = (res, a2, w1)" by (metis prod_cases3)
  have "app_saved E a2" "ap_conversations a2 = ap_conversations a"
    using saved_send_content [OF a, of r t now k "TimerUpdateContent secs" w]
      send_content_keeps(1) [of E r t now k "TimerUpdateContent secs" ?a w] sent by simp_all
  then have "app_saved E (append_info now k tx a2)" for tx
    using saved_append_info contact_has_conversation [OF assms(1) Some] assms(2) by metis
  then show ?thesis
    using a sent \<open>app_saved E a2\<close>
    by (auto simp: set_retention_def Some Let_def dest: saved_sweep split: sum.split prod.split)
qed (simp add: set_retention_def assms(1))

lemma saved_mark_verified: "app_saved E a \<Longrightarrow> app_saved E (mark_verified E k a)"
  by (auto simp: mark_verified_def saved_persist_contacts intro!: saved_update_contact split: option.split)

lemma saved_add_contact:
  assumes "app_saved E a"
  shows "app_saved E (fst (snd (add_contact E r t i name a w)))"
proof -
  have "distinct (map fst (ap_contacts a))" "\<forall>(k, c)\<in>set (ap_contacts a). k = contact_id c"
    using assms by (simp_all add: app_saved_def keys_ok_def)
  note new = saved_new_contact [OF assms update_contacts [OF this]]
  show ?thesis
    using assms new by (auto simp: add_contact_def Let_def split: app_transport.split prod.split sum.split option.split)
qed

lemma saved_show_content:
  assumes "app_saved E a" "k \<in> dom (ap_conversations a)" "\<bar>now\<bar> \<le> MAX_INSTANT"
  shows "app_saved E (snd (show_content E now k c a))"
proof (cases c)
  case (TextContent body)
  then show ?thesis by (simp add: show_content_def saved_add_message [OF assms])
next
  case (TimerUpdateContent secs)
  have "app_saved E (append_info now k tx
      (persist_contacts E (a\<lparr>ap_contacts := AList.update k (c\<lparr>ac_retention := secs\<rparr>) (ap_contacts a)\<rparr>)))"
    if "map_of (ap_contacts a) k = Some c" for c tx
    using saved_update_contact [OF assms(1) that] assms(2,3) by (simp add: saved_append_info)
  then show ?thesis
    using assms(1) by (auto simp: show_content_def TimerUpdateContent Let_def dest: saved_sweep split: option.split prod.split sum.split)
qed (simp add: show_content_def assms(1))

lemma saved_accept:
  assumes "app_saved E a" "k = hex (sender_identity_ed o1)"
  shows "app_saved E (persist_contacts E (persist_session E k (accept_sender k o1 s a)))"
proof -
  have cs: "distinct (map fst (ap_contacts a))" "\<forall>(k, c)\<in>set (ap_contacts a). k = contact_id c"
    using assms(1) by (simp_all add: app_saved_def keys_ok_def)
  let ?c = "\<lparr>ac_identity = sender_identity_ed o1, ac_identity_dh = sender_identity_dh o1,
    ac_display_name = short_id (sender_identity_ed o1), ac_verified = False, ac_retention = None\<rparr>"
  have k: "contact_id ?c = k" by (simp add: contact_id_def assms(2))
  have "k \<in> fst ` set (ap_contacts a)" if "map_of (ap_contacts a) k \<noteq> None"
    using that by (metis map_of_eq_None_iff)
  then show ?thesis
    using saved_new_contact [OF assms(1) cs, of k s] saved_new_contact [OF assms(1) update_contacts [OF cs, of ?c, unfolded k], of s]
    by (auto simp: accept_sender_def insert_absorb)
qed

lemma saved_then_replenish:
  assumes "app_saved E (persist_contacts E (persist_session E k a))" "maybe_replenish_prekeys E draw t a w = (a', w')"
  shows "app_saved E (persist_contacts E (persist_session E k a'))"
proof -
  have "app_saved E (persist_contacts E (persist_session E k (persist_account E (a\<lparr>ap_account := x\<rparr>)))) =
      app_saved E (persist_contacts E (persist_session E k a))" for x
    by (simp add: saved_defs persist_account_def split: option.split)
  then show ?thesis
    using assms by (auto simp: maybe_replenish_prekeys_def Let_def split: app_transport.splits if_splits)
qed

lemma replenish_keeps:
  assumes "maybe_replenish_prekeys E draw t a w = (a', w')"
  shows "ap_conversations a' = ap_conversations a" "ap_contacts a' = ap_contacts a" "ap_sessions a' = ap_sessions a"
    "ap_last_poll a' = ap_last_poll a"
  using assms by (auto simp: maybe_replenish_prekeys_def persist_account_def Let_def split: app_transport.splits if_splits)

lemma saved_handle_incoming:
  assumes "app_saved E a" "\<bar>now\<bar> \<le> MAX_INSTANT"
  shows "app_saved E (fst (snd (app_handle_incoming E r t now raw a w)))"
proof -
  have old: "app_saved E (snd (show_content E now k c (persist_contacts E (persist_session E k (a\<lparr>ap_sessions := (ap_sessions a)(k \<mapsto> s')\<rparr>)))))"
    if "ap_sessions a k = Some s" for k s s' c
    using that session_has_conversation [OF assms(1) that] assms
    by (intro saved_show_content) (auto simp: saved_persist_contacts saved_persist_session saved_session_state)
  have new: "app_saved E (snd (show_content E now k c (persist_contacts E (persist_session E k a1))))"
    if "k = hex (sender_identity_ed o1)" "maybe_replenish_prekeys E draw t (accept_sender k o1 s (a\<lparr>ap_account := x\<rparr>)) w = (a1, w1)"
    for k o1 draw s x a1 w1 c
    using saved_then_replenish [OF _ that(2)] saved_accept [OF _ that(1), of E "a\<lparr>ap_account := x\<rparr>" s] assms replenish_keeps(1) [OF that(2)]
    by (intro saved_show_content) (auto simp: accept_sender_def dom_put_if_absent)
  show ?thesis
    using assms(1) old new
    by (auto simp: app_handle_incoming_def Let_def saved_session_state split: sum.split prod.split option.split) (metis snd_conv)+
qed

lemma saved_handle_all:
  "app_saved E a \<Longrightarrow> \<bar>now\<bar> \<le> MAX_INSTANT \<Longrightarrow> app_saved E (fst (snd (handle_all E r t now raws a w)))"
proof (induction raws arbitrary: r a w)
  case (Cons raw raws)
  then show ?case
    using saved_handle_incoming [OF Cons.prems, of "r 0" t raw w] by (auto split: prod.split sum.split)
qed simp

lemma saved_poll_once:
  assumes "app_saved E a" "\<bar>now\<bar> \<le> MAX_INSTANT"
  shows "app_saved E (fst (snd (poll_once E r t now a w)))"
proof -
  have "app_saved E (storage_write Last_Poll_Key (Number_Text x) (a\<lparr>ap_last_poll := Some x\<rparr>))" for x
    using assms(1) by (simp add: saved_defs)
  then show ?thesis
    using assms by (auto simp: poll_once_def Let_def intro!: saved_handle_all split: app_transport.split prod.split sum.split)
qed

end
