(* ===== verification/App_Account.thy ===== *)
theory App_Account
  imports App_Saved
begin

text \<open>
  What the application does to its account. Only the pool of one-time prekeys ever changes (a first message takes one,
  \<open>_maybeReplenishPrekeys\<close> mints more), and what is in the storage under the account's key is always the text of an
  account with the same long-term keys. So the stored account stays readable, although its pool may be an old one.
\<close>

section \<open>Accounts that differ in their one-time prekeys\<close>

definition same_keys :: "account \<Rightarrow> account \<Rightarrow> bool" where
  "same_keys x y \<longleftrightarrow> ed_signing x = ed_signing y \<and> dh_identity x = dh_identity y \<and> signed_prekey_id x = signed_prekey_id y \<and>
     signed_prekey_secret x = signed_prekey_secret y \<and> kyber_prekey_id x = kyber_prekey_id y \<and> kyber x = kyber y"

lemma same_keys_refl [simp, intro]: "same_keys x x"
  by (simp add: same_keys_def)

lemma same_keys_trans: "same_keys x y \<Longrightarrow> same_keys y z \<Longrightarrow> same_keys x z"
  by (simp add: same_keys_def)

lemma same_keys_sym: "same_keys x y \<Longrightarrow> same_keys y x"
  by (simp add: same_keys_def)

lemma same_keys_identity: "same_keys x y \<Longrightarrow> identity_public C x = identity_public C y"
  by (simp add: same_keys_def identity_public_def)

lemma same_keys_replenish_loop: "same_keys x (snd (replenish_loop draw k ids x))"
proof (induction k arbitrary: ids x)
  case (Suc k)
  have "same_keys x (x\<lparr>next_opk_id := next_opk_id x + 1, one_time_prekeys := fmupd (next_opk_id x) (draw k) (one_time_prekeys x)\<rparr>)"
    by (simp add: same_keys_def)
  from same_keys_trans [OF this Suc.IH] show ?case by (simp add: Let_def)
qed simp

lemma same_keys_consume: "same_keys x (snd (consume_one_time x pid))"
  by (auto simp: consume_one_time_def take_one_time_prekey_def same_keys_def split: option.split prod.split sum.split)

lemma same_keys_handshake: "same_keys x (snd (handshake_respond C x hs))"
  using same_keys_consume [of x "hh_one_time_prekey_id hs"]
  by (auto simp: handshake_respond_def Let_def split: option.split prod.split sum.split)

lemma same_keys_respond: "same_keys x (snd (session_respond C S new x m))"
proof (cases m)
  case (PreKey hs header ciphertext)
  then show ?thesis
    using same_keys_handshake [of x C hs]
    by (auto simp: session_respond_def Let_def split: prod.split sum.split)
qed (simp add: session_respond_def)

section \<open>Every operation keeps the account readable\<close>

definition account_text :: "'c app_env \<Rightarrow> account \<Rightarrow> stored_value" where
  "account_text E x = Base64_Text (account_to_bytes (cd_account (ae_codecs E)) x)"

definition account_kept :: "'c app_env \<Rightarrow> app \<Rightarrow> app \<Rightarrow> bool" where
  "account_kept E a a' \<longleftrightarrow> same_keys (ap_account a) (ap_account a') \<and>
     (ap_storage a' Account_Key = ap_storage a Account_Key \<or>
      (\<exists>x. same_keys (ap_account a) x \<and> ap_storage a' Account_Key = Some (account_text E x)))"

lemma account_kept_trans: "account_kept E a b \<Longrightarrow> account_kept E b c \<Longrightarrow> account_kept E a c"
  unfolding account_kept_def by (metis same_keys_trans)

lemma account_kept_same [intro]:
  "ap_account a' = ap_account a \<Longrightarrow> ap_storage a' Account_Key = ap_storage a Account_Key \<Longrightarrow> account_kept E a a'"
  by (simp add: account_kept_def)

lemma account_kept_refl: "account_kept E a a"
  by auto

lemma account_kept_add_message [simp]:
  "account_kept E a (persist_history k (add_message k d tx now b)) = account_kept E a b"
  "account_kept E a (append_info now k tx b) = account_kept E a b"
  by (simp_all add: account_kept_def append_info_def add_message_def)

lemma account_kept_writes [simp]:
  "account_kept E a (persist_contacts E' b) = account_kept E a b" "account_kept E a (persist_session E' k b) = account_kept E a b"
  "account_kept E a (b\<lparr>ap_contacts := cs\<rparr>) = account_kept E a b" "account_kept E a (b\<lparr>ap_sessions := ss\<rparr>) = account_kept E a b"
  "account_kept E a (b\<lparr>ap_conversations := vs\<rparr>) = account_kept E a b"
  "account_kept E a (storage_write Last_Poll_Key v b) = account_kept E a b" "account_kept E a (b\<lparr>ap_last_poll := p\<rparr>) = account_kept E a b"
  by (simp_all add: account_kept_def split: option.split)

lemma account_kept_sweep_contacts: "account_kept E a (snd (sweep_contacts now cs a))"
proof (induction cs arbitrary: a)
  case (Cons c cs)
  have "account_kept E a (snd (sweep_contact now c a))"
    by (auto simp: sweep_contact_def account_kept_def Let_def split: option.split list.split)
  then show ?case using account_kept_trans Cons.IH by (fastforce split: prod.split sum.split)
qed auto

lemma account_kept_sweep: "sweep_expired_messages now b = (res, a') \<Longrightarrow> account_kept E a b \<Longrightarrow> account_kept E a a'"
  using account_kept_sweep_contacts [of E b now] by (metis account_kept_trans snd_conv sweep_expired_messages_def)

lemma account_kept_replenish:
  assumes "maybe_replenish_prekeys E draw t b w = (a', w')" "account_kept E a b"
  shows "account_kept E a a'"
proof -
  have "account_kept E b (persist_account E (b\<lparr>ap_account := snd (replenish_one_time_prekeys draw (ap_account b) n)\<rparr>))" for n
    using same_keys_replenish_loop [of "ap_account b" draw "unat n" "[]"]
    by (auto simp: account_kept_def persist_account_def account_text_def replenish_one_time_prekeys_def)
  with assms show ?thesis
    by (auto simp: maybe_replenish_prekeys_def Let_def intro: account_kept_trans split: app_transport.splits if_splits)
qed

lemma account_kept_send_content: "account_kept E a (fst (snd (send_content E r t now k c a w)))"
  by (auto simp: send_content_def Let_def split: option.split prod.split sum.split)

lemma account_kept_send_message: "account_kept E a (fst (snd (send_message E r t now k tx a w)))"
  using account_kept_send_content [of E a r t now k "TextContent tx" w]
  by (auto simp: send_message_def split: prod.split sum.split)

lemma account_kept_set_retention: "account_kept E a (fst (snd (set_retention E r t now k secs a w)))"
proof (cases "map_of (ap_contacts a) k")
  case (Some c)
  let ?a = "persist_contacts E (a\<lparr>ap_contacts := AList.update k (c\<lparr>ac_retention := secs\<rparr>) (ap_contacts a)\<rparr>)"
  obtain res a2 w1 where sent: "send_content E r t now k (TimerUpdateContent secs) ?a w = (res, a2, w1)" by (metis prod_cases3)
  have a: "account_kept E a ?a" by auto
  then have "account_kept E a a2"
    using account_kept_send_content [of E ?a r t now k "TimerUpdateContent secs" w] sent account_kept_trans by (metis fst_conv snd_conv)
  then show ?thesis
    using a sent by (auto simp: set_retention_def Some Let_def elim!: account_kept_sweep split: sum.split prod.split)
qed (auto simp: set_retention_def)

lemma account_kept_mark_verified: "account_kept E a (mark_verified E k a)"
  by (auto simp: mark_verified_def split: option.split)

lemma account_kept_add_contact: "account_kept E a (fst (snd (add_contact E r t i name a w)))"
  by (auto simp: add_contact_def Let_def account_kept_def split: app_transport.split prod.split sum.split option.split)

lemma account_kept_show_content: "account_kept E a b \<Longrightarrow> account_kept E a (snd (show_content E now k c b))"
  by (auto simp: show_content_def Let_def dest: account_kept_sweep split: message_content.split option.split prod.split sum.split)

lemma account_kept_handle_incoming: "account_kept E a (fst (snd (app_handle_incoming E r t now raw a w)))"
proof -
  have old: "account_kept E a (a\<lparr>ap_sessions := ss\<rparr>)" for ss by auto
  have spent: "account_kept E a (a\<lparr>ap_account := x\<rparr>)"
    if "session_respond (ae_crypto E) S new (ap_account a) m = (res, x)" for S new m res x
    using same_keys_respond [of "ap_account a" "ae_crypto E" S new m] that by (simp add: account_kept_def)
  have new: "account_kept E a (snd (show_content E now k c (persist_contacts E (persist_session E k a1))))"
    if "session_respond (ae_crypto E) S new (ap_account a) m = (res, x)"
      "maybe_replenish_prekeys E draw t (accept_sender k o1 s (a\<lparr>ap_account := x\<rparr>)) w = (a1, w1)" for S new m res x draw k o1 s a1 w1 c
  proof -
    have "account_kept E a a1"
      using account_kept_replenish [OF that(2), of a] spent [OF that(1)] by (simp add: accept_sender_def)
    then show ?thesis by (intro account_kept_show_content) simp
  qed
  have shown: "account_kept E a (snd (show_content E now k c (persist_contacts E (persist_session E k (a\<lparr>ap_sessions := ss\<rparr>)))))" for k c ss
    using old by (intro account_kept_show_content) simp
  show ?thesis
    using old [of "ap_sessions a"] spent new shown
    by (auto simp: app_handle_incoming_def Let_def split: sum.split prod.split option.split) (metis snd_conv)+
qed

lemma account_kept_handle_all: "account_kept E a (fst (snd (handle_all E r t now raws a w)))"
proof (induction raws arbitrary: r a w)
  case (Cons raw raws)
  then show ?case
    using account_kept_handle_incoming [of E a "r 0" t now raw w] account_kept_trans by (fastforce split: prod.split sum.split)
qed auto

lemma account_kept_poll_once: "account_kept E a (fst (snd (poll_once E r t now a w)))"
proof -
  have "account_kept E a (storage_write Last_Poll_Key v (a\<lparr>ap_last_poll := p\<rparr>))" "account_kept E a a" for v p by auto
  from this [THEN account_kept_trans, OF account_kept_handle_all] show ?thesis
    by (auto simp: poll_once_def Let_def split: app_transport.split prod.split sum.split)
qed

lemma account_kept_start: "start_transport E r t b w = (a', w') \<Longrightarrow> account_kept E a b \<Longrightarrow> account_kept E a a'"
  by (auto simp: start_transport_def dest: account_kept_replenish split: app_transport.splits)

section \<open>A readable account\<close>

definition account_saved :: "'c app_env \<Rightarrow> app \<Rightarrow> bool" where
  "account_saved E a \<longleftrightarrow> kyber_wf (ae_crypto E) (kyber (ap_account a)) \<and>
     (\<exists>x. same_keys (ap_account a) x \<and> ap_storage a Account_Key = Some (account_text E x))"

lemma account_saved_kept: "account_saved E a \<Longrightarrow> account_kept E a a' \<Longrightarrow> account_saved E a'"
  unfolding account_saved_def account_kept_def by (metis same_keys_def same_keys_sym same_keys_trans)

lemma stored_account_read:
  assumes "serde_ok S" "kyber_wf C (kyber x)"
  shows "account_from_bytes C S (account_to_bytes S x) = Inr x"
  using assms by (simp add: account_from_bytes_def account_to_bytes_def)

lemma saved_account_loads:
  assumes "account_saved E a" "codecs_ok (ae_codecs E)"
  obtains x where "load_account E r (ap_storage a) = Inr (fresh_app x (ap_storage a))" "same_keys (ap_account a) x"
    "account_saved E (fresh_app x (ap_storage a))"
proof -
  obtain x where x: "same_keys (ap_account a) x" "ap_storage a Account_Key = Some (account_text E x)"
    "kyber_wf (ae_crypto E) (kyber x)"
    using assms(1) unfolding account_saved_def same_keys_def by metis
  moreover have "account_from_bytes (ae_crypto E) (cd_account (ae_codecs E)) (account_to_bytes (cd_account (ae_codecs E)) x) = Inr x"
    using assms(2) by (intro stored_account_read x(3)) (simp add: codecs_ok_def)
  ultimately show thesis
    using that [of x] by (auto simp: load_account_def account_text_def account_saved_def fresh_app_def)
qed

end
