(* ===== verification/App_Flow.thy ===== *)
theory App_Flow
  imports App_Saved Impersonation
begin

text \<open>
  One message from one application to another through the relay, with the operations of \<open>AppState\<close> on both ends: add a
  contact, send, poll. The same lemmas show what an incoming first message does to the receiver, whoever made it.
\<close>

definition history :: "app \<Rightarrow> string \<Rightarrow> chat_message list" where
  "history a k = (case ap_conversations a k of None \<Rightarrow> [] | Some ms \<Rightarrow> ms)"

text \<open>The draws of the two operations \<open>add_contact\<close> and \<open>send_message\<close>, as those of one composed first message.\<close>

definition compose_rng :: "app_rng \<Rightarrow> app_rng \<Rightarrow> peer_rng" where
  "compose_rng r r' = \<lparr>pr_account = ar_account r, pr_ephemeral = ar_ephemeral r, pr_kem = ar_kem r, pr_ratchet = ar_ratchet r,
     pr_seal = ar_seal r', pr_draws = (\<lambda>_. ar_ratchet r')\<rparr>"

lemma text_encodes: "\<exists>p. content_encode D (TextContent body) = Some p"
  by (simp add: content_encode_def content_json_def)

section \<open>The sending side\<close>

lemma compose_parts:
  assumes "peer_compose C S M (compose_rng r r') self b plain = Inr (s, blob)"
  obtains s0 m where "session_initiate C (ar_ephemeral r) (ar_kem r) (ar_ratchet r) self b = Inr s0" "verify_bundle C b = Inr ()"
    "session_encrypt C S s0 plain = (Inr m, s)" "blob = seal_envelope C (ar_seal r') self (pb_identity_dh b) (message_encode M m)"
  using assms by (auto simp: peer_compose_def compose_rng_def session_initiate_def split: sum.splits prod.splits)

lemma added_contact_sends:
  fixes E :: "'c app_env"
  assumes comp: "peer_compose (ae_crypto E) (cd_header (ae_codecs E)) (ae_message E) (compose_rng r r') (ap_account a) b plain = Inr (s, blob)"
    and plain: "content_encode (ae_dart E) (TextContent body) = Some plain"
    and fetch: "net_fetch_bundle (ae_web E) rt (pb_identity_ed b) w = (Inr (Some b), w1)"
    and out: "\<And>c. ac_identity c = pb_identity_ed b \<Longrightarrow> transport_send E t now c blob w' = (Inr (), w'')"
  defines "k \<equiv> hex (pb_identity_ed b)"
  shows "\<exists>a1 a2. add_contact E r (Relay rt) (pb_identity_ed b) name a w = (Inr (), a1, w1) \<and>
    send_message E r' t now k body a1 w' = (Inr (), a2, w'') \<and>
    ap_sessions a2 k = Some s \<and> ap_storage a2 (Session_Key k) = Some (saved_session E s) \<and>
    ap_account a2 = ap_account a \<and> ap_storage a2 Account_Key = ap_storage a Account_Key \<and>
    ap_contacts a2 = AList.update k \<lparr>ac_identity = pb_identity_ed b, ac_identity_dh = pb_identity_dh b, ac_display_name = name,
      ac_verified = False, ac_retention = None\<rparr> (ap_contacts a) \<and>
    ap_conversations a2 k = Some (history a k @ [\<lparr>cm_direction = Outgoing, cm_text = body, cm_timestamp = now\<rparr>])"
proof -
  obtain s0 m where P: "session_initiate (ae_crypto E) (ar_ephemeral r) (ar_kem r) (ar_ratchet r) (ap_account a) b = Inr s0"
    "verify_bundle (ae_crypto E) b = Inr ()" "session_encrypt (ae_crypto E) (cd_header (ae_codecs E)) s0 plain = (Inr m, s)"
    "blob = seal_envelope (ae_crypto E) (ar_seal r') (ap_account a) (pb_identity_dh b) (message_encode (ae_message E) m)"
    using compose_parts [OF comp] .
  let ?c = "\<lparr>ac_identity = pb_identity_ed b, ac_identity_dh = pb_identity_dh b, ac_display_name = name, ac_verified = False, ac_retention = None\<rparr>"
  let ?a1 = "persist_contacts E (persist_session E k (a\<lparr>ap_contacts := AList.update k ?c (ap_contacts a),
    ap_sessions := (ap_sessions a)(k \<mapsto> s0), ap_conversations := put_if_absent k [] (ap_conversations a)\<rparr>))"
  have add: "add_contact E r (Relay rt) (pb_identity_ed b) name a w = (Inr (), ?a1, w1)"
    by (simp add: add_contact_def fetch P(1,2) contact_id_def k_def Let_def)
  let ?a2 = "persist_session E k (?a1\<lparr>ap_sessions := (ap_sessions ?a1)(k \<mapsto> s)\<rparr>)"
  have "send_content E r' t now k (TextContent body) ?a1 w' = (Inr (), ?a2, w'')"
    using out [of ?c] by (simp add: send_content_def update_conv' plain P(3,4) Let_def)
  moreover have "ap_conversations ?a1 k = Some (history a k)" by (simp add: put_if_absent_def history_def split: option.split)
  ultimately show ?thesis
    by (intro exI [of _ ?a1] exI [of _ "persist_history k (add_message k Outgoing body now ?a2)"] conjI add)
      (simp_all add: send_message_def add_message_def)
qed

lemma relay_takes:
  "ac_identity c = i \<Longrightarrow> transport_send E (Relay rt) now c blob w =
    (Inr (), snd (net_send (ae_web E) rt (inbox_id (ae_crypto E) i (current_epoch now)) blob w))"
  by (simp add: transport_send_def)

section \<open>The receiving side\<close>

lemma replenish_loop_identity [simp]: "ed_signing (snd (replenish_loop draw n ids x)) = ed_signing x"
  by (induction n arbitrary: ids x) (simp_all add: Let_def)

lemma replenish_identity:
  "maybe_replenish_prekeys E draw t a w = (a', w') \<Longrightarrow> ed_signing (ap_account a') = ed_signing (ap_account a)"
  by (auto simp: maybe_replenish_prekeys_def persist_account_def replenish_one_time_prekeys_def Let_def
      split: app_transport.splits if_splits)

lemma accepted_sender_shown:
  assumes E: "open_envelope (ae_crypto E) (ap_account a) raw = Inr env" "message_decode (ae_message E) (payload env) = Inr m"
      "session_respond (ae_crypto E) (cd_header (ae_codecs E)) (ar_ratchet r) (ap_account a) m = (Inr (s, plain), acct)"
      "content_decode (ae_dart E) plain = TextContent body"
    and k: "k = hex (sender_identity_ed env)" "ap_sessions a k = None"
  shows "\<exists>a' w'. app_handle_incoming E r t now raw a w = (Inr True, a', w') \<and> ap_sessions a' k = Some s \<and>
    ed_signing (ap_account a') = ed_signing acct \<and> ap_conversations a' k = Some (history a k @ [\<lparr>cm_direction = Incoming, cm_text = body, cm_timestamp = now\<rparr>]) \<and>
    (map_of (ap_contacts a) k = None \<longrightarrow> map_of (ap_contacts a') k = Some \<lparr>ac_identity = sender_identity_ed env,
       ac_identity_dh = sender_identity_dh env, ac_display_name = short_id (sender_identity_ed env), ac_verified = False, ac_retention = None\<rparr>)"
proof -
  let ?a = "accept_sender k env s (a\<lparr>ap_account := acct\<rparr>)"
  obtain a1 w1 where rep: "maybe_replenish_prekeys E (ar_opk r) t ?a w = (a1, w1)" by fastforce
  note keep = replenish_keeps [OF rep]
  let ?a' = "persist_history k (add_message k Incoming body now (persist_contacts E (persist_session E k a1)))"
  have "app_handle_incoming E r t now raw a w = (Inr True, ?a', w1)"
    using E k rep by (simp add: app_handle_incoming_def show_content_def Let_def)
  moreover have "ap_conversations a1 k = Some (history a k)"
    by (simp add: keep accept_sender_def put_if_absent_def history_def split: option.split)
  ultimately show ?thesis using replenish_identity [OF rep] by (auto simp: add_message_def keep accept_sender_def update_conv')
qed

text \<open>A composed first message in the hands of its recipient.\<close>

lemma first_text_shown:
  fixes E :: "'c app_env"
  defines "C \<equiv> ae_crypto E" and "S \<equiv> cd_header (ae_codecs E)" and "M \<equiv> ae_message E"
  assumes laws: "sig_ok C" "aead_ok C" "dh_ok C" "kem_ok C" "dh_len C" "aead_tag_len C" "serde_ok M"
    and b: "kyber_wf C (kyber (ap_account b))" "offered C (ap_account b) opk" "ap_sessions b (hex (identity_public C x)) = None"
    and keys: "distinct (map (x25519_public C) [signed_prekey_secret (ap_account b), pr_ratchet pr, ar_ratchet r])"
    and comp: "peer_compose C S M pr x (served_bundle C (ap_account b) opk) p = Inr (s, blob)" "length blob < 2 ^ 32"
    and body: "content_decode (ae_dart E) p = TextContent body"
  shows "\<exists>b' w' sb. app_handle_incoming E r t now blob b w = (Inr True, b', w') \<and>
    ap_conversations b' (hex (identity_public C x)) = Some (history b (hex (identity_public C x)) @
      [\<lparr>cm_direction = Incoming, cm_text = body, cm_timestamp = now\<rparr>]) \<and>
    (map_of (ap_contacts b) (hex (identity_public C x)) = None \<longrightarrow> map_of (ap_contacts b') (hex (identity_public C x)) =
      Some \<lparr>ac_identity = identity_public C x, ac_identity_dh = identity_dh_public C x,
        ac_display_name = short_id (identity_public C x), ac_verified = False, ac_retention = None\<rparr>) \<and>
    identity_public C (ap_account b') = identity_public C (ap_account b) \<and>
    ap_sessions b' (hex (identity_public C x)) = Some sb \<and>
    (\<forall>new'' reply. x25519_public C new'' \<notin> x25519_public C ` {signed_prekey_secret (ap_account b), pr_ratchet pr, ar_ratchet r} \<longrightarrow>
       (\<exists>m' sb'. session_encrypt C S sb reply = (Inr m', sb') \<and> fst (session_decrypt C S new'' s m') = Inr reply))"
proof -
  obtain m sb where blob: "blob = seal_envelope C (pr_seal pr) x (identity_dh_public C (ap_account b)) (message_encode M m)"
    and opens: "length (message_encode M m) < 2 ^ 32 \<longrightarrow> open_envelope C (ap_account b) blob = Inr
        \<lparr>sender_identity_ed = identity_public C x, sender_identity_dh = identity_dh_public C x, payload = message_encode M m\<rparr>"
    and m: "message_decode M (message_encode M m) = Inr m"
      "session_respond C S (ar_ratchet r) (ap_account b) m = (Inr (sb, p), spend opk (ap_account b))"
    and reply: "\<forall>new'' reply. x25519_public C new'' \<notin> x25519_public C ` {signed_prekey_secret (ap_account b), pr_ratchet pr, ar_ratchet r} \<longrightarrow>
       (\<exists>m' sb'. session_encrypt C S sb reply = (Inr m', sb') \<and> fst (session_decrypt C S new'' s m') = Inr reply)"
    using composed_message_opens [OF laws b(1,2) keys, of S x p] comp(1) by auto
  have "length (message_encode M m) < 2 ^ 32"
    using sealed_longer [OF laws(5,6), of "message_encode M m"] comp(2) blob by (metis le_less_trans)
  note opened = opens [rule_format, OF this]
  have spent: "ed_signing (spend opk (ap_account b)) = ed_signing (ap_account b)" by simp
  show ?thesis
    using accepted_sender_shown [where t = t and now = now and w = w,
        OF opened [unfolded C_def] _ m(2) [unfolded C_def S_def] body _ b(3) [unfolded C_def]] m(1) reply
    unfolding M_def C_def S_def identity_public_def spent by fastforce
qed

text \<open>One waiting message in a window of inboxes of the loopback relay.\<close>

lemma poll_many_quiet:
  assumes "web_ok W" "\<forall>ib\<in>set ibs. length ib = 32 \<and> mailbox st ib = []"
  shows "\<exists>st'. poll_many W (loopback W base t) ibs st = (Inr [], st') \<and> limits st' = limits st \<and> mailbox st' = mailbox st"
  using assms(2)
proof (induction ibs arbitrary: st)
  case (Cons ib ibs)
  let ?st = "snd (poll_at st ib t)"
  have "net_poll W (loopback W base t) ib st = (Inr [], ?st)" "limits ?st = limits st" "mailbox ?st = mailbox st"
    using Cons.prems poll_empty [of st ib t] loopback_net_poll [OF assms(1), of ib base t st] by simp_all
  then show ?case using Cons.IH [of ?st] Cons.prems by auto
qed simp

lemma poll_many_one:
  assumes "web_ok W" "ib \<in> set ibs" "\<forall>i\<in>set ibs. length i = 32 \<and> (i \<noteq> ib \<longrightarrow> mailbox st i = [])"
    and "mailbox st ib = [\<lparr>enqueued_at = t0, qm_bytes = raw\<rparr>]" "t \<le> t0 + mail_ttl_secs (limits st)"
  shows "\<exists>st'. poll_many W (loopback W base t) ibs st = (Inr [raw], st')"
proof -
  obtain pre post where ibs: "ibs = pre @ ib # post" "ib \<notin> set pre" using assms(2) by (meson split_list_first)
  have app: "poll_many W rt (xs @ ys) w = (case poll_many W rt xs w of (Inl e, w1) \<Rightarrow> (Inl e, w1)
      | (Inr ms, w1) \<Rightarrow> (case poll_many W rt ys w1 of (Inl e, w2) \<Rightarrow> (Inl e, w2) | (Inr ms', w2) \<Rightarrow> (Inr (ms @ ms'), w2)))"
    for rt :: "'w relay_transport" and xs ys w
    by (induction xs arbitrary: w) (auto split: prod.split sum.split)
  have pre: "\<forall>i\<in>set pre. length i = 32 \<and> mailbox st i = []" using assms(3) ibs by auto
  obtain st1 where st1: "poll_many W (loopback W base t) pre st = (Inr [], st1)" "limits st1 = limits st" "mailbox st1 = mailbox st"
    using poll_many_quiet [OF assms(1) pre] by blast
  have len: "length ib = 32" using assms(2,3) by blast
  let ?st = "snd (poll_at st1 ib t)"
  have one: "net_poll W (loopback W base t) ib st1 = (Inr [raw], ?st)"
    using loopback_net_poll [OF assms(1) len] assms(5) by (simp add: poll_eq st1(2,3) assms(4) live_mail_def)
  have "mailbox ?st i = []" if "i \<in> set post" for i
    using that assms(3) ibs st1(3) poll_eq(2) [of st1 ib t] poll_eq(3) [of i ib st1 t] by (cases "i = ib") auto
  then have "\<forall>i\<in>set post. length i = 32 \<and> mailbox ?st i = []" using assms(3) ibs by auto
  then obtain st2 where "poll_many W (loopback W base t) post ?st = (Inr [], st2)" using poll_many_quiet [OF assms(1)] by blast
  then show ?thesis by (simp add: ibs(1) app st1(1) one)
qed

section \<open>The window of inboxes\<close>

lemma window_bounds: "length (poll_window prev cur) \<le> 31" "e \<in> set (poll_window prev cur) \<Longrightarrow> e \<le> cur + 1"
  by (auto simp: poll_window_def window_from_def MAX_POLL_EPOCHS_def Let_def)

text \<open>Every epoch since the last poll (since yesterday, if there was none) up to tomorrow, as far back as 29 days.\<close>

lemma window_covers_gap:
  assumes "(case prev of None \<Rightarrow> cur | Some l \<Rightarrow> l) - 1 \<le> e" "cur - 29 \<le> e" "e \<le> cur + 1" "0 \<le> e"
  shows "e \<in> set (poll_window prev cur)"
  using assms by (auto simp: poll_window_def window_from_def MAX_POLL_EPOCHS_def Let_def)

lemma poll_once_shows:
  fixes E :: "'c app_env"
  defines "C \<equiv> ae_crypto E" and "W \<equiv> ae_web E"
  assumes laws: "web_ok W" "hash_len C"
    and box: "mailbox st (inbox_id C (identity_public C (ap_account b)) ep) = [\<lparr>enqueued_at = t0, qm_bytes = raw\<rparr>]"
      "t \<le> t0 + mail_ttl_secs (limits st)"
      "\<forall>e. inbox_id C (identity_public C (ap_account b)) e \<noteq> inbox_id C (identity_public C (ap_account b)) ep \<longrightarrow>
        mailbox st (inbox_id C (identity_public C (ap_account b)) e) = []"
    and win: "uint ep \<in> set (poll_window (ap_last_poll b) (uint (current_epoch now)))"
    and handle: "\<And>b1 w1. ap_account b1 = ap_account b \<Longrightarrow> ap_sessions b1 = ap_sessions b \<Longrightarrow> ap_contacts b1 = ap_contacts b \<Longrightarrow>
      ap_conversations b1 = ap_conversations b \<Longrightarrow> \<exists>b' w'. app_handle_incoming E (r 0) (Relay (loopback W base t)) now raw b1 w1 = (Inr x, b', w') \<and> Q b'"
  shows "\<exists>b' st'. poll_once E r (Relay (loopback W base t)) now b st = (Inr (), b', st') \<and> Q b'"
proof -
  let ?id = "\<lambda>e. inbox_id C (identity_public C (ap_account b)) (word_of_int e)"
  let ?ibs = "map ?id (poll_window (ap_last_poll b) (uint (current_epoch now)))"
  have len: "length (inbox_id C i e) = 32" for i e using laws(2) by (simp add: inbox_id_def hash_len_def)
  have "?id (uint ep) \<in> set ?ibs" using win by (metis image_eqI list.set_map)
  then have "inbox_id C (identity_public C (ap_account b)) ep \<in> set ?ibs" by simp
  then obtain st1 where st1: "poll_many W (loopback W base t) ?ibs st = (Inr [raw], st1)"
    using poll_many_one [OF laws(1) _ _ box(1,2)] box(3) len by fastforce
  let ?b = "if ap_last_poll b \<noteq> Some (uint (current_epoch now))
    then storage_write Last_Poll_Key (Number_Text (uint (current_epoch now))) (b\<lparr>ap_last_poll := Some (uint (current_epoch now))\<rparr>) else b"
  have "ap_account ?b = ap_account b" "ap_sessions ?b = ap_sessions b" "ap_contacts ?b = ap_contacts b"
    "ap_conversations ?b = ap_conversations b" by simp_all
  from handle [OF this, of st1] obtain b' w'
    where "app_handle_incoming E (r 0) (Relay (loopback W base t)) now raw ?b st1 = (Inr x, b', w')" "Q b'" by blast
  then have "handle_all E r (Relay (loopback W base t)) now [raw] ?b st1 = (Inr (), b', w')" by simp
  then show ?thesis using st1 \<open>Q b'\<close> by (auto simp: poll_once_def C_def W_def Let_def)
qed

section \<open>Properties\<close>

text \<open>
  C18: a message sent in one application is shown in the other. Bob's application has published its keys at the relay and
  has no session with Alice; its inboxes are empty. Alice adds Bob by his identity and sends a text: the two operations
  succeed, and Alice's conversation ends with the text. When Bob's application polls, at any time while the relay keeps
  the mail and no later than 29 days after, whether it polled before or not, and with clocks up to a day apart, its
  conversation with Alice (found under her identity) ends with exactly that text. The envelope has to fit the relay's
  limits.
\<close>

theorem app_message_shown:
  fixes E :: "'c app_env" and a b :: app and st :: relay_store
  defines "C \<equiv> ae_crypto E" and "S \<equiv> cd_header (ae_codecs E)" and "M \<equiv> ae_message E" and "W \<equiv> ae_web E"
    and "alice_id \<equiv> identity_public (ae_crypto E) (ap_account a)" and "bob_id \<equiv> identity_public (ae_crypto E) (ap_account b)"
    and "st0 \<equiv> publish st (fst (split_bundle (ae_crypto E) (ap_account b))) (snd (split_bundle (ae_crypto E) (ap_account b)))"
  assumes laws: "sig_ok C" "aead_ok C" "dh_ok C" "kem_ok C" "dh_len C" "aead_tag_len C" "hash_len C" "serde_ok M" "web_ok W"
      "dart_ok (ae_dart E)"
    and bob: "kyber_wf C (kyber (ap_account b))" "ap_sessions b (hex alice_id) = None"
      "distinct (map (x25519_public C) [signed_prekey_secret (ap_account b), ar_ratchet r, ar_ratchet (rb 0)])"
    and relay: "sane_limits (limits st)" "max_message_bytes (limits st) < 2 ^ 32" "\<forall>e. mailbox st (inbox_id C bob_id e) = []"
      "t' \<le> t + mail_ttl_secs (limits st)"
    and epochs: "(case ap_last_poll b of None \<Rightarrow> uint (current_epoch now') | Some l \<Rightarrow> l) - 1 \<le> uint (current_epoch now)"
      "uint (current_epoch now') - 29 \<le> uint (current_epoch now)" "uint (current_epoch now) \<le> uint (current_epoch now') + 1"
    and fits: "\<And>p s blob. content_encode (ae_dart E) (TextContent body) = Some p \<Longrightarrow>
      peer_compose C S M (compose_rng r r') (ap_account a) (served_bundle C (ap_account b) (first_offer C (ap_account b))) p = Inr (s, blob) \<Longrightarrow>
      postable W (limits st) (inbox_id C bob_id (current_epoch now)) blob"
  shows "\<exists>a1 st1 a2 st2 b' st3.
      add_contact E r (Relay (loopback W base t)) bob_id name a st0 = (Inr (), a1, st1) \<and>
      send_message E r' (Relay (loopback W base t)) now (hex bob_id) body a1 st1 = (Inr (), a2, st2) \<and>
      ap_conversations a2 (hex bob_id) = Some (history a (hex bob_id) @ [\<lparr>cm_direction = Outgoing, cm_text = body, cm_timestamp = now\<rparr>]) \<and>
      poll_once E rb (Relay (loopback W base t')) now' b st2 = (Inr (), b', st3) \<and>
      ap_conversations b' (hex alice_id) =
        Some (history b (hex alice_id) @ [\<lparr>cm_direction = Incoming, cm_text = body, cm_timestamp = now'\<rparr>])"
proof -
  let ?b = "served_bundle C (ap_account b) (first_offer C (ap_account b))" and ?addr = "inbox_id C bob_id (current_epoch now)"
  let ?shown = "\<lambda>b'. ap_conversations b' (hex alice_id) =
    Some (history b (hex alice_id) @ [\<lparr>cm_direction = Incoming, cm_text = body, cm_timestamp = now'\<rparr>])"
  have id: "pb_identity_ed ?b = bob_id" by (simp add: C_def bob_id_def)
  have len: "length ?addr = 32" using laws(7) by (simp add: inbox_id_def hash_len_def)
  obtain p where p: "content_encode (ae_dart E) (TextContent body) = Some p" using text_encodes by blast
  have keys: "distinct (map (x25519_public C) [signed_prekey_secret (ap_account b), pr_ratchet (compose_rng r r'), ar_ratchet (rb 0)])"
    using bob(3) by (simp add: compose_rng_def)
  obtain s blob where comp: "peer_compose C S M (compose_rng r r') (ap_account a) ?b p = Inr (s, blob)"
    using composed_message_opens [OF laws(1-6,8) bob(1) first_offer_offered keys, of S "ap_account a" p] by metis
  have post: "postable W (limits st) ?addr blob" by (rule fits [OF p comp])
  then have small: "length blob < 2 ^ 32" using relay(2) by (simp add: postable_def)
  obtain st1 where st1: "net_fetch_bundle W (loopback W base t) (pb_identity_ed ?b) st0 = (Inr (Some ?b), st1)" "limits st1 = limits st"
    "\<forall>ib. mailbox st1 ib = mailbox st ib"
    using fetch_published [OF laws(1,9), of base t "ap_account b" st] unfolding st0_def C_def by auto
  obtain a1 a2 where A: "add_contact E r (Relay (loopback W base t)) bob_id name a st0 = (Inr (), a1, st1)"
    "send_message E r' (Relay (loopback W base t)) now (hex bob_id) body a1 st1 =
      (Inr (), a2, snd (net_send W (loopback W base t) ?addr blob st1))"
    "ap_conversations a2 (hex bob_id) = Some (history a (hex bob_id) @ [\<lparr>cm_direction = Outgoing, cm_text = body, cm_timestamp = now\<rparr>])"
    using added_contact_sends [where name = name, OF comp [unfolded C_def S_def M_def] p st1(1) [unfolded C_def W_def]
        relay_takes [where rt = "loopback W base t" and now = now and w = st1]] id
    unfolding C_def W_def by metis
  obtain res st2 where send: "net_send W (loopback W base t) ?addr blob st1 = (res, st2)" by fastforce
  have box: "mailbox st2 ?addr = [\<lparr>enqueued_at = t, qm_bytes = blob\<rparr>]" "limits st2 = limits st"
    "\<forall>ib. ib \<noteq> ?addr \<longrightarrow> mailbox st2 ib = mailbox st ib"
    using posted_mailbox [OF laws(9) len _ _ send] relay(1,3) post st1(2,3) by auto
  have "\<exists>b' w'. app_handle_incoming E (rb 0) (Relay (loopback W base t')) now' blob b1 w1 = (Inr True, b', w') \<and> ?shown b'"
    if "ap_account b1 = ap_account b" "ap_sessions b1 = ap_sessions b" "ap_conversations b1 = ap_conversations b" for b1 w1
    using first_text_shown [of E b1 "first_offer C (ap_account b)" "ap_account a" "compose_rng r r'" "rb 0" p s blob body
        "Relay (loopback W base t')" now' w1] laws(1-6,8) bob(1,2) keys comp small text_roundtrip [OF laws(10) p] first_offer_offered that
    unfolding C_def S_def M_def alice_id_def history_def by fastforce
  then have "\<exists>b' st3. poll_once E rb (Relay (loopback W base t')) now' b st2 = (Inr (), b', st3) \<and> ?shown b'"
    using poll_once_shows [of E st2 b "current_epoch now" t blob t' now' rb base True ?shown] laws(7,9) box relay(3,4)
      window_covers_gap [OF epochs] unfolding C_def W_def bob_id_def by auto
  then show ?thesis using A send by (metis snd_conv)
qed

text \<open>A concrete run: the environment, the draws of each operation, and an application with nothing stored.\<close>

definition demo_app_env :: "unit app_env" where
  "demo_app_env = \<lparr>ae_crypto = demo_crypto, ae_codecs = demo_codecs\<lparr>cd_header := demo_header_serde\<rparr>, ae_message = serde_of message_fmt,
     ae_web = demo_web, ae_dart = demo_dart\<rparr>"

definition demo_app_rng :: "u8 \<Rightarrow> app_rng" where
  "demo_app_rng x = \<lparr>ar_account = demo_rng x, ar_ephemeral = [20, x], ar_kem = [21, x], ar_ratchet = [22, x], ar_seal = [23, x],
     ar_opk = (\<lambda>i. [24, x, word_of_nat i])\<rparr>"

definition demo_app :: "u8 \<Rightarrow> app" where
  "demo_app x = fresh_app (demo_account x) Map.empty"

lemma demo_env_fields [simp]:
  "ae_crypto demo_app_env = demo_crypto" "cd_header (ae_codecs demo_app_env) = demo_header_serde"
  "ae_message demo_app_env = serde_of message_fmt" "ae_web demo_app_env = demo_web" "ae_dart demo_app_env = demo_dart"
  "codecs_ok (ae_codecs demo_app_env)"
  using demo_codecs_ok by (simp_all add: demo_app_env_def codecs_ok_def)

lemma demo_app_fields [simp]:
  "ap_account (demo_app x) = demo_account x" "ap_sessions (demo_app x) k = None" "ap_conversations (demo_app x) k = None"
  "ap_contacts (demo_app x) = []" "ap_last_poll (demo_app x) = None" "history (demo_app x) k = []" "ap_storage (demo_app x) = Map.empty"
  by (simp_all add: demo_app_def fresh_app_def history_def)

lemma demo_app_keys:
  "x \<noteq> y \<Longrightarrow> distinct (map (x25519_public demo_crypto) [signed_prekey_secret (demo_account 8), ar_ratchet (demo_app_rng x), ar_ratchet (demo_app_rng y)])"
  by (simp add: demo_account_def generate_with_prekeys_def demo_rng_def demo_crypto_def pad_to_def demo_app_rng_def)

lemma demo_text: "content_encode demo_dart (TextContent ''hi'') = Some p \<Longrightarrow> length p \<le> 100"
  by (auto simp: content_encode_def content_json_def demo_dart_def byte_lit_def)

lemma demo_relay: "sane_limits (limits store_new)" "limits store_new = default_limits" "mailbox store_new ib = []"
  "max_message_bytes (limits store_new) < 2 ^ 32" "mail_ttl_secs (limits store_new) = 2592000"
  by (simp_all add: store_new_def store_with_limits_def default_limits_def sane_limits_def mailbox_def inner_default_def)

lemmas demo_laws = demo_sig_ok demo_aead_ok demo_dh_ok demo_kem_ok demo_dh_len demo_aead_tag_len

theorem app_message_shown_witness:
  "\<exists>a1 st1 a2 st2 b' st3.
     add_contact demo_app_env (demo_app_rng 1) (Relay (loopback demo_web ''http://relay/'' 10))
       (identity_public demo_crypto (demo_account 8)) ''Bob'' (demo_app 7)
       (publish store_new (fst (split_bundle demo_crypto (demo_account 8))) (snd (split_bundle demo_crypto (demo_account 8)))) = (Inr (), a1, st1) \<and>
     send_message demo_app_env (demo_app_rng 2) (Relay (loopback demo_web ''http://relay/'' 10)) 10000000
       (hex (identity_public demo_crypto (demo_account 8))) ''hi'' a1 st1 = (Inr (), a2, st2) \<and>
     poll_once demo_app_env (\<lambda>_. demo_app_rng 3) (Relay (loopback demo_web ''http://relay/'' 20)) 20000000 (demo_app 8) st2 = (Inr (), b', st3) \<and>
     ap_conversations b' (hex (identity_public demo_crypto (demo_account 7))) =
       Some [\<lparr>cm_direction = Incoming, cm_text = ''hi'', cm_timestamp = 20000000\<rparr>]"
proof -
  let ?addr = "inbox_id demo_crypto (identity_public demo_crypto (demo_account 8)) (current_epoch 10000000)"
  have fits: "postable demo_web (limits store_new) ?addr blob"
    if "content_encode demo_dart (TextContent ''hi'') = Some p" "peer_compose demo_crypto demo_header_serde (serde_of message_fmt)
        (compose_rng (demo_app_rng 1) (demo_app_rng 2)) (demo_account 7) (served_bundle demo_crypto (demo_account 8) opk) p = Inr (s, blob)"
    for p s blob opk
    using demo_first_size [OF that(2) demo_text [OF that(1)]] demo_postable [of ?addr blob] demo_hash_len
    by (simp add: demo_relay(2) inbox_id_def hash_len_def)
  have ep: "current_epoch 10000000 = 0" "current_epoch 20000000 = 0"
    by (simp_all add: current_epoch_def trunc_div_def epoch_for_unix_def INBOX_EPOCH_SECONDS_def)
  note shown = app_message_shown [where E = demo_app_env and a = "demo_app 7" and b = "demo_app 8" and st = store_new and r = "demo_app_rng 1"
      and rb = "\<lambda>_. demo_app_rng 3" and t = 10 and t' = 20 and now = 10000000 and now' = 20000000 and body = "''hi''" and r' = "demo_app_rng 2"
      and base = "''http://relay/''" and name = "''Bob''", unfolded demo_env_fields demo_app_fields, OF demo_laws demo_hash_len
      serde_of_ok [OF message_fmt_ok] demo_web_ok demo_dart_ok demo_account_wf refl demo_app_keys demo_relay(1,4) allI [OF demo_relay(3)] _ _ _ _ fits]
  show ?thesis using shown by (fastforce simp: ep demo_relay(5))
qed

text \<open>
  C20: the application shows a forged first message as the victim's. Bob's application knows nothing of Alice yet. Mallory,
  with his own account, Bob's bundle and Alice's public identity key, makes an envelope (\<open>forge_first\<close>); Bob's
  application accepts it, shows Mallory's text under Alice's identity, and creates a contact with Alice's identity key
  and Mallory's sealing key. The safety number displayed for that contact is the one Alice's own application displays
  for Bob, so the two find nothing wrong when they compare; what Bob answers decrypts at Mallory.
\<close>

theorem forged_message_shown:
  fixes E :: "'c app_env" and b :: app
  defines "C \<equiv> ae_crypto E" and "S \<equiv> cd_header (ae_codecs E)" and "M \<equiv> ae_message E"
    and "bob_id \<equiv> identity_public (ae_crypto E) (ap_account b)"
  assumes laws: "sig_ok C" "aead_ok C" "dh_ok C" "kem_ok C" "dh_len C" "aead_tag_len C" "serde_ok M" "dart_ok (ae_dart E)"
    and bob: "kyber_wf C (kyber (ap_account b))" "offered C (ap_account b) opk"
    and new: "ap_sessions b (hex (identity_public C a)) = None" "map_of (ap_contacts b) (hex (identity_public C a)) = None"
    and keys: "distinct (map (x25519_public C) [signed_prekey_secret (ap_account b), pr_ratchet pr, ar_ratchet r])"
    and forged: "content_encode (ae_dart E) (TextContent body) = Some p"
      "forge_first C S M pr mallory (identity_public C a) (served_bundle C (ap_account b) opk) p = Inr (s, blob)" "length blob < 2 ^ 32"
  shows "\<exists>b' w' sb c. app_handle_incoming E r t now blob b w = (Inr True, b', w') \<and>
    ap_conversations b' (hex (identity_public C a)) = Some (history b (hex (identity_public C a)) @
      [\<lparr>cm_direction = Incoming, cm_text = body, cm_timestamp = now\<rparr>]) \<and>
    map_of (ap_contacts b') (hex (identity_public C a)) = Some c \<and> ac_identity c = identity_public C a \<and>
    ac_identity_dh c = identity_dh_public C mallory \<and>
    safety_number_for E (hex (identity_public C a)) b' = Some (safety_number C (identity_public C a) bob_id) \<and>
    ap_sessions b' (hex (identity_public C a)) = Some sb \<and>
    (\<forall>new'' reply. x25519_public C new'' \<notin> x25519_public C ` {signed_prekey_secret (ap_account b), pr_ratchet pr, ar_ratchet r} \<longrightarrow>
       (\<exists>m' sb'. session_encrypt C S sb reply = (Inr m', sb') \<and> fst (session_decrypt C S new'' s m') = Inr reply))"
proof -
  let ?x = "mallory\<lparr>ed_signing := ed_signing a\<rparr>"
  have ids: "identity_public C ?x = identity_public C a" "identity_dh_public C ?x = identity_dh_public C mallory"
    by (simp_all add: identity_public_def identity_dh_public_def)
  obtain s' blob' where "peer_compose C S M pr ?x (served_bundle C (ap_account b) opk) p = Inr (s', blob')"
    using composed_message_opens [OF laws(1-7) bob keys, of S ?x p] by metis
  then have comp: "peer_compose C S M pr ?x (served_bundle C (ap_account b) opk) p = Inr (s, blob)"
    using forge_first_eq forged(2) by fastforce
  note shown = first_text_shown [of E b opk ?x pr r p s blob body t now w, folded C_def S_def M_def, unfolded ids,
      OF laws(1-7) bob new(1) keys comp forged(3) text_roundtrip [OF laws(8) forged(1)]]
  then obtain b' w' sb c where R: "app_handle_incoming E r t now blob b w = (Inr True, b', w')"
    "ap_conversations b' (hex (identity_public C a)) = Some (history b (hex (identity_public C a)) @
      [\<lparr>cm_direction = Incoming, cm_text = body, cm_timestamp = now\<rparr>])"
    "map_of (ap_contacts b') (hex (identity_public C a)) = Some c" "ac_identity c = identity_public C a"
    "ac_identity_dh c = identity_dh_public C mallory" "identity_public C (ap_account b') = bob_id"
    "ap_sessions b' (hex (identity_public C a)) = Some sb"
    "\<forall>new'' reply. x25519_public C new'' \<notin> x25519_public C ` {signed_prekey_secret (ap_account b), pr_ratchet pr, ar_ratchet r} \<longrightarrow>
       (\<exists>m' sb'. session_encrypt C S sb reply = (Inr m', sb') \<and> fst (session_decrypt C S new'' s m') = Inr reply)"
    using new(2) unfolding bob_id_def C_def by auto
  have "safety_number_for E (hex (identity_public C a)) b' = Some (safety_number C (identity_public C a) bob_id)"
    using R(3,4,6) safety_number_symmetric [of C bob_id] by (simp add: safety_number_for_def C_def)
  then show ?thesis using R by blast
qed

theorem forged_message_shown_witness:
  "\<exists>s blob b' w' c. forge_first demo_crypto demo_header_serde (serde_of message_fmt) demo_peer (demo_account 66)
      (identity_public demo_crypto (demo_account 7)) (served_bundle demo_crypto (demo_account 8) demo_opk)
      (dc_encode demo_dart (the (content_json (TextContent ''hi'')))) = Inr (s, blob) \<and>
    app_handle_incoming demo_app_env ((demo_app_rng 3)\<lparr>ar_ratchet := [25]\<rparr>) Offline 20000000 blob (demo_app 8) () = (Inr True, b', w') \<and>
    ap_conversations b' (hex (identity_public demo_crypto (demo_account 7))) =
      Some [\<lparr>cm_direction = Incoming, cm_text = ''hi'', cm_timestamp = 20000000\<rparr>] \<and>
    map_of (ap_contacts b') (hex (identity_public demo_crypto (demo_account 7))) = Some c \<and>
    ac_identity c = identity_public demo_crypto (demo_account 7) \<and>
    ac_identity_dh c = identity_dh_public demo_crypto (demo_account 66)"
proof -
  let ?p = "dc_encode demo_dart (the (content_json (TextContent ''hi'')))" and ?x = "(demo_account 66)\<lparr>ed_signing := ed_signing (demo_account 7)\<rparr>"
  have p: "content_encode demo_dart (TextContent ''hi'') = Some ?p" by (simp add: content_encode_def content_json_def)
  have keys: "distinct (map (x25519_public demo_crypto) [signed_prekey_secret (demo_account 8), pr_ratchet demo_peer,
      ar_ratchet ((demo_app_rng 3)\<lparr>ar_ratchet := [25]\<rparr>)])"
    by (simp add: demo_account_def generate_with_prekeys_def demo_rng_def demo_crypto_def pad_to_def demo_peer_def)
  obtain s blob where comp: "peer_compose demo_crypto demo_header_serde (serde_of message_fmt) demo_peer ?x
      (served_bundle demo_crypto (demo_account 8) demo_opk) ?p = Inr (s, blob)"
    using composed_message_opens [OF demo_laws serde_of_ok [OF message_fmt_ok] demo_account_wf demo_offered keys, of demo_header_serde ?x ?p] by metis
  have "length blob \<le> 10000" by (rule demo_first_size [OF comp demo_text [OF p]])
  then have small: "length blob < 2 ^ 32" by simp
  note shown = forged_message_shown [where E = demo_app_env and b = "demo_app 8" and a = "demo_account 7" and now = 20000000 and w = "()"
      and t = Offline, unfolded demo_env_fields demo_app_fields, OF demo_laws serde_of_ok [OF message_fmt_ok] demo_dart_ok demo_account_wf
      demo_offered refl _ keys p forge_first_eq [OF comp] small]
  then show ?thesis using forge_first_eq [OF comp] by fastforce
qed

end
