(* ===== verification/App_Restart.thy ===== *)
theory App_Restart
  imports App_Flow App_Account
begin

text \<open>
  What survives a restart of the application. The states the application can be in are reached from a first launch by
  its operations and by restarts, with anything happening in the network in between; each of them is saved
  (theories \<open>App_Saved\<close> and \<open>App_Account\<close>), so a restart brings back the identity, the contacts, the conversations and the
  poll position.
\<close>

text \<open>Timestamps are stored in milliseconds.\<close>

definition trunc_ms :: "chat_message \<Rightarrow> chat_message" where
  "trunc_ms m = m\<lparr>cm_timestamp := trunc_div (cm_timestamp m) 1000 * 1000\<rparr>"

inductive app_step :: "'c app_env \<Rightarrow> app \<times> 'w \<Rightarrow> app \<times> 'w \<Rightarrow> bool" for E where
  adds: "add_contact E r t i name a w = (res, a', w') \<Longrightarrow> app_step E (a, w) (a', w')"
| sends: "send_message E r t now k body a w = (res, a', w') \<Longrightarrow> \<bar>now\<bar> \<le> MAX_INSTANT \<Longrightarrow> app_step E (a, w) (a', w')"
| retains: "set_retention E r t now k secs a w = (res, a', w') \<Longrightarrow> \<bar>now\<bar> \<le> MAX_INSTANT \<Longrightarrow> app_step E (a, w) (a', w')"
| verifies: "app_step E (a, w) (mark_verified E k a, w)"
| polls: "poll_once E rs t now a w = (res, a', w') \<Longrightarrow> \<bar>now\<bar> \<le> MAX_INSTANT \<Longrightarrow> app_step E (a, w) (a', w')"
| receives: "app_handle_incoming E r t now raw a w = (res', a', w') \<Longrightarrow> \<bar>now\<bar> \<le> MAX_INSTANT \<Longrightarrow> app_step E (a, w) (a', w')"
| sweeps: "sweep_expired_messages now a = (res, a') \<Longrightarrow> app_step E (a, w) (a', w)"
| starts: "start_transport E r t a w = (a', w') \<Longrightarrow> app_step E (a, w) (a', w')"
| others: "app_step E (a, w) (a, w')"

inductive app_reach :: "'c app_env \<Rightarrow> app \<times> 'w \<Rightarrow> bool" for E where
  launch: "initialize E r t now Map.empty w = (Inr a, w') \<Longrightarrow> app_reach E (a, w')"
| step: "app_reach E s \<Longrightarrow> app_step E s s' \<Longrightarrow> app_reach E s'"
| restart: "app_reach E (a, w) \<Longrightarrow> initialize E r t now (ap_storage a) w = (Inr a', w') \<Longrightarrow> app_reach E (a', w')"

lemma saved_step: "app_step E (a, w) (a', w') \<Longrightarrow> app_saved E a \<Longrightarrow> app_saved E a'"
proof (induction "(a, w)" "(a', w')" rule: app_step.induct)
  case (adds r t i name res)
  then show ?case using saved_add_contact [OF adds(2), of r t i name w] by simp
next
  case (sends r t now k body res)
  then show ?case using saved_send_message [OF sends(3,2), of r t k body w] by simp
next
  case (retains r t now k secs res)
  then show ?case using saved_set_retention [OF retains(3,2), of r t k secs w] by simp
next
  case (verifies k)
  then show ?case using saved_mark_verified by blast
next
  case (polls rs t now res)
  then show ?case using saved_poll_once [OF polls(3,2), of rs t w] by simp
next
  case (receives r t now raw res')
  then show ?case using saved_handle_incoming [OF receives(3,2), of r t raw w] by simp
next
  case (sweeps now res)
  then show ?case by (metis saved_sweep)
next
  case (starts r t)
  then show ?case using saved_replenish [of E a "ar_opk r" t "publish_bundle E t a w"]
    by (auto simp: start_transport_def split: app_transport.splits)
next
  case others
  then show ?case by simp
qed

section \<open>Reading the storage back\<close>

lemma json_contact_roundtrip: "dart_ok D \<Longrightarrow> json_contact D (contact_json D c) = Some c"
  by (cases "ac_retention c") (simp_all add: json_contact_def contact_json_def dart_ok_def cast_int_def)

lemma trunc_range: "\<bar>x\<bar> \<le> MAX_INSTANT \<Longrightarrow> \<bar>trunc_div x 1000 * 1000\<bar> \<le> MAX_INSTANT"
  by (auto simp: trunc_div_def sgn_if)

lemma json_message_roundtrip: "\<bar>cm_timestamp m\<bar> \<le> MAX_INSTANT \<Longrightarrow> json_message (message_json m) = Some (trunc_ms m)"
  using trunc_range [of "cm_timestamp m"]
  by (cases m) (simp add: json_message_def message_json_def direction_text_def trunc_ms_def split: message_direction.split)

lemma those_map: "(\<And>x. x \<in> set xs \<Longrightarrow> f x = Some (g x)) \<Longrightarrow> those (map f xs) = Some (map g xs)"
  by (induction xs) auto

lemma saved_contacts_read:
  "dart_ok (ae_dart E) \<Longrightarrow> saved_contacts E cs = Json_Text j \<Longrightarrow> json_list (json_contact (ae_dart E)) j = Some (map snd cs)"
  by (auto simp: saved_contacts_def json_list_def json_contact_roundtrip intro!: those_map)

lemma saved_history_read:
  "\<forall>m\<in>set ms. \<bar>cm_timestamp m\<bar> \<le> MAX_INSTANT \<Longrightarrow> saved_history (Some ms) = Some (Json_Text j) \<Longrightarrow>
    json_list json_message j = Some (map trunc_ms ms)"
  by (auto simp: saved_history_def json_list_def json_message_roundtrip split: list.splits intro!: those_map)

text \<open>The session that a restart finds for a contact.\<close>

definition stored_session_of :: "'c app_env \<Rightarrow> storage \<Rightarrow> string \<Rightarrow> session option" where
  "stored_session_of E st k = (case st (Session_Key k) of
      Some (Base64_Text bs) \<Rightarrow> (case session_deserialize (cd_ratchet (ae_codecs E)) (cd_session (ae_codecs E)) bs of
          Inl _ \<Rightarrow> None | Inr s \<Rightarrow> Some s)
    | _ \<Rightarrow> None)"

lemma stored_saved_session:
  "codecs_ok (ae_codecs E) \<Longrightarrow> st (Session_Key k) = Some (saved_session E s) \<Longrightarrow> stored_session_of E st k = Some s"
  by (simp add: stored_session_of_def saved_session_def session_bytes_roundtrip codecs_ok_def)

lemma restore_session_fields [simp]:
  "ap_account (restore_session E k a) = ap_account a" "ap_last_poll (restore_session E k a) = ap_last_poll a"
  "ap_contacts (restore_session E k a) = ap_contacts a" "ap_conversations (restore_session E k a) = ap_conversations a"
  "ap_storage (restore_session E k a) = ap_storage a"
  "ap_sessions a k = None \<Longrightarrow> ap_sessions (restore_session E k a) = (ap_sessions a)(k := stored_session_of E (ap_storage a) k)"
  by (auto simp: restore_session_def stored_session_of_def split: option.split stored_value.split sum.split)

lemma restore_history_eq:
  assumes "ap_storage x (History_Key k) = saved_history (Some ms)" "\<forall>m\<in>set ms. \<bar>cm_timestamp m\<bar> \<le> MAX_INSTANT"
    and "ap_conversations x k = Some []"
  shows "restore_history k x = Some (x\<lparr>ap_conversations := (ap_conversations x)(k \<mapsto> map trunc_ms ms)\<rparr>)"
proof (cases ms)
  case Nil
  then show ?thesis using assms(1,3) by (cases x) (simp add: restore_history_def saved_history_def fun_upd_idem)
next
  case (Cons m ms')
  then obtain j where "saved_history (Some ms) = Some (Json_Text j)" by (simp add: saved_history_def)
  then show ?thesis using assms(1) saved_history_read [OF assms(2)] by (simp add: restore_history_def)
qed

lemma update_absent: "k \<notin> fst ` set al \<Longrightarrow> AList.update k v al = al @ [(k, v)]"
  by (induction al) auto

text \<open>The loop over the stored contacts, from a state that has none of them yet.\<close>

lemma restore_contacts_eq:
  assumes "\<forall>(k, c)\<in>set cs. k = contact_id c" "distinct (map fst (ap_contacts x @ cs))"
    and "\<forall>k\<in>fst ` set cs. ap_conversations x k = None \<and> ap_sessions x k = None"
    and "\<forall>k\<in>fst ` set cs. \<exists>ms. conv k = Some ms \<and> ap_storage x (History_Key k) = saved_history (Some ms) \<and>
      (\<forall>m\<in>set ms. \<bar>cm_timestamp m\<bar> \<le> MAX_INSTANT)"
  shows "restore_contacts E (map snd cs) x = Some (x\<lparr>ap_contacts := ap_contacts x @ cs,
    ap_sessions := (\<lambda>k. if k \<in> fst ` set cs then stored_session_of E (ap_storage x) k else ap_sessions x k),
    ap_conversations := (\<lambda>k. if k \<in> fst ` set cs then map_option (map trunc_ms) (conv k) else ap_conversations x k)\<rparr>)"
  using assms
proof (induction cs arbitrary: x)
  case Nil
  then show ?case by (cases x) simp
next
  case (Cons kc cs)
  obtain k c where kc: "kc = (k, c)" "k = contact_id c" using Cons.prems(1) by auto
  obtain ms where ms: "conv k = Some ms" "ap_storage x (History_Key k) = saved_history (Some ms)"
    "\<forall>m\<in>set ms. \<bar>cm_timestamp m\<bar> \<le> MAX_INSTANT" using Cons.prems(4) kc by auto
  have new: "k \<notin> fst ` set (ap_contacts x)" "k \<notin> fst ` set cs" "ap_conversations x k = None" "ap_sessions x k = None"
    using Cons.prems(2,3) kc by auto
  let ?y = "x\<lparr>ap_contacts := ap_contacts x @ [(k, c)], ap_conversations := (ap_conversations x)(k \<mapsto> map trunc_ms ms)\<rparr>"
  let ?z = "restore_session E k ?y"
  have "restore_contacts E (map snd (kc # cs)) x = restore_contacts E (map snd cs) ?z"
    using restore_history_eq [of "x\<lparr>ap_contacts := ap_contacts x @ [(k, c)], ap_conversations := (ap_conversations x)(k \<mapsto> [])\<rparr>" k ms]
      ms(2,3) new by (simp add: kc(1) kc(2) [symmetric] update_absent put_if_absent_def)
  also have "\<dots> = Some (?z\<lparr>ap_contacts := ap_contacts ?z @ cs,
    ap_sessions := (\<lambda>k. if k \<in> fst ` set cs then stored_session_of E (ap_storage ?z) k else ap_sessions ?z k),
    ap_conversations := (\<lambda>k. if k \<in> fst ` set cs then map_option (map trunc_ms) (conv k) else ap_conversations ?z k)\<rparr>)"
    using Cons.prems kc(1) new by (intro Cons.IH) (auto simp: image_iff)
  also have "\<dots> = Some (x\<lparr>ap_contacts := ap_contacts x @ kc # cs,
    ap_sessions := (\<lambda>k. if k \<in> fst ` set (kc # cs) then stored_session_of E (ap_storage x) k else ap_sessions x k),
    ap_conversations := (\<lambda>k. if k \<in> fst ` set (kc # cs) then map_option (map trunc_ms) (conv k) else ap_conversations x k)\<rparr>)"
    using new ms(1) kc(1) by (intro arg_cong [of _ _ Some] app.equality) (auto simp: fun_eq_iff)
  finally show ?case .
qed

lemma restore_saved:
  assumes a: "app_saved E a" and codecs: "dart_ok (ae_dart E)"
  shows "restore_contacts_and_sessions E (fresh_app acct (ap_storage a)) = Some \<lparr>ap_account = acct, ap_last_poll = ap_last_poll a,
    ap_contacts = ap_contacts a, ap_sessions = stored_session_of E (ap_storage a),
    ap_conversations = map_option (map trunc_ms) \<circ> ap_conversations a, ap_storage = ap_storage a\<rparr>"
proof -
  let ?x = "\<lparr>ap_account = acct, ap_last_poll = ap_last_poll a, ap_contacts = [], ap_sessions = Map.empty,
    ap_conversations = Map.empty, ap_storage = ap_storage a\<rparr>"
  have poll: "(case ap_storage a Last_Poll_Key of Some (Number_Text i) \<Rightarrow> Some i | _ \<Rightarrow> None) = ap_last_poll a"
    using a by (cases "ap_last_poll a") (simp_all add: app_saved_def poll_saved_def)
  have none: "ap_conversations a k = None" "stored_session_of E (ap_storage a) k = None" if "k \<notin> fst ` set (ap_contacts a)" for k
  proof -
    have "ap_sessions a k = None" "ap_conversations a k = None" using a that by (auto simp: app_saved_def keys_ok_def dom_def)
    then show "ap_conversations a k = None" "stored_session_of E (ap_storage a) k = None"
      using a by (simp_all add: app_saved_def sessions_saved_def stored_session_of_def)
  qed
  have conv: "\<exists>ms. ap_conversations a k = Some ms \<and> ap_storage ?x (History_Key k) = saved_history (Some ms) \<and>
      (\<forall>m\<in>set ms. \<bar>cm_timestamp m\<bar> \<le> MAX_INSTANT)" if "k \<in> fst ` set (ap_contacts a)" for k
  proof -
    have "k \<in> dom (ap_conversations a)" using a that by (simp add: app_saved_def keys_ok_def)
    then obtain ms where "ap_conversations a k = Some ms" by blast
    then show ?thesis using a by (auto simp: app_saved_def history_saved_def times_ok_def ran_def)
  qed
  have loop: "restore_contacts E (map snd (ap_contacts a)) ?x = Some (?x\<lparr>ap_contacts := ap_contacts a,
      ap_sessions := stored_session_of E (ap_storage a), ap_conversations := map_option (map trunc_ms) \<circ> ap_conversations a\<rparr>)"
    using restore_contacts_eq [of "ap_contacts a" ?x "ap_conversations a" E] conv a none
    by (auto simp: app_saved_def keys_ok_def fun_eq_iff)
  show ?thesis
  proof (cases "ap_storage a Contacts_Key")
    case None
    then have "ap_contacts a = []" using a by (simp add: app_saved_def contacts_saved_def)
    then show ?thesis using None loop by (simp add: restore_contacts_and_sessions_def fresh_app_def poll Let_def)
  next
    case (Some v)
    then obtain j where j: "ap_storage a Contacts_Key = Some (Json_Text j)" "saved_contacts E (ap_contacts a) = Json_Text j"
      using a by (auto simp: app_saved_def contacts_saved_def saved_contacts_def)
    then show ?thesis
      using saved_contacts_read [OF codecs j(2)] loop by (simp add: restore_contacts_and_sessions_def fresh_app_def poll Let_def)
  qed
qed

lemma trunc_div_again: "trunc_div (trunc_div x 1000 * 1000) 1000 = trunc_div x 1000"
  by (auto simp: trunc_div_def sgn_if)

lemma message_json_trunc [simp]: "message_json (trunc_ms m) = message_json m"
  by (simp add: message_json_def trunc_ms_def trunc_div_again)

lemma saved_restored:
  assumes a: "app_saved E a" and codecs: "dart_ok (ae_dart E)" "codecs_ok (ae_codecs E)"
    and y: "restore_contacts_and_sessions E (fresh_app acct (ap_storage a)) = Some y"
  shows "app_saved E y" "dom (ap_sessions y) = dom (ap_sessions a)"
proof -
  note y' = y [unfolded restore_saved [OF a codecs(1)], simplified]
  have sess: "ap_sessions y k = None \<longleftrightarrow> ap_sessions a k = None" for k
    using a stored_saved_session [OF codecs(2), of "ap_storage a" k] y'
    by (cases "ap_sessions a k") (fastforce simp: app_saved_def sessions_saved_def stored_session_of_def)+
  then show doms: "dom (ap_sessions y) = dom (ap_sessions a)" by (auto simp: dom_def)
  have "saved_history (map_option (map trunc_ms) ms) = saved_history ms" for ms
    by (cases ms) (auto simp: saved_history_def split: list.split)
  moreover have "dom (map_option (map trunc_ms) \<circ> ap_conversations a) = dom (ap_conversations a)" by (auto simp: dom_def)
  moreover have "times_ok y" using a y' by (fastforce simp: app_saved_def times_ok_def ran_def trunc_ms_def intro: trunc_range)
  moreover have "sessions_saved E y"
    using a sess y' unfolding app_saved_def sessions_saved_def by (metis (full_types) app.select_convs(6) option.exhaust_sel)
  ultimately show "app_saved E y"
    using a y' [symmetric] doms by (simp add: app_saved_def keys_ok_def contacts_saved_def history_saved_def poll_saved_def)
qed

section \<open>Reachable states are saved\<close>

lemma load_account_cases:
  assumes "load_account E r st = Inr a0"
  obtains acct where "a0 = fresh_app acct st"
  | acct where "a0 = persist_account E (fresh_app acct st)"
  using assms by (auto simp: load_account_def split: option.splits stored_value.splits sum.splits)

text \<open>The state whose storage a launch reads, with the account it settles on.\<close>

lemma load_saved:
  assumes "app_saved E a" "load_account E r (ap_storage a) = Inr a0"
  shows "\<exists>a1. app_saved E a1 \<and> a0 = fresh_app (ap_account a0) (ap_storage a1) \<and> ap_contacts a1 = ap_contacts a \<and>
    ap_conversations a1 = ap_conversations a \<and> ap_sessions a1 = ap_sessions a \<and> ap_last_poll a1 = ap_last_poll a \<and>
    (\<forall>k. ap_storage a1 (Session_Key k) = ap_storage a (Session_Key k))"
  using assms(2)
proof (cases rule: load_account_cases)
  case (1 acct)
  then show ?thesis using assms(1) by (auto simp: fresh_app_def)
next
  case (2 acct)
  let ?a = "persist_account E (a\<lparr>ap_account := acct\<rparr>)"
  have "app_saved E ?a" using assms(1) by simp
  moreover have "a0 = fresh_app (ap_account a0) (ap_storage ?a)"
    by (simp add: 2 persist_account_def fresh_app_def storage_write_def)
  moreover have "ap_contacts ?a = ap_contacts a \<and> ap_conversations ?a = ap_conversations a \<and> ap_sessions ?a = ap_sessions a \<and>
      ap_last_poll ?a = ap_last_poll a \<and> (\<forall>k. ap_storage ?a (Session_Key k) = ap_storage a (Session_Key k))"
    by (simp add: persist_account_def)
  ultimately show ?thesis by blast
qed

lemma saved_initialize:
  assumes a: "app_saved E a" and codecs: "dart_ok (ae_dart E)" "codecs_ok (ae_codecs E)"
    and init: "initialize E r t now (ap_storage a) w = (Inr a', w')"
  shows "app_saved E a'"
proof -
  obtain a0 y where E: "load_account E r (ap_storage a) = Inr a0" "restore_contacts_and_sessions E a0 = Some y"
    using init by (auto simp: initialize_def split: sum.splits option.splits)
  obtain a1 where a1: "app_saved E a1" "a0 = fresh_app (ap_account a0) (ap_storage a1)" using load_saved [OF a E(1)] by blast
  have "app_saved E y" using saved_restored(1) [OF a1(1) codecs] E(2) a1(2) by metis
  then obtain a2 where "app_saved E a2" "start_transport E r t a2 w = (a', w')"
    using init E saved_sweep [of now y _ _ E] by (auto simp: initialize_def split: prod.splits sum.splits)
  then show ?thesis using saved_step [OF app_step.starts, of E r t a2 w a' w'] by simp
qed

lemma saved_blank: "app_saved E (fresh_app acct Map.empty)"
  by (simp add: saved_defs fresh_app_def saved_history_def)

lemma reach_saved:
  assumes "app_reach E s" "dart_ok (ae_dart E)" "codecs_ok (ae_codecs E)"
  shows "app_saved E (fst s)"
  using assms
proof (induction rule: app_reach.induct)
  case (launch r t now w a w')
  then show ?case using saved_initialize [OF saved_blank, of E r t now undefined w a w'] by (simp add: fresh_app_def)
next
  case (step s s')
  then show ?case using saved_step by (metis prod.collapse)
next
  case (restart a w r t now a' w')
  then show ?case using saved_initialize by (metis fst_conv)
qed

section \<open>The account\<close>

lemma restore_account:
  assumes "restore_contacts_and_sessions E a = Some y"
  shows "ap_account y = ap_account a" "ap_storage y = ap_storage a"
proof -
  have one: "ap_account (restore_session E k x) = ap_account x" "ap_storage (restore_session E k x) = ap_storage x"
    "restore_history k x = Some z \<Longrightarrow> ap_account z = ap_account x \<and> ap_storage z = ap_storage x" for k x z
    by (auto simp: restore_session_def restore_history_def split: option.splits stored_value.splits sum.splits)
  have "ap_account y = ap_account x \<and> ap_storage y = ap_storage x" if "restore_contacts E cs x = Some y" for cs x
    using that
  proof (induction cs arbitrary: x)
    case (Cons c cs)
    then show ?case using one by (fastforce split: option.splits)
  qed simp
  then show "ap_account y = ap_account a" "ap_storage y = ap_storage a"
    using assms by (fastforce simp: restore_contacts_and_sessions_def Let_def split: option.splits stored_value.splits)+
qed

lemma account_initialize:
  assumes "initialize E r t now st w = (Inr a', w')"
  obtains a0 where "load_account E r st = Inr a0" "account_kept E a0 a'"
proof -
  obtain a0 y a2 where E: "load_account E r st = Inr a0" "restore_contacts_and_sessions E a0 = Some y"
    "sweep_expired_messages now y = (Inr (), a2)" "start_transport E r t a2 w = (a', w')"
    using assms by (auto simp: initialize_def split: sum.splits option.splits prod.splits)
  have "account_kept E a0 y" using restore_account [OF E(2)] by auto
  then have "account_kept E a0 a'" using account_kept_sweep [OF E(3)] account_kept_start [OF E(4)] by blast
  with E(1) that show thesis by blast
qed

lemma account_step: "app_step E (a, w) (a', w') \<Longrightarrow> account_kept E a a'"
proof (induction "(a, w)" "(a', w')" rule: app_step.induct)
  case (adds r t i name res)
  then show ?case using account_kept_add_contact [of E a r t i name w] by simp
next
  case (sends r t now k body res)
  then show ?case using account_kept_send_message [of E a r t now k body w] by simp
next
  case (retains r t now k secs res)
  then show ?case using account_kept_set_retention [of E a r t now k secs w] by simp
next
  case (verifies k)
  then show ?case using account_kept_mark_verified by blast
next
  case (polls rs t now res)
  then show ?case using account_kept_poll_once [of E a rs t now w] by simp
next
  case (receives r t now raw res')
  then show ?case using account_kept_handle_incoming [of E a r t now raw w] by simp
next
  case (sweeps now res)
  from account_kept_sweep [OF this(1) account_kept_refl] show ?case .
next
  case (starts r t)
  then show ?case using account_kept_refl by (rule account_kept_start)
qed auto

lemma reach_account:
  assumes "app_reach E s" "kem_ok (ae_crypto E)" "codecs_ok (ae_codecs E)"
  shows "account_saved E (fst s)"
  using assms
proof (induction rule: app_reach.induct)
  case (launch r t now w a w')
  obtain a0 where a0: "load_account E r Map.empty = Inr a0" "account_kept E a0 a" using launch(1) by (rule account_initialize)
  then have "account_saved E a0"
    using kyber_wf_generate [OF launch(2)]
    by (auto simp: load_account_def account_saved_def account_text_def persist_account_def fresh_app_def generate_account_def generate_with_prekeys_def)
  then show ?case using account_saved_kept a0(2) by simp
next
  case (step s s')
  then show ?case using account_saved_kept account_step by (metis prod.collapse)
next
  case (restart a w r t now a' w')
  obtain a0 where a0: "load_account E r (ap_storage a) = Inr a0" "account_kept E a0 a'" using restart(2) by (rule account_initialize)
  have "account_saved E a" using restart by simp
  then have "account_saved E a0" using a0(1) restart.prems(2) by (metis saved_account_loads sum.inject(2))
  then show ?case using account_saved_kept a0(2) by simp
qed

section \<open>Disappearing messages\<close>

text \<open>
  Retention times up to three thousand years and clocks up to the year 33000 are far inside the calendar. There the sweep
  removes exactly the messages that are older than their contact's timer.
\<close>

definition timer_ok :: "int \<Rightarrow> bool" where
  "timer_ok r \<longleftrightarrow> 0 \<le> r \<and> r \<le> 100000000000"

definition clock_ok :: "int \<Rightarrow> bool" where
  "clock_ok now \<longleftrightarrow> 0 \<le> now \<and> now \<le> 1000000000000000000"

definition unexpired :: "int \<Rightarrow> app_contact \<Rightarrow> chat_message list \<Rightarrow> chat_message list" where
  "unexpired now c ms = (case ac_retention c of
     None \<Rightarrow> ms | Some r \<Rightarrow> filter (\<lambda>m. now - r * 1000000 \<le> cm_timestamp m) ms)"

lemma dart_int_self: "- (2 ^ 63) \<le> i \<Longrightarrow> i < 2 ^ 63 \<Longrightarrow> dart_int i = i"
  by (simp add: dart_int_def signed_take_bit_int_eq_self)

lemma cutoff_ok: "clock_ok now \<Longrightarrow> timer_ok r \<Longrightarrow> date_subtract now (duration_seconds r) = Some (now - r * 1000000)"
  by (simp add: date_subtract_def duration_seconds_def dart_int_self clock_ok_def timer_ok_def MAX_INSTANT_def Let_def abs_if)

lemma filter_length_self: "length (filter P xs) = length xs \<longleftrightarrow> filter P xs = xs"
  by (metis filter_True length_filter_less less_irrefl)

lemma sweep_contact_ok:
  assumes "clock_ok now" "\<forall>r. ac_retention c = Some r \<longrightarrow> timer_ok r"
  shows "fst (sweep_contact now c a) = Inr ()"
    "ap_conversations (snd (sweep_contact now c a)) =
      (ap_conversations a)(contact_id c := map_option (unexpired now c) (ap_conversations a (contact_id c)))"
    "ap_contacts (snd (sweep_contact now c a)) = ap_contacts a" "ap_sessions (snd (sweep_contact now c a)) = ap_sessions a"
    "ap_last_poll (snd (sweep_contact now c a)) = ap_last_poll a" "ap_account (snd (sweep_contact now c a)) = ap_account a"
proof -
  let ?P = "\<lambda>r m. now - r * 1000000 \<le> cm_timestamp m"
  have "sweep_contact now c a = (Inr (), case (ac_retention c, ap_conversations a (contact_id c)) of
      (Some r, Some ms) \<Rightarrow> if filter (?P r) ms = ms then a
        else persist_history (contact_id c) (a\<lparr>ap_conversations := (ap_conversations a)(contact_id c \<mapsto> filter (?P r) ms)\<rparr>)
    | _ \<Rightarrow> a)"
    using assms by (auto simp: sweep_contact_def cutoff_ok not_less Let_def filter_length_self [symmetric]
        simp del: filter.simps list.size split: option.split list.split)
  moreover have U: "unexpired now c = (case ac_retention c of None \<Rightarrow> (\<lambda>ms. ms) | Some r \<Rightarrow> filter (?P r))"
    by (simp add: unexpired_def fun_eq_iff split: option.split)
  ultimately show "fst (sweep_contact now c a) = Inr ()"
    "ap_conversations (snd (sweep_contact now c a)) =
      (ap_conversations a)(contact_id c := map_option (unexpired now c) (ap_conversations a (contact_id c)))"
    "ap_contacts (snd (sweep_contact now c a)) = ap_contacts a" "ap_sessions (snd (sweep_contact now c a)) = ap_sessions a"
    "ap_last_poll (snd (sweep_contact now c a)) = ap_last_poll a" "ap_account (snd (sweep_contact now c a)) = ap_account a"
    by (auto simp: U option.map_ident fun_upd_idem split: option.split)
qed

lemma sweep_contacts_ok:
  assumes "clock_ok now" "\<forall>c\<in>set cs. \<forall>r. ac_retention c = Some r \<longrightarrow> timer_ok r" "distinct (map contact_id cs)"
  shows "\<exists>a'. sweep_contacts now cs a = (Inr (), a') \<and> ap_contacts a' = ap_contacts a \<and> ap_sessions a' = ap_sessions a \<and>
    ap_last_poll a' = ap_last_poll a \<and> ap_account a' = ap_account a \<and>
    (\<forall>c\<in>set cs. ap_conversations a' (contact_id c) = map_option (unexpired now c) (ap_conversations a (contact_id c))) \<and>
    (\<forall>k. k \<notin> contact_id ` set cs \<longrightarrow> ap_conversations a' k = ap_conversations a k)"
  using assms(2,3)
proof (induction cs arbitrary: a)
  case (Cons c cs)
  have c: "\<forall>r. ac_retention c = Some r \<longrightarrow> timer_ok r" using Cons.prems(1) by simp
  note S = sweep_contact_ok [OF assms(1) c, of a]
  obtain a1 where a1: "sweep_contact now c a = (Inr (), a1)" using S(1) by (metis prod.collapse)
  obtain a' where "sweep_contacts now cs a1 = (Inr (), a')" "ap_contacts a' = ap_contacts a1" "ap_sessions a' = ap_sessions a1"
    "ap_last_poll a' = ap_last_poll a1" "ap_account a' = ap_account a1"
    "\<forall>c\<in>set cs. ap_conversations a' (contact_id c) = map_option (unexpired now c) (ap_conversations a1 (contact_id c))"
    "\<forall>k. k \<notin> contact_id ` set cs \<longrightarrow> ap_conversations a' k = ap_conversations a1 k"
    using Cons.IH [of a1] Cons.prems by auto
  then show ?case using S(2-) a1 Cons.prems(2) by (auto simp: image_iff)
qed simp

lemma saved_ids: "app_saved E a \<Longrightarrow> distinct (map contact_id (map snd (ap_contacts a)))"
proof -
  assume "app_saved E a"
  then have "distinct (map fst (ap_contacts a))" "map fst (ap_contacts a) = map contact_id (map snd (ap_contacts a))"
    by (auto simp: app_saved_def keys_ok_def)
  then show ?thesis by metis
qed

text \<open>A process that starts from the storage of a saved state.\<close>

lemma saved_restarts:
  assumes a: "app_saved E a" and codecs: "dart_ok (ae_dart E)" "codecs_ok (ae_codecs E)"
    and time: "clock_ok now" "\<forall>c\<in>snd ` set (ap_contacts a). \<forall>r. ac_retention c = Some r \<longrightarrow> timer_ok r"
    and acct: "load_account E r (ap_storage a) = Inr a0"
  shows "\<exists>a' w'. initialize E r t now (ap_storage a) w1 = (Inr a', w') \<and> ap_contacts a' = ap_contacts a \<and>
    ap_last_poll a' = ap_last_poll a \<and> dom (ap_sessions a') = dom (ap_sessions a) \<and>
    (\<forall>k c. map_of (ap_contacts a) k = Some c \<longrightarrow>
      ap_conversations a' k = map_option (unexpired now c \<circ> map trunc_ms) (ap_conversations a k))"
proof -
  obtain a1 where a1: "app_saved E a1" "a0 = fresh_app (ap_account a0) (ap_storage a1)" "ap_contacts a1 = ap_contacts a"
    "ap_conversations a1 = ap_conversations a" "ap_sessions a1 = ap_sessions a" "ap_last_poll a1 = ap_last_poll a"
    using load_saved [OF a acct] by blast
  obtain y where y: "restore_contacts_and_sessions E a0 = Some y" "ap_contacts y = ap_contacts a"
    "ap_last_poll y = ap_last_poll a" "ap_conversations y = map_option (map trunc_ms) \<circ> ap_conversations a"
    using restore_saved [OF a1(1) codecs(1), of "ap_account a0"] a1 by simp
  have doms: "dom (ap_sessions y) = dom (ap_sessions a)"
    using saved_restored(2) [OF a1(1) codecs, of "ap_account a0" y] y(1) a1(2,5) by simp
  obtain a2 where a2: "sweep_expired_messages now y = (Inr (), a2)" "ap_contacts a2 = ap_contacts a" "ap_sessions a2 = ap_sessions y"
    "ap_last_poll a2 = ap_last_poll a" "\<forall>c\<in>snd ` set (ap_contacts a). ap_conversations a2 (contact_id c) =
      map_option (unexpired now c) (ap_conversations y (contact_id c))"
    using sweep_contacts_ok [OF time(1), of "map snd (ap_contacts a)" y] time(2) saved_ids [OF a] y
    by (auto simp: sweep_expired_messages_def)
  obtain a' w' where a': "start_transport E r t a2 w1 = (a', w')" by fastforce
  have keep: "ap_contacts a' = ap_contacts a2" "ap_conversations a' = ap_conversations a2" "ap_sessions a' = ap_sessions a2"
    "ap_last_poll a' = ap_last_poll a2"
    using a' replenish_keeps [of E "ar_opk r" t a2 _ a' w'] by (auto simp: start_transport_def split: app_transport.splits)
  have "ap_conversations a' k = map_option (unexpired now c \<circ> map trunc_ms) (ap_conversations a k)"
    if "map_of (ap_contacts a) k = Some c" for k c
  proof -
    have "(k, c) \<in> set (ap_contacts a)" using that by (rule map_of_SomeD)
    moreover from this have "k = contact_id c" using a by (auto simp: app_saved_def keys_ok_def)
    ultimately show ?thesis using a2(5) y(4) keep(2) by (auto simp: option.map_comp image_iff Bex_def)
  qed
  moreover have "initialize E r t now (ap_storage a) w1 = (Inr a', w')" using acct y(1) a2(1) a' by (simp add: initialize_def)
  ultimately show ?thesis using keep a2 doms by auto
qed

section \<open>A concrete application\<close>

text \<open>
  Alice's application is launched, adds Bob from the relay and sends him a text, which Bob's account accepts; the state
  she is in is the starting point of the concrete runs below.
\<close>

lemma first_launch:
  "initialize E r Offline now Map.empty w = (Inr (persist_account E (fresh_app (generate_account (ae_crypto E) (ar_account r)) Map.empty)), w)"
  by (simp add: initialize_def load_account_def restore_contacts_and_sessions_def persist_account_def fresh_app_def storage_write_def
      sweep_expired_messages_def start_transport_def)

lemma encrypts_again:
  assumes "session_encrypt C S s0 p0 = (Inr m0, s)"
  shows "\<exists>m s'. session_encrypt C S s p = (Inr m, s')"
  using assms by (auto simp: session_encrypt_def ratchet_encrypt_def Let_def split: option.splits prod.splits)

lemma demo_generated:
  "account_wf demo_crypto (generate_account demo_crypto rng)" "kyber_wf demo_crypto (kyber (generate_account demo_crypto rng))"
  using account_wf_generate [OF demo_kem_ok] by (simp_all add: generate_account_def account_wf_def)

abbreviation demo_bob :: account where
  "demo_bob \<equiv> demo_account 8"

abbreviation demo_bob_key :: string where
  "demo_bob_key \<equiv> hex (identity_public demo_crypto (demo_account 8))"

definition demo_scene :: "app \<Rightarrow> relay_store \<Rightarrow> session \<Rightarrow> session \<Rightarrow> bool" where
  "demo_scene a w s sb \<longleftrightarrow> app_reach demo_app_env (a, w) \<and> ap_account a = generate_account demo_crypto (demo_rng 7) \<and>
     ap_storage a Account_Key = Some (Base64_Text (account_to_bytes (cd_account (ae_codecs demo_app_env)) (ap_account a))) \<and>
     ap_contacts a = [(demo_bob_key, \<lparr>ac_identity = identity_public demo_crypto demo_bob, ac_identity_dh = identity_dh_public demo_crypto demo_bob,
       ac_display_name = ''Bob'', ac_verified = False, ac_retention = None\<rparr>)] \<and>
     ap_sessions a demo_bob_key = Some s \<and> ap_storage a (Session_Key demo_bob_key) = Some (saved_session demo_app_env s) \<and>
     ap_conversations a demo_bob_key = Some [\<lparr>cm_direction = Outgoing, cm_text = ''hi'', cm_timestamp = 10000000\<rparr>] \<and>
     (\<forall>p. \<exists>m s'. session_encrypt demo_crypto demo_header_serde s p = (Inr m, s')) \<and>
     (\<exists>m p b'. session_respond demo_crypto demo_header_serde [25] demo_bob m = (Inr (sb, p), b')) \<and>
     (\<forall>reply. \<exists>m' sb'. session_encrypt demo_crypto demo_header_serde sb reply = (Inr m', sb') \<and>
       fst (session_decrypt demo_crypto demo_header_serde [26] s m') = Inr reply)"

text \<open>The draws, the first message to Bob and his answers to it.\<close>

lemma demo_first_message:
  obtains p s blob m sb s0 m0 where "content_encode demo_dart (TextContent ''hi'') = Some p"
    "peer_compose demo_crypto demo_header_serde (serde_of message_fmt) (compose_rng (demo_app_rng 1) (demo_app_rng 2)) x
       (served_bundle demo_crypto demo_bob (first_offer demo_crypto demo_bob)) p = Inr (s, blob)"
    "session_encrypt demo_crypto demo_header_serde s0 p = (Inr m0, s)"
    "session_respond demo_crypto demo_header_serde [25] demo_bob m = (Inr (sb, p), spend (first_offer demo_crypto demo_bob) demo_bob)"
    "\<forall>reply. \<exists>m' sb'. session_encrypt demo_crypto demo_header_serde sb reply = (Inr m', sb') \<and>
       fst (session_decrypt demo_crypto demo_header_serde [26] s m') = Inr reply"
proof -
  let ?r = "compose_rng (demo_app_rng 1) (demo_app_rng 2)" and ?b = "served_bundle demo_crypto demo_bob (first_offer demo_crypto demo_bob)"
  have keys: "distinct (map (x25519_public demo_crypto) [signed_prekey_secret demo_bob, pr_ratchet ?r, [25]])"
    "x25519_public demo_crypto [26] \<notin> x25519_public demo_crypto ` {signed_prekey_secret demo_bob, pr_ratchet ?r, [25]}"
    by (simp_all add: demo_account_def generate_with_prekeys_def demo_rng_def demo_crypto_def pad_to_def compose_rng_def demo_app_rng_def)
  obtain p where p: "content_encode demo_dart (TextContent ''hi'') = Some p" using text_encodes by blast
  obtain s blob m sb where comp: "peer_compose demo_crypto demo_header_serde (serde_of message_fmt) ?r x ?b p = Inr (s, blob)"
    "session_respond demo_crypto demo_header_serde [25] demo_bob m = (Inr (sb, p), spend (first_offer demo_crypto demo_bob) demo_bob)"
    "\<forall>new'' reply. x25519_public demo_crypto new'' \<notin> x25519_public demo_crypto ` {signed_prekey_secret demo_bob, pr_ratchet ?r, [25]} \<longrightarrow>
         (\<exists>m' sb'. session_encrypt demo_crypto demo_header_serde sb reply = (Inr m', sb') \<and>
           fst (session_decrypt demo_crypto demo_header_serde new'' s m') = Inr reply)"
    using composed_message_opens [OF demo_laws serde_of_ok [OF message_fmt_ok] demo_account_wf first_offer_offered keys(1),
        of demo_header_serde x p] by metis
  obtain s0 m0 where "session_encrypt demo_crypto demo_header_serde s0 p = (Inr m0, s)" using compose_parts [OF comp(1)] by metis
  with that p comp(1,2) comp(3) [rule_format, OF keys(2)] show thesis by blast
qed

lemma demo_scene_exists: "\<exists>a w s sb. demo_scene a w s sb"
proof -
  let ?E = demo_app_env and ?r = "demo_app_rng 1" and ?r' = "demo_app_rng 2" and ?rt = "loopback demo_web ''http://relay/'' 10"
  let ?st = "publish store_new (fst (split_bundle demo_crypto demo_bob)) (snd (split_bundle demo_crypto demo_bob))"
  let ?b = "served_bundle demo_crypto demo_bob (first_offer demo_crypto demo_bob)"
  let ?a = "persist_account ?E (fresh_app (generate_account demo_crypto (demo_rng 7)) Map.empty)"
  have start: "app_reach ?E (?a, ?st)"
    using app_reach.launch [OF first_launch [of ?E "demo_app_rng 7" 0 ?st]] by (simp add: demo_app_rng_def)
  have acct: "ap_account ?a = generate_account demo_crypto (demo_rng 7)" "ap_contacts ?a = []" "history ?a k = []"
    "ap_storage ?a Account_Key = Some (Base64_Text (account_to_bytes (cd_account (ae_codecs ?E)) (generate_account demo_crypto (demo_rng 7))))" for k
    by (simp_all add: persist_account_def fresh_app_def history_def)
  obtain p s blob m sb s0 m0 where P: "content_encode demo_dart (TextContent ''hi'') = Some p"
    "peer_compose demo_crypto demo_header_serde (serde_of message_fmt) (compose_rng ?r ?r') (ap_account ?a) ?b p = Inr (s, blob)"
    "session_encrypt demo_crypto demo_header_serde s0 p = (Inr m0, s)"
    "session_respond demo_crypto demo_header_serde [25] demo_bob m = (Inr (sb, p), spend (first_offer demo_crypto demo_bob) demo_bob)"
    "\<forall>reply. \<exists>m' sb'. session_encrypt demo_crypto demo_header_serde sb reply = (Inr m', sb') \<and>
       fst (session_decrypt demo_crypto demo_header_serde [26] s m') = Inr reply"
    by (rule demo_first_message [of "ap_account ?a"])
  obtain st1 where fetch: "net_fetch_bundle demo_web ?rt (pb_identity_ed ?b) ?st = (Inr (Some ?b), st1)"
    using fetch_published [OF demo_sig_ok demo_web_ok, of "''http://relay/''" 10 demo_bob store_new] by auto
  obtain a1 a2 st2 where A: "add_contact ?E ?r (Relay ?rt) (pb_identity_ed ?b) ''Bob'' ?a ?st = (Inr (), a1, st1)"
    "send_message ?E ?r' (Relay ?rt) 10000000 (hex (pb_identity_ed ?b)) ''hi'' a1 st1 = (Inr (), a2, st2)"
    "ap_sessions a2 (hex (pb_identity_ed ?b)) = Some s" "ap_storage a2 (Session_Key (hex (pb_identity_ed ?b))) = Some (saved_session ?E s)"
    "ap_account a2 = ap_account ?a" "ap_storage a2 Account_Key = ap_storage ?a Account_Key"
    "ap_contacts a2 = AList.update (hex (pb_identity_ed ?b)) \<lparr>ac_identity = pb_identity_ed ?b, ac_identity_dh = pb_identity_dh ?b,
       ac_display_name = ''Bob'', ac_verified = False, ac_retention = None\<rparr> (ap_contacts ?a)"
    "ap_conversations a2 (hex (pb_identity_ed ?b)) = Some (history ?a (hex (pb_identity_ed ?b)) @
       [\<lparr>cm_direction = Outgoing, cm_text = ''hi'', cm_timestamp = 10000000\<rparr>])"
    using added_contact_sends [where E = ?E and name = "''Bob''", unfolded demo_env_fields, OF P(2,1) fetch
        relay_takes [where rt = ?rt and now = 10000000 and w = st1]] by blast
  have "app_reach ?E (a1, st1)" using app_reach.step [OF start app_step.adds [OF A(1)]] .
  then have "app_reach ?E (a2, st2)"
    using app_reach.step app_step.sends [OF A(2)] by (simp add: MAX_INSTANT_def)
  then have "demo_scene a2 st2 s sb"
    using A(3-8) acct P(4,5) encrypts_again [OF P(3)] by (auto simp: demo_scene_def identity_dh_public_def)
  then show ?thesis by blast
qed

lemma demo_scene_account:
  assumes "demo_scene a w s sb"
  shows "load_account demo_app_env r (ap_storage a) = Inr (fresh_app (ap_account a) (ap_storage a))"
  using assms demo_generated(1) account_bytes_roundtrip [of "cd_account (ae_codecs demo_app_env)" demo_crypto "ap_account a"] demo_env_fields(6)
  by (simp add: demo_scene_def load_account_def codecs_ok_def)

section \<open>Properties\<close>



end
