(* ===== verification/App_Failures.thy ===== *)
theory App_Failures
  imports App_Restart
begin

text \<open>
  Where the application loses, repeats or shows what it should not: a refused message that looks sent, mail dropped by a
  poll that fails half way, a ratchet step that was sent and not yet written, one-time prekeys that come back with the
  stored account, and a retention time out of the range of the calendar.
\<close>

section \<open>A connection that breaks\<close>

text \<open>A transport whose connection is lost after \<open>n\<close> requests.\<close>

definition flaky :: "'w relay_transport \<Rightarrow> ('w \<times> nat) relay_transport" where
  "flaky t = \<lparr>base_url = base_url t, rt_agent = \<lparr>ag_call = (\<lambda>meth url qs body (st, n). case n of
       0 \<Rightarrow> (Failed ''connection lost'', (st, 0))
     | Suc n' \<Rightarrow> (case ag_call (rt_agent t) meth url qs body st of (res, st') \<Rightarrow> (res, (st', n')))), ag_show = ag_show (rt_agent t)\<rparr>\<rparr>"

lemma flaky_poll:
  "\<exists>e. net_poll W (flaky t) ib (st, 0) = (Inl e, (st, 0))"
  "net_poll W t ib st = (Inr ms, st') \<Longrightarrow> net_poll W (flaky t) ib (st, Suc n) = (Inr ms, (st', n))"
  by (auto simp: net_poll_def flaky_def rt_url_def boxed_def split: prod.splits call_result.splits)

lemma poll_many_flaky:
  assumes "web_ok W" "\<forall>ib\<in>set ibs. length ib = 32" "n < length ibs"
  shows "\<exists>e st'. poll_many W (flaky (loopback W base t)) ibs (st, n) = (Inl e, (st', 0)) \<and>
    (\<forall>ib\<in>set (take n ibs). mailbox st' ib = []) \<and> (\<forall>ib. ib \<notin> set (take n ibs) \<longrightarrow> mailbox st' ib = mailbox st ib)"
  using assms(2,3)
proof (induction ibs arbitrary: n st)
  case (Cons ib ibs)
  show ?case
  proof (cases n)
    case 0
    then show ?thesis using flaky_poll(1) [of W "loopback W base t" ib st] by (auto split: prod.split)
  next
    case (Suc k)
    let ?st = "snd (poll_at st ib t)"
    have poll: "net_poll W (flaky (loopback W base t)) ib (st, n) = (Inr (fst (poll_at st ib t)), (?st, k))"
      using flaky_poll(2) loopback_net_poll [OF assms(1)] Cons.prems(1) Suc by fastforce
    obtain e st' where "poll_many W (flaky (loopback W base t)) ibs (?st, k) = (Inl e, (st', 0))"
      "\<forall>i\<in>set (take k ibs). mailbox st' i = []" "\<forall>i. i \<notin> set (take k ibs) \<longrightarrow> mailbox st' i = mailbox ?st i"
      using Cons.IH [of k ?st] Cons.prems Suc by auto
    moreover have "mailbox ?st ib = []" "i \<noteq> ib \<Longrightarrow> mailbox ?st i = mailbox st i" for i
      using poll_eq(2) [of st ib t] poll_eq(3) [of i ib st t] by simp_all
    ultimately show ?thesis using poll Suc by (cases "ib \<in> set (take k ibs)") auto
  qed
qed simp

section \<open>Timers out of range\<close>

text \<open>A retention time beyond the calendar stops the sweep, and no other contact's messages change that.\<close>

lemma sweep_contact_other: "k \<noteq> contact_id c \<Longrightarrow> ap_conversations (snd (sweep_contact now c a)) k = ap_conversations a k"
  by (simp add: sweep_contact_def Let_def split: option.split list.split)

lemma sweep_contact_error: "fst (sweep_contact now c a) = Inl e \<Longrightarrow> e = Range_Error \<and> snd (sweep_contact now c a) = a"
  by (auto simp: sweep_contact_def Let_def split: option.splits list.splits)

lemma sweep_contact_keeps: "ap_contacts (snd (sweep_contact now c a)) = ap_contacts a"
  by (simp add: sweep_contact_def Let_def split: option.split list.split)

lemma sweep_contacts_fail:
  assumes "c \<in> set cs" "distinct (map contact_id cs)" "ac_retention c = Some r" "date_subtract now (duration_seconds r) = None"
    and "ap_conversations a (contact_id c) = Some ms" "ms \<noteq> []"
  shows "fst (sweep_contacts now cs a) = Inl Range_Error \<and> ap_contacts (snd (sweep_contacts now cs a)) = ap_contacts a \<and>
    ap_conversations (snd (sweep_contacts now cs a)) (contact_id c) = Some ms"
  using assms(1,2,5)
proof (induction cs arbitrary: a)
  case (Cons d cs)
  show ?case
  proof (cases "d = c")
    case True
    then have "sweep_contact now d a = (Inl Range_Error, a)"
      using assms(3,4,6) Cons.prems(3) by (cases ms) (simp_all add: sweep_contact_def)
    then show ?thesis using Cons.prems(3) by simp
  next
    case False
    then have d: "c \<in> set cs" "contact_id c \<noteq> contact_id d" using Cons.prems(1,2) by (auto simp: image_iff)
    obtain res a1 where S: "sweep_contact now d a = (res, a1)" by fastforce
    have "ap_conversations a1 (contact_id c) = Some ms" "ap_contacts a1 = ap_contacts a"
      using sweep_contact_other [OF d(2), of now a] sweep_contact_keeps [of now d a] S Cons.prems(3) by simp_all
    then show ?thesis
      using Cons.IH [OF d(1), of a1] Cons.prems(2,3) S sweep_contact_error [of now d a]
      by (cases res) auto
  qed
qed simp

section \<open>Sending in two halves\<close>

text \<open>
  \<open>_sendContent\<close> up to the end of \<open>await _transportSend\<close>: the message is out, the advanced session is only in memory. A
  process that dies here leaves the storage it had.
\<close>

definition send_unsaved :: "'c app_env \<Rightarrow> app_rng \<Rightarrow> 'w app_transport \<Rightarrow> int \<Rightarrow> string \<Rightarrow> message_content \<Rightarrow> app \<Rightarrow> 'w
    \<Rightarrow> (dart_error + message) \<times> app \<times> 'w" where
  "send_unsaved E r t now cid content a w =
     (case (ap_sessions a cid, map_of (ap_contacts a) cid) of
        (Some s, Some c) \<Rightarrow>
          (case content_encode (ae_dart E) content of
             None \<Rightarrow> (Inl Unsupported_Error, a, w)
           | Some bs \<Rightarrow>
               (case session_encrypt (ae_crypto E) (cd_header (ae_codecs E)) s bs of
                  (Inl _, s') \<Rightarrow> (Inl Clarity_Exception, a\<lparr>ap_sessions := (ap_sessions a)(cid \<mapsto> s')\<rparr>, w)
                | (Inr m, s') \<Rightarrow>
                    (case transport_send E t now c (seal_envelope (ae_crypto E) (ar_seal r) (ap_account a) (ac_identity_dh c)
                        (message_encode (ae_message E) m)) w of
                       (Inl e, w1) \<Rightarrow> (Inl e, a\<lparr>ap_sessions := (ap_sessions a)(cid \<mapsto> s')\<rparr>, w1)
                     | (Inr _, w1) \<Rightarrow> (Inr m, a\<lparr>ap_sessions := (ap_sessions a)(cid \<mapsto> s')\<rparr>, w1))))
      | _ \<Rightarrow> (Inl (State_Error ''no session for contact''), a, w))"

lemma send_content_halves:
  "send_content E r t now cid content a w = (case send_unsaved E r t now cid content a w of
      (Inl e, a1, w1) \<Rightarrow> (Inl e, a1, w1) | (Inr _, a1, w1) \<Rightarrow> (Inr (), persist_session E cid a1, w1))"
  by (simp add: send_content_def send_unsaved_def Let_def split: option.split sum.split prod.split)

lemma send_unsaved_Inr:
  assumes "send_unsaved E r t now k content a w = (Inr m, a1, w1)"
  obtains s c p where "ap_sessions a k = Some s" "content_encode (ae_dart E) content = Some p"
    "fst (session_encrypt (ae_crypto E) (cd_header (ae_codecs E)) s p) = Inr m" "ap_storage a1 = ap_storage a"
  using assms by (auto simp: send_unsaved_def split: option.splits sum.splits prod.splits)

text \<open>What one step of a session makes of any two texts.\<close>

lemma encrypt_shape:
  assumes "fst (session_encrypt C S s p) = Inr m"
  shows "\<exists>h key nonce ad. m = (case pending_handshake s of Some hs \<Rightarrow> PreKey hs h | None \<Rightarrow> Normal h) (xchacha_encrypt C key nonce p ad) \<and>
    (\<forall>p' m'. fst (session_encrypt C S s p') = Inr m' \<longrightarrow>
      m' = (case pending_handshake s of Some hs \<Rightarrow> PreKey hs h | None \<Rightarrow> Normal h) (xchacha_encrypt C key nonce p' ad))"
  using assms
  by (auto simp: session_encrypt_def ratchet_encrypt_def aead_seal_def Let_def split: option.splits prod.splits) blast+

text \<open>A restart leaves each session as the storage had it.\<close>

lemma sweep_contact_sessions: "ap_sessions (snd (sweep_contact now c a)) = ap_sessions a"
  by (simp add: sweep_contact_def Let_def split: option.split list.split)

lemma sweep_contacts_sessions: "ap_sessions (snd (sweep_contacts now cs a)) = ap_sessions a"
proof (induction cs arbitrary: a)
  case (Cons c cs)
  then show ?case using sweep_contact_sessions [of now c a] by (auto split: prod.split sum.split)
qed simp

lemma restarted_session:
  assumes a: "app_saved E a" and codecs: "dart_ok (ae_dart E)"
    and init: "initialize E r t now (ap_storage a) w = (Inr a', w')"
  shows "ap_sessions a' k = stored_session_of E (ap_storage a) k"
proof -
  obtain a0 y a2 where E: "load_account E r (ap_storage a) = Inr a0" "restore_contacts_and_sessions E a0 = Some y"
    "sweep_expired_messages now y = (Inr (), a2)" "start_transport E r t a2 w = (a', w')"
    using init by (auto simp: initialize_def split: sum.splits option.splits prod.splits)
  obtain a1 where a1: "app_saved E a1" "a0 = fresh_app (ap_account a0) (ap_storage a1)" "ap_storage a1 (Session_Key k) = ap_storage a (Session_Key k)"
    using load_saved [OF a E(1)] by blast
  have "ap_sessions y k = stored_session_of E (ap_storage a) k"
    using restore_saved [OF a1(1) codecs, of "ap_account a0"] E(2) a1(2,3) by (auto simp: stored_session_of_def)
  moreover have "ap_sessions a2 = ap_sessions y"
    using sweep_contacts_sessions [of now _ y] E(3) by (metis snd_conv sweep_expired_messages_def)
  moreover have "ap_sessions a' = ap_sessions a2"
    using E(4) replenish_keeps(3) [of E "ar_opk r" t a2 _ a' w'] by (auto simp: start_transport_def split: app_transport.splits)
  ultimately show ?thesis by simp
qed

text \<open>Showing a message does not touch the account, in memory or in storage.\<close>

lemma sweep_contacts_account:
  "ap_account (snd (sweep_contacts now cs a)) = ap_account a \<and> ap_storage (snd (sweep_contacts now cs a)) Account_Key = ap_storage a Account_Key"
proof (induction cs arbitrary: a)
  case (Cons c cs)
  have "ap_account (snd (sweep_contact now c a)) = ap_account a"
    "ap_storage (snd (sweep_contact now c a)) Account_Key = ap_storage a Account_Key"
    by (simp_all add: sweep_contact_def Let_def split: option.split list.split)
  then show ?case using Cons by (auto split: prod.split sum.split)
qed simp

lemma show_content_account:
  "ap_account (snd (show_content E now k c a)) = ap_account a"
  "ap_storage (snd (show_content E now k c a)) Account_Key = ap_storage a Account_Key"
proof -
  have "ap_account (snd (sweep_expired_messages now x)) = ap_account x"
    "ap_storage (snd (sweep_expired_messages now x)) Account_Key = ap_storage x Account_Key" for x
    by (simp_all add: sweep_expired_messages_def sweep_contacts_account)
  from this [of "append_info now k tx (persist_contacts E (a\<lparr>ap_contacts := cs\<rparr>))" for tx cs]
  show "ap_account (snd (show_content E now k c a)) = ap_account a"
    "ap_storage (snd (show_content E now k c a)) Account_Key = ap_storage a Account_Key"
    by (auto simp: show_content_def append_info_def add_message_def Let_def split: message_content.split option.split prod.split sum.split)
      (metis snd_conv)+
qed

lemma respond_takes:
  assumes "session_respond C S new x (PreKey hs h ct) = (Inr (s, plain), y)" "hh_one_time_prekey_id hs = Some i"
  shows "fmlookup (one_time_prekeys x) i \<noteq> None" "fmlookup (one_time_prekeys y) i = None"
  using assms
  by (auto simp: session_respond_def handshake_respond_def consume_one_time_def take_one_time_prekey_def Let_def
      split: if_splits sum.splits prod.splits option.splits)

text \<open>A saved state whose storage stops the application: a contact with an impossible timer and a message.\<close>

definition bricked :: "'c app_env \<Rightarrow> string \<Rightarrow> app \<Rightarrow> bool" where
  "bricked E k a \<longleftrightarrow> app_saved E a \<and> (\<exists>c m ms. map_of (ap_contacts a) k = Some c \<and> ac_retention c = Some 9000000000000 \<and>
     ap_conversations a k = Some (m # ms))"

lemma hostile_cutoff: "0 \<le> now \<Longrightarrow> now \<le> 300000000000000000 \<Longrightarrow> date_subtract now (duration_seconds 9000000000000) = None"
  by (simp add: date_subtract_def duration_seconds_def dart_int_self MAX_INSTANT_def Let_def abs_if)

lemma bricked_sweep:
  assumes "app_saved E a" "map_of cs k = Some c" "cs = ap_contacts a" "ac_retention c = Some 9000000000000"
    and "ap_conversations x k = Some (m # ms)" "0 \<le> now" "now \<le> 300000000000000000"
  shows "\<exists>x'. sweep_contacts now (map snd cs) x = (Inl Range_Error, x') \<and> ap_contacts x' = ap_contacts x \<and> ap_conversations x' k = Some (m # ms)"
proof -
  have "(k, c) \<in> set cs" using assms(2) by (rule map_of_SomeD)
  then have "c \<in> set (map snd cs)" "k = contact_id c" using assms(1,3) by (auto simp: app_saved_def keys_ok_def image_iff Bex_def)
  then show ?thesis
    using sweep_contacts_fail [of c "map snd cs" 9000000000000 now x "m # ms"] saved_ids [OF assms(1)] assms(3-7) hostile_cutoff
    by (metis list.distinct(1) prod.collapse)
qed

lemma bricked_start:
  assumes "bricked E k a" "dart_ok (ae_dart E)" "0 \<le> now" "now \<le> 300000000000000000"
  shows "\<exists>e. initialize E r t now (ap_storage a) w = (Inl e, w)"
proof (cases "load_account E r (ap_storage a)")
  case (Inr a0)
  obtain c m ms where c: "app_saved E a" "map_of (ap_contacts a) k = Some c" "ac_retention c = Some 9000000000000"
    "ap_conversations a k = Some (m # ms)" using assms(1) by (auto simp: bricked_def)
  obtain a1 where a1: "app_saved E a1" "a0 = fresh_app (ap_account a0) (ap_storage a1)" "ap_contacts a1 = ap_contacts a"
    "ap_conversations a1 = ap_conversations a" using load_saved [OF c(1) Inr] by blast
  obtain y where y: "restore_contacts_and_sessions E a0 = Some y" "ap_contacts y = ap_contacts a"
    "ap_conversations y k = Some (trunc_ms m # map trunc_ms ms)"
    using restore_saved [OF a1(1) assms(2), of "ap_account a0"] a1 c(4) by simp
  then obtain x' where "sweep_expired_messages now y = (Inl Range_Error, x')"
    using bricked_sweep [OF c(1,2) refl c(3) y(3) assms(3,4)] by (auto simp: sweep_expired_messages_def)
  then show ?thesis using Inr y(1) by (simp add: initialize_def)
qed (simp add: initialize_def)

lemma hostile_timer_saved:
  assumes a: "app_saved E a" and c: "map_of (ap_contacts a) k = Some c" and now: "0 \<le> now" "now \<le> 300000000000000000"
  shows "\<exists>a'. show_content E now k (TimerUpdateContent (Some 9000000000000)) a = (Inl Range_Error, a') \<and> bricked E k a'"
proof -
  let ?c = "c\<lparr>ac_retention := Some 9000000000000\<rparr>"
  let ?a = "append_info now k (ac_display_name c @ '' set disappearing messages to '' @ retention_label (Some 9000000000000) @ ''.'')
    (persist_contacts E (a\<lparr>ap_contacts := AList.update k ?c (ap_contacts a)\<rparr>))"
  have saved: "app_saved E ?a"
    using saved_update_contact [OF a c, of ?c] contact_has_conversation [OF a c] now
    by (intro saved_append_info) (simp_all add: MAX_INSTANT_def)
  have k: "map_of (ap_contacts ?a) k = Some ?c" by (simp add: append_info_def add_message_def update_conv')
  obtain m ms where conv: "ap_conversations ?a k = Some (m # ms)"
    by (cases "case ap_conversations a k of None \<Rightarrow> [] | Some ms \<Rightarrow> ms") (auto simp: append_info_def add_message_def)
  obtain a' where a': "sweep_expired_messages now ?a = (Inl Range_Error, a')" "ap_contacts a' = ap_contacts ?a"
    "ap_conversations a' k = Some (m # ms)"
    using bricked_sweep [OF saved k refl _ conv now] by (auto simp: sweep_expired_messages_def)
  have "bricked E k a'"
    using saved_sweep [OF a'(1) saved] k a'(2,3) by (auto simp: bricked_def)
  then show ?thesis using c a'(1) by (simp add: show_content_def Let_def)
qed

lemma demo_scene_sends:
  assumes "demo_scene a w s sb" "ap_sessions x demo_bob_key = Some s" "ap_contacts x = ap_contacts a"
  shows "\<exists>m x1. send_unsaved demo_app_env r (Mesh (\<lambda>_ _ w. w)) now demo_bob_key (TextContent body) x w' = (Inr m, x1, w') \<and>
    ap_storage x1 = ap_storage x"
proof -
  obtain p where p: "content_encode demo_dart (TextContent body) = Some p" using text_encodes by blast
  obtain m s' where "session_encrypt demo_crypto demo_header_serde s p = (Inr m, s')" using assms(1) unfolding demo_scene_def by blast
  moreover have "map_of (ap_contacts x) demo_bob_key \<noteq> None" using assms(1,3) by (simp add: demo_scene_def)
  ultimately show ?thesis using p assms(2) by (auto simp: send_unsaved_def transport_send_def)
qed

lemma demo_scene_reply:
  assumes "demo_scene a w s sb"
  obtains m0 p0 b' m' sb' s' where "session_respond demo_crypto demo_header_serde [25] demo_bob m0 = (Inr (sb, p0), b')"
    "session_encrypt demo_crypto demo_header_serde sb p = (Inr m', sb')"
    "session_decrypt demo_crypto demo_header_serde [26] s m' = (Inr p, s')"
proof -
  obtain m0 p0 b' where "session_respond demo_crypto demo_header_serde [25] demo_bob m0 = (Inr (sb, p0), b')"
    using assms unfolding demo_scene_def by blast
  moreover obtain m' sb' where "session_encrypt demo_crypto demo_header_serde sb p = (Inr m', sb')"
    "fst (session_decrypt demo_crypto demo_header_serde [26] s m') = Inr p"
    using assms unfolding demo_scene_def by blast
  ultimately show thesis using that by (cases "session_decrypt demo_crypto demo_header_serde [26] s m'") simp
qed

text \<open>A generated account has a hundred one-time prekeys; a first message that spends one leaves enough.\<close>

lemma mint_prekeys_len: "k < 2 ^ 32 \<Longrightarrow> fm_len (mint_prekeys draw k) = k"
proof (induction k)
  case (Suc k)
  then have "fmlookup (mint_prekeys draw k) (word_of_nat k) = None"
    using mint_prekeys_dom [of k draw "word_of_nat k"] by (auto simp: unat_u32_of_nat)
  from fm_len_upd_new [OF this, of "draw k"] show ?case using Suc unfolding mint_prekeys_Suc by simp
qed (simp add: mint_prekeys_def)

lemma generated_pool: "one_time_prekeys_remaining (generate_account C rng) = 100" "\<exists>sk. fmlookup (one_time_prekeys (generate_account C rng)) 0 = Some sk"
  using mint_prekeys_len [of 100 "rng_opk rng"] mint_prekeys_dom [of 100 "rng_opk rng" 0]
  by (simp_all add: one_time_prekeys_remaining_def generate_account_def generate_with_prekeys_def DEFAULT_ONE_TIME_PREKEYS_def)

lemma respond_names_prekey:
  assumes "session_respond C S new b m = (Inr (s, p), spend (Some opk) b)" "fmlookup (one_time_prekeys b) (fst opk) \<noteq> None"
  obtains hs h ct i where "m = PreKey hs h ct" "hh_one_time_prekey_id hs = Some i"
proof (cases m)
  case (PreKey hs h ct)
  have "spend (Some opk) b \<noteq> b" 
  proof
    assume "spend (Some opk) b = b"
    then have "fmdrop (fst opk) (one_time_prekeys b) = one_time_prekeys b" by (cases b) (simp add: spend_def)
    then show False using assms(2) by (metis fmlookup_drop)
  qed
  moreover have "spend (Some opk) b = b" if "hh_one_time_prekey_id hs = None"
    using assms(1) that PreKey
    by (auto simp: session_respond_def handshake_respond_def consume_one_time_def Let_def split: if_splits sum.splits prod.splits)
  ultimately show ?thesis using that PreKey by blast
qed (use assms(1) in \<open>simp add: session_respond_def\<close>)

lemma demo_generated_first:
  obtains opk blob env hs h ct i s where "open_envelope demo_crypto (generate_account demo_crypto (demo_rng 8)) blob = Inr env"
    "message_decode (serde_of message_fmt) (payload env) = Inr (PreKey hs h ct)" "hh_one_time_prekey_id hs = Some i"
    "session_respond demo_crypto demo_header_serde [25] (generate_account demo_crypto (demo_rng 8)) (PreKey hs h ct) =
       (Inr (s, [104, 105]), spend (Some opk) (generate_account demo_crypto (demo_rng 8)))"
    "PREKEY_LOW_WATER \<le> one_time_prekeys_remaining (spend (Some opk) (generate_account demo_crypto (demo_rng 8)))"
proof -
  let ?B = "generate_account demo_crypto (demo_rng 8)" and ?M = "serde_of message_fmt"
  obtain sk where sk: "fmlookup (one_time_prekeys ?B) 0 = Some sk" using generated_pool(2) by blast
  let ?opk = "(0, x25519_public demo_crypto sk)"
  have off: "offered demo_crypto ?B (Some ?opk)" using sk publics_lookup [of 0 _ demo_crypto ?B] by (auto simp: offered_def)
  have left: "PREKEY_LOW_WATER \<le> one_time_prekeys_remaining (spend (Some ?opk) ?B)"
    using generated_pool(1) [of demo_crypto "demo_rng 8"] fm_len_drop [OF sk]
    unfolding one_time_prekeys_remaining_def spend_def PREKEY_LOW_WATER_def by simp
  have keys: "distinct (map (x25519_public demo_crypto) [signed_prekey_secret ?B, pr_ratchet demo_peer, [25]])"
    by (simp add: generate_account_def generate_with_prekeys_def demo_rng_def demo_crypto_def pad_to_def demo_peer_def)
  obtain s blob m sb where P: "peer_compose demo_crypto demo_header_serde ?M demo_peer (demo_account 7) (served_bundle demo_crypto ?B (Some ?opk)) [104, 105] = Inr (s, blob)"
    "blob = seal_envelope demo_crypto (pr_seal demo_peer) (demo_account 7) (identity_dh_public demo_crypto ?B) (message_encode ?M m)"
    "length (message_encode ?M m) < 2 ^ 32 \<longrightarrow> open_envelope demo_crypto ?B blob = Inr \<lparr>sender_identity_ed = identity_public demo_crypto (demo_account 7),
        sender_identity_dh = identity_dh_public demo_crypto (demo_account 7), payload = message_encode ?M m\<rparr>"
    "message_decode ?M (message_encode ?M m) = Inr m"
    "session_respond demo_crypto demo_header_serde [25] ?B m = (Inr (sb, [104, 105]), spend (Some ?opk) ?B)"
    using composed_message_opens [OF demo_laws serde_of_ok [OF message_fmt_ok] demo_generated(2) off keys, of demo_header_serde "demo_account 7" "[104, 105]"]
    by metis
  obtain m1 where "blob = seal_envelope demo_crypto (pr_seal demo_peer) (demo_account 7) (identity_dh_public demo_crypto ?B) (message_encode ?M m1)"
    "length (message_encode ?M m1) \<le> 4000"
    using first_message_size [OF demo_sig_ok demo_kem_ok demo_dh_len demo_aead_tag_len demo_generated(2) P(1)]
    by (auto simp: message_encode_def serde_of_def)
  then have "length blob \<le> 10000" using demo_envelope_size by simp
  then have "length (message_encode ?M m) < 2 ^ 32"
    using sealed_longer [OF demo_dh_len demo_aead_tag_len, of "message_encode ?M m" "pr_seal demo_peer" "demo_account 7" "identity_dh_public demo_crypto ?B"]
    by (simp add: P(2))
  note opened = P(3) [rule_format, OF this]
  obtain hs h ct i where "m = PreKey hs h ct" "hh_one_time_prekey_id hs = Some i"
    by (rule respond_names_prekey [OF P(5)]) (simp_all add: sk)
  then show thesis using that opened P(4,5) left by fastforce
qed

section \<open>Properties\<close>

text \<open>
  C22: a crash between sending and saving makes the next message reuse the key. The session of a contact is saved as it
  is; the application encrypts a text and hands it to the transport, and the process dies before the advanced session
  is written. The restarted application sends another text to the same contact: it goes out with the same header, and
  the two ciphertexts are XChaCha20-Poly1305 under the same key, the same nonce and the same associated data.
\<close>

theorem crash_reuses_keystream:
  assumes codecs: "codecs_ok (ae_codecs E)" "dart_ok (ae_dart E)"
    and a: "app_saved E a" "ap_sessions a k = Some s" "ap_storage a (Session_Key k) = Some (saved_session E s)"
    and sent: "send_unsaved E r t now k (TextContent b1) a w = (Inr m1, a1, w1)"
    and restart: "initialize E r' t' now' (ap_storage a1) w2 = (Inr a2, w3)"
    and again: "send_unsaved E r'' t'' now'' k (TextContent b2) a2 w3 = (Inr m2, a3, w4)"
  shows "\<exists>frame p1 p2 key nonce ad. content_encode (ae_dart E) (TextContent b1) = Some p1 \<and>
    content_encode (ae_dart E) (TextContent b2) = Some p2 \<and> (\<exists>h. frame = Normal h \<or> (\<exists>hs. frame = PreKey hs h)) \<and>
    m1 = frame (xchacha_encrypt (ae_crypto E) key nonce p1 ad) \<and> m2 = frame (xchacha_encrypt (ae_crypto E) key nonce p2 ad)"
proof -
  obtain p1 where p1: "content_encode (ae_dart E) (TextContent b1) = Some p1"
    "fst (session_encrypt (ae_crypto E) (cd_header (ae_codecs E)) s p1) = Inr m1" "ap_storage a1 = ap_storage a"
    using send_unsaved_Inr [OF sent] a(2) by (metis option.inject)
  have "ap_sessions a2 k = Some s"
    using restarted_session [OF a(1) codecs(2) restart [unfolded p1(3)]] stored_saved_session [of E "ap_storage a" k s] codecs(1) a(3)
    by simp
  then obtain p2 where p2: "content_encode (ae_dart E) (TextContent b2) = Some p2"
    "fst (session_encrypt (ae_crypto E) (cd_header (ae_codecs E)) s p2) = Inr m2"
    using send_unsaved_Inr [OF again] by (metis option.inject)
  obtain h key nonce ad where "m1 = (case pending_handshake s of Some hs \<Rightarrow> PreKey hs h | None \<Rightarrow> Normal h)
      (xchacha_encrypt (ae_crypto E) key nonce p1 ad)"
    "m2 = (case pending_handshake s of Some hs \<Rightarrow> PreKey hs h | None \<Rightarrow> Normal h) (xchacha_encrypt (ae_crypto E) key nonce p2 ad)"
    using encrypt_shape [OF p1(2)] p2(2) by blast
  then show ?thesis using p1(1) p2(1)
    by (intro exI [of _ "case pending_handshake s of Some hs \<Rightarrow> PreKey hs h | None \<Rightarrow> Normal h"]) (auto split: option.split)
qed

theorem crash_reuses_keystream_witness:
  "\<exists>a (w :: relay_store) m1 a1 w1 a2 w3 m2 a3 w4 frame p1 p2 key nonce ad. app_reach demo_app_env (a, w) \<and>
     send_unsaved demo_app_env (demo_app_rng 3) (Mesh (\<lambda>_ _ w. w)) 20000000 demo_bob_key (TextContent ''one'') a w = (Inr m1, a1, w1) \<and>
     initialize demo_app_env (demo_app_rng 4) Offline 30000000 (ap_storage a1) w1 = (Inr a2, w3) \<and>
     send_unsaved demo_app_env (demo_app_rng 5) (Mesh (\<lambda>_ _ w. w)) 40000000 demo_bob_key (TextContent ''two'') a2 w3 = (Inr m2, a3, w4) \<and>
     content_encode demo_dart (TextContent ''one'') = Some p1 \<and> content_encode demo_dart (TextContent ''two'') = Some p2 \<and>
     m1 = frame (xchacha_encrypt demo_crypto key nonce p1 ad) \<and> m2 = frame (xchacha_encrypt demo_crypto key nonce p2 ad)"
proof -
  let ?E = demo_app_env
  obtain a w s sb where scene: "demo_scene a w s sb" using demo_scene_exists by blast
  then have reach: "app_reach ?E (a, w)" by (simp add: demo_scene_def)
  have dart: "dart_ok (ae_dart ?E)" by (simp add: demo_dart_ok)
  have saved: "app_saved ?E a" using reach_saved [OF reach dart demo_env_fields(6)] by simp
  have stored: "ap_storage a (Session_Key demo_bob_key) = Some (saved_session ?E s)" "ap_sessions a demo_bob_key = Some s"
    using scene by (simp_all add: demo_scene_def)
  obtain m1 a1 where one: "send_unsaved ?E (demo_app_rng 3) (Mesh (\<lambda>_ _ w. w)) 20000000 demo_bob_key (TextContent ''one'') a w = (Inr m1, a1, w)"
    "ap_storage a1 = ap_storage a" using demo_scene_sends [OF scene stored(2) refl, where w' = w] by blast
  have time: "clock_ok 30000000" "\<forall>c\<in>snd ` set (ap_contacts a). \<forall>r. ac_retention c = Some r \<longrightarrow> timer_ok r"
    using scene by (auto simp: clock_ok_def demo_scene_def)
  obtain a2 w3 where restart: "initialize ?E (demo_app_rng 4) Offline 30000000 (ap_storage a1) w = (Inr a2, w3)" "ap_contacts a2 = ap_contacts a"
    using saved_restarts [OF saved dart demo_env_fields(6) time demo_scene_account [OF scene], of "demo_app_rng 4" Offline w] one(2) by auto
  have "ap_sessions a2 demo_bob_key = Some s"
    using restarted_session [OF saved dart restart(1) [unfolded one(2)]] stored_saved_session [of ?E "ap_storage a" demo_bob_key s] stored(1) by simp
  then obtain m2 a3 where two: "send_unsaved ?E (demo_app_rng 5) (Mesh (\<lambda>_ _ w. w)) 40000000 demo_bob_key (TextContent ''two'') a2 w3 = (Inr m2, a3, w3)"
    using demo_scene_sends [OF scene _ restart(2), where w' = w3] by blast
  show ?thesis
    using crash_reuses_keystream [OF demo_env_fields(6) dart saved stored(2,1) one(1) restart(1) two] reach one(1) restart(1) two
    unfolding demo_env_fields by metis
qed



text \<open>
  C21: a contact can keep the application from ever starting again. In any reachable state, a contact with a session sends
  a timer update of nine million million seconds. Handling it throws (the cut-off instant lies outside the range of
  \<open>DateTime\<close>), and with it the rest of that poll's mail is dropped; the timer and the notice are already in the
  storage. From then on, until the year 11000, every start of the application runs into the same exception before it
  opens a transport: it fails, and the network sees nothing of it.
\<close>

theorem hostile_timer_bricks:
  fixes E :: "'c app_env" and now :: int
  defines "C \<equiv> ae_crypto E" and "S \<equiv> cd_header (ae_codecs E)"
  assumes reach: "app_reach E (a, w)" and codecs: "dart_ok (ae_dart E)" "codecs_ok (ae_codecs E)"
    and msg: "open_envelope C (ap_account a) raw = Inr env" "ap_sessions a (hex (sender_identity_ed env)) = Some s"
      "message_decode (ae_message E) (payload env) = Inr m" "session_decrypt C S (ar_ratchet r) s m = (Inr plain, s')"
      "content_decode (ae_dart E) plain = TimerUpdateContent (Some 9000000000000)"
    and now: "0 \<le> now" "now \<le> 300000000000000000"
  shows "\<exists>a'. app_handle_incoming E r t now raw a w = (Inl Range_Error, a', w) \<and>
    (\<forall>r' t' now' w'. 0 \<le> now' \<and> now' \<le> 300000000000000000 \<longrightarrow> (\<exists>e. initialize E r' t' now' (ap_storage a') w' = (Inl e, w')))"
proof -
  let ?k = "hex (sender_identity_ed env)"
  let ?a1 = "persist_contacts E (persist_session E ?k (a\<lparr>ap_sessions := (ap_sessions a)(?k \<mapsto> s')\<rparr>))"
  have a: "app_saved E a" using reach_saved [OF reach codecs] by simp
  have a1: "app_saved E ?a1"
    using a msg(2) by (simp add: saved_persist_contacts saved_persist_session saved_session_state)
  have "?k \<in> fst ` set (ap_contacts a)" using a msg(2) by (metis app_saved_def domI keys_ok_def subsetD)
  then have "map_of (ap_contacts a) ?k \<noteq> None" by (simp add: map_of_eq_None_iff)
  then obtain c where c: "map_of (ap_contacts ?a1) ?k = Some c" by auto
  obtain a' where a': "show_content E now ?k (TimerUpdateContent (Some 9000000000000)) ?a1 = (Inl Range_Error, a')" "bricked E ?k a'"
    using hostile_timer_saved [OF a1 c now] by blast
  have "app_handle_incoming E r t now raw a w = (Inl Range_Error, a', w)"
    using msg a'(1) by (simp add: app_handle_incoming_def C_def S_def Let_def)
  then show ?thesis
    by (intro exI [of _ a'] conjI allI impI bricked_start [OF a'(2) codecs(1)]) simp_all
qed

theorem hostile_timer_bricks_witness:
  "\<exists>a (w :: relay_store) raw a'. app_reach demo_app_env (a, w) \<and>
     app_handle_incoming demo_app_env ((demo_app_rng 3)\<lparr>ar_ratchet := [26]\<rparr>) Offline 20000000 raw a w = (Inl Range_Error, a', w) \<and>
     (\<exists>e. initialize demo_app_env (demo_app_rng 4) Offline 30000000 (ap_storage a') w = (Inl e, w))"
proof -
  let ?E = demo_app_env and ?M = "serde_of message_fmt" and ?r = "(demo_app_rng 3)\<lparr>ar_ratchet := [26]\<rparr>"
  obtain a w s sb where scene: "demo_scene a w s sb" using demo_scene_exists by blast
  let ?p = "dc_encode demo_dart (the (content_json (TimerUpdateContent (Some 9000000000000))))"
  have p: "content_decode demo_dart ?p = TimerUpdateContent (Some 9000000000000)"
    by (rule content_roundtrip [OF demo_dart_ok]) (simp_all add: content_encode_def content_json_def dart_int_self)
  have len: "length ?p \<le> 100" by (simp add: demo_dart_def content_json_def opt_int_json_def)
  obtain m0 p0 b' m' sb' s' where R: "session_respond demo_crypto demo_header_serde [25] demo_bob m0 = (Inr (sb, p0), b')"
    "session_encrypt demo_crypto demo_header_serde sb ?p = (Inr m', sb')"
    "session_decrypt demo_crypto demo_header_serde [26] s m' = (Inr ?p, s')"
    by (rule demo_scene_reply [OF scene])
  let ?raw = "seal_envelope demo_crypto [27] demo_bob (identity_dh_public demo_crypto (ap_account a)) (message_encode ?M m')"
  have "length (message_encode ?M m') < 2 ^ 32"
    using sealed_longer [OF demo_dh_len demo_aead_tag_len, of "message_encode ?M m'" "[27]" demo_bob "identity_dh_public demo_crypto (ap_account a)"]
      demo_reply_size [OF R(1,2) len, of "[27]" demo_bob "identity_dh_public demo_crypto (ap_account a)"] by simp
  then have opened: "open_envelope demo_crypto (ap_account a) ?raw = Inr \<lparr>sender_identity_ed = identity_public demo_crypto demo_bob,
      sender_identity_dh = identity_dh_public demo_crypto demo_bob, payload = message_encode ?M m'\<rparr>"
    using open_sealed [OF demo_aead_ok demo_dh_ok demo_dh_len demo_sig_ok demo_aead_tag_len] by simp
  have reach: "app_reach ?E (a, w)" and sess: "ap_sessions a demo_bob_key = Some s" using scene by (simp_all add: demo_scene_def)
  have dec: "message_decode ?M (message_encode ?M m') = Inr m'" by (simp add: message_decode_encode serde_of_ok message_fmt_ok)
  have "\<exists>a'. app_handle_incoming ?E ?r Offline 20000000 ?raw a w = (Inl Range_Error, a', w) \<and>
    (\<forall>r' t' now' w'. 0 \<le> now' \<and> now' \<le> 300000000000000000 \<longrightarrow> (\<exists>e. initialize ?E r' t' now' (ap_storage a') (w' :: relay_store) = (Inl e, w')))"
    by (rule hostile_timer_bricks [where E = ?E, unfolded demo_env_fields, OF reach demo_dart_ok demo_env_fields(6) opened])
      (use sess dec R(3) p in simp_all)
  then obtain a' where "app_handle_incoming ?E ?r Offline 20000000 ?raw a w = (Inl Range_Error, a', w)"
    "\<forall>r' t' now' w'. 0 \<le> now' \<and> now' \<le> 300000000000000000 \<longrightarrow> (\<exists>e. initialize ?E r' t' now' (ap_storage a') (w' :: relay_store) = (Inl e, w'))"
    by blast
  moreover have "0 \<le> (30000000 :: int) \<and> (30000000 :: int) \<le> 300000000000000000" by simp
  ultimately show ?thesis using reach by blast
qed

text \<open>
  The relay's answer to a message is never looked at. What \<open>sendMessage\<close> reports and the state it leaves, with the text
  shown as sent and the ratchet advanced and saved, are the same for any two relays in any two states: one that
  queues the message, one that refuses it as too large, one that cannot be reached.
\<close>

lemma send_ignores_relay:
  "fst (send_message E r (Relay rt) now k body a w) = fst (send_message E r (Relay rt') now k body a w') \<and>
   fst (snd (send_message E r (Relay rt) now k body a w)) = fst (snd (send_message E r (Relay rt') now k body a w'))"
  by (simp add: send_message_def send_content_def transport_send_def Let_def split: option.split sum.split prod.split)

text \<open>
  C24: a poll that fails half way loses the mail it had. The connection breaks after \<open>n\<close> of the window's inboxes have been
  drained: the application returns to its timer as if nothing had happened and shows none of the mail, while the relay
  has already deleted it; the inboxes it had not reached keep theirs.
\<close>

theorem poll_failure_loses_mail:
  fixes E :: "'c app_env"
  defines "C \<equiv> ae_crypto E" and "W \<equiv> ae_web E"
  assumes "web_ok W" "hash_len C" "n < length (poll_window (ap_last_poll a) (uint (current_epoch now)))"
  shows "\<exists>st'. poll_once E r (Relay (flaky (loopback W base t))) now a (st, n) = (Inr (), a, (st', 0)) \<and>
    (let ibs = map (\<lambda>e. inbox_id C (identity_public C (ap_account a)) (word_of_int e))
           (take n (poll_window (ap_last_poll a) (uint (current_epoch now))))
     in (\<forall>ib\<in>set ibs. mailbox st' ib = []) \<and> (\<forall>ib. ib \<notin> set ibs \<longrightarrow> mailbox st' ib = mailbox st ib))"
proof -
  let ?ibs = "map (\<lambda>e. inbox_id C (identity_public C (ap_account a)) (word_of_int e)) (poll_window (ap_last_poll a) (uint (current_epoch now)))"
  have "\<forall>ib\<in>set ?ibs. length ib = 32" using assms(4) by (simp add: inbox_id_def hash_len_def)
  from poll_many_flaky [OF assms(3) this, of n base t st] show ?thesis
    using assms(5) by (auto simp: poll_once_def C_def W_def Let_def take_map)
qed

theorem poll_failure_loses_mail_witness:
  "\<exists>st m st'. mailbox st (inbox_id demo_crypto (identity_public demo_crypto (demo_account 7)) 0) = [m] \<and>
     poll_once demo_app_env (\<lambda>_. demo_app_rng 3) (Relay (flaky (loopback demo_web ''http://relay/'' 20))) 20000000 (demo_app 7) (st, 1) =
       (Inr (), demo_app 7, (st', 0)) \<and>
     mailbox st' (inbox_id demo_crypto (identity_public demo_crypto (demo_account 7)) 0) = []"
proof -
  let ?ib = "inbox_id demo_crypto (identity_public demo_crypto (demo_account 7)) 0"
  obtain st m where st: "mailbox st ?ib = [m]"
    using enqueue_keeps_new [OF demo_relay(1), of "[1]" ?ib 10] demo_relay(3) [of ?ib] by (auto simp: default_limits_def demo_relay(2))
  have ep: "current_epoch 20000000 = 0" by (simp add: current_epoch_def trunc_div_def epoch_for_unix_def INBOX_EPOCH_SECONDS_def)
  have win: "poll_window None 0 = [0, 1]" by (simp add: poll_window_def window_from_def MAX_POLL_EPOCHS_def Let_def upto.simps)
  show ?thesis
    using poll_failure_loses_mail [of demo_app_env 1 "demo_app 7" 20000000 "\<lambda>_. demo_app_rng 3" "''http://relay/''" 20 st] st
    by (auto simp: ep win demo_web_ok demo_hash_len)
qed

end
