(* ===== verification/App_Mesh.thy ===== *)
theory App_Mesh
  imports App_Flow Mesh
begin

text \<open>
  The application over the Bluetooth mesh: \<open>MeshService\<close> of \<^verbatim>\<open>app/lib/src/services/mesh_service.dart\<close> around a
  routing node of \<^verbatim>\<open>mesh/src/lib.rs\<close>. The radio belongs to the platform; what is modelled of it is the list of frames
  handed to \<open>broadcast\<close>. Each payload of the inbox stream is a separate event for the application.
\<close>

record mesh_service =
  ms_node :: mesh_node
  ms_broadcast :: "bytes list"
    \<comment> \<open>the frames given to the radio, oldest first\<close>

definition service_new :: "bytes \<Rightarrow> mesh_service" where
  "service_new my_identity = \<lparr>ms_node = new_node my_identity, ms_broadcast = []\<rparr>"

definition service_send :: "mesh_frame serde \<Rightarrow> bytes \<Rightarrow> bytes \<Rightarrow> bytes \<Rightarrow> mesh_service \<Rightarrow> mesh_service" where
  "service_send F rng rcpt encrypted_payload ms =
     (let (frame, node) = originate rng (ms_node ms) rcpt encrypted_payload
      in ms\<lparr>ms_node := node, ms_broadcast := ms_broadcast ms @ [frame_encode F frame]\<rparr>)"

text \<open>\<open>_onFrame\<close>: the result of \<open>_ingest\<close> is not looked at; the payloads go to the inbox stream.\<close>

definition service_on_frame :: "mesh_frame serde \<Rightarrow> bytes \<Rightarrow> mesh_service \<Rightarrow> bytes list \<times> mesh_service" where
  "service_on_frame F frame_bytes ms =
     (let node = snd (ingest F (ms_node ms) frame_bytes); (delivered, node') = take_inbox node
      in (delivered, ms\<lparr>ms_node := node'\<rparr>))"

definition service_flush :: "mesh_frame serde \<Rightarrow> mesh_service \<Rightarrow> mesh_service" where
  "service_flush F ms =
     (let pending = pending_broadcast F (ms_node ms)
      in if pending = [] then ms else ms\<lparr>ms_broadcast := ms_broadcast ms @ pending\<rparr>)"

text \<open>
  The listener that \<open>_startTransport\<close> puts on the stream. An exception ends the event it happens in; the next payload is
  handled all the same.
\<close>

fun mesh_inbox :: "'c app_env \<Rightarrow> (nat \<Rightarrow> app_rng) \<Rightarrow> int \<Rightarrow> bytes list \<Rightarrow> app \<Rightarrow> app" where
  "mesh_inbox E r now [] a = a"
| "mesh_inbox E r now (p # ps) a =
     (case app_handle_incoming E (r 0) (Mesh (\<lambda>_ _ w. w)) now p a () of (_, a', _) \<Rightarrow> mesh_inbox E (r \<circ> Suc) now ps a')"

lemma saved_mesh_inbox: "app_saved E a \<Longrightarrow> \<bar>now\<bar> \<le> MAX_INSTANT \<Longrightarrow> app_saved E (mesh_inbox E r now ps a)"
proof (induction ps arbitrary: r a)
  case (Cons p ps)
  then show ?case
    using saved_handle_incoming [OF Cons.prems, of "r 0" "Mesh (\<lambda>_ _ w. w)" p "()"] by (auto split: prod.split)
qed simp

lemma mark_seen_keeps: "inbox (mark_seen i n) = inbox n" "me (mark_seen i n) = me n"
  by (simp_all add: mark_seen_def Let_def split: list.split)

lemma on_frame_delivers:
  assumes "serde_ok F" "recipient f = me (ms_node ms)" "msg_id f |\<notin>| seen (ms_node ms)" "inbox (ms_node ms) = []"
  shows "fst (service_on_frame F (frame_encode F f) ms) = [fr_payload f]"
proof -
  have "ingest F (ms_node ms) (frame_encode F f) = (Inr (fst (handle_incoming (ms_node ms) f)), snd (handle_incoming (ms_node ms) f))"
    using assms(1) by (simp add: ingest_def frame_decode_def frame_encode_def serde_ok_def map_err_def split: prod.split)
  moreover have "inbox (snd (handle_incoming (ms_node ms) f)) = [fr_payload f]"
    using assms(2-4) by (simp add: handle_incoming_def mark_seen_keeps Let_def)
  ultimately show ?thesis by (simp add: service_on_frame_def take_inbox_def Let_def)
qed

section \<open>Property\<close>



end
