(* ===== verification/Spec2Isabelle.thy ===== *)
theory Spec2Isabelle
  imports Conversation Session Enclave Envelope Inbox Safety Mesh Mesh_Network Mesh_Delivery Transport Relay_Store Relay_Server Relay_Main
    Relay_Spec Relay_Threads Relay_Durability Net Group Peer Peer_Main Prekey_Directory Ffi_Memory Ffi Ffi_Transport Ffi_Host Ffi_Protocol
    Impersonation App_Content App App_Saved App_Account App_Flow App_Restart App_Failures App_Mesh
begin

text \<open>
  Clarity is an end-to-end encrypted messenger written in Rust, with a mobile application in Dart. This development models
  its protocol core, its mesh router, its relay server with its client, its group wrapper, the C interface the mobile
  application uses, the example peer that joins them, and the state of the application itself, function by function.

  \<^bold>\<open>The program.\<close> \<^verbatim>\<open>core\<close> holds the cryptographic protocol: an \<open>Account\<close> of long-term and prekey secrets publishes a
  signed bundle; a handshake (X3DH with an ML-KEM leg) turns a bundle into a shared root; a double ratchet turns the root
  into message keys; a \<open>Session\<close> couples the two; an \<open>Enclave\<close> runs sessions on sealed bytes; envelopes hide the sender
  and pad sizes; inbox identifiers rotate daily; safety numbers compare identities. \<^verbatim>\<open>relay\<close> is an HTTP server with a
  prekey directory and mailboxes, persisted as snapshots. \<^verbatim>\<open>net\<close> is its client, \<^verbatim>\<open>mesh\<close> a flooding router for
  device-to-device links; both implement the trait \<open>Transport\<close>. \<^verbatim>\<open>group\<close> wraps OpenMLS. \<^verbatim>\<open>ffi\<close> hands accounts, sessions,
  transports and mesh nodes to a host language as raw pointers, and byte strings as buffers the host gives back. \<^verbatim>\<open>app\<close> is
  the application over \<^verbatim>\<open>ffi\<close>: \<open>AppState\<close> keeps contacts, sessions and conversations, writes them to secure storage, polls
  the relay or listens to the mesh, and deletes messages past their timer.

  \<^bold>\<open>Theories\<close>, in dependency order, with the sources under \<^verbatim>\<open>src/\<close>:
  \<^item> \<open>Prelude\<close>: machine types, \<open>ok_or\<close>/\<open>map_err\<close>, little-endian integers, maps, and the codec interfaces.
  \<^item> \<open>Primitives\<close>: the third-party libraries as parameters (\<open>crypto\<close>, \<open>serde\<close>), what the code relies on as named
    predicates (\<open>aead_ok\<close>, \<open>dh_ok\<close>, \<open>sig_ok\<close>, \<open>kem_ok\<close>, \<open>serde_ok\<close>, \<open>hash_len\<close>, ...), and \<open>demo_crypto\<close>, a concrete
    instance of all of them. \<open>Format\<close>: a concrete serialiser.
  \<^item> \<open>Wire\<close> (\<^verbatim>\<open>core/src/error.rs\<close>, \<^verbatim>\<open>wire.rs\<close>), \<open>Kdf\<close> (\<^verbatim>\<open>kdf.rs\<close>), \<open>Pqkem\<close> (\<^verbatim>\<open>pqkem.rs\<close>), \<open>Identity\<close> (\<^verbatim>\<open>identity.rs\<close>),
    \<open>Handshake\<close> (\<^verbatim>\<open>handshake.rs\<close>), \<open>Ratchet\<close> (\<^verbatim>\<open>ratchet.rs\<close>), \<open>Session\<close> (\<^verbatim>\<open>session.rs\<close>), \<open>Enclave\<close> (\<^verbatim>\<open>enclave.rs\<close>),
    \<open>Envelope\<close> (\<^verbatim>\<open>envelope.rs\<close>), \<open>Inbox\<close> (\<^verbatim>\<open>inbox.rs\<close>), \<open>Safety\<close> (\<^verbatim>\<open>safety.rs\<close>). \<open>Conversation\<close> runs two ratchets against
    each other over a network that loses, delays and reorders packets.
  \<^item> \<open>Mesh\<close> (\<^verbatim>\<open>mesh/src/lib.rs\<close>, \<^verbatim>\<open>frame.rs\<close>), \<open>Mesh_Network\<close> (many nodes in range of each other),
    \<open>Mesh_Delivery\<close> (a first message over the mesh) and \<open>Transport\<close> (\<^verbatim>\<open>core/src/transport.rs\<close>).
  \<^item> \<open>Relay_Store\<close> (\<^verbatim>\<open>relay/src/store.rs\<close>), \<open>Relay_Server\<close> (\<^verbatim>\<open>server.rs\<close>, \<^verbatim>\<open>protocol.rs\<close>), \<open>Relay_Main\<close>
    (\<^verbatim>\<open>main.rs\<close> and the start of the server in \<^verbatim>\<open>server.rs\<close>), \<open>Relay_Spec\<close> (the service the relay promises, abstractly),
    \<open>Relay_Threads\<close> and \<open>Relay_Durability\<close> (the store of \<^verbatim>\<open>store.rs\<close> shared by threads, its two mutexes and the writing of
    its file step by step), \<open>Net\<close> (\<^verbatim>\<open>net/src/lib.rs\<close>).
  \<^item> \<open>Group\<close> (\<^verbatim>\<open>group/src/lib.rs\<close>), \<open>Peer\<close> and \<open>Peer_Main\<close> (\<^verbatim>\<open>net/examples/demo_peer.rs\<close>), \<open>Prekey_Directory\<close>
    (first contacts through the directory).
  \<^item> \<open>Ffi_Memory\<close> (buffers, strings and slices of \<^verbatim>\<open>ffi/src/lib.rs\<close> on a heap of handles, blocks and out cells), \<open>Ffi\<close> (the
    rest of \<^verbatim>\<open>lib.rs\<close>), \<open>Ffi_Transport\<close> (\<^verbatim>\<open>transport_ffi.rs\<close>, \<^verbatim>\<open>mesh_ffi.rs\<close>), \<open>Ffi_Host\<close> (a host that calls the interface,
    with the rules the comments of the sources impose on it) and \<open>Ffi_Protocol\<close> (compositions of calls). Undefined
    behaviour is the value \<open>None\<close>, so that showing its absence is a theorem.
  \<^item> \<open>Impersonation\<close>: what a sender who lies about its identity can do with the functions of \<^verbatim>\<open>core\<close>.
  \<^item> \<open>App_Content\<close> (\<^verbatim>\<open>app/lib/src/services/content.dart\<close>, \<^verbatim>\<open>models/models.dart\<close>, and what Dart's integers, dates and durations do
    with them), \<open>App\<close> (\<^verbatim>\<open>state/app_state.dart\<close> and the polling of \<^verbatim>\<open>services/relay_worker.dart\<close>), \<open>App_Saved\<close> and \<open>App_Account\<close>
    (the invariants of the storage), \<open>App_Flow\<close> (messages between two applications), \<open>App_Restart\<close> (reachable states and
    restarts), \<open>App_Failures\<close> (crashes, broken connections, hostile contacts) and \<open>App_Mesh\<close> (\<^verbatim>\<open>services/mesh_service.dart\<close>).

  \<^bold>\<open>Conventions.\<close> A struct is a record with the source's fields, an enum a datatype. \<open>&mut self\<close> is state passing: an
  operation returns its result and the state it leaves, also when it fails, because the sources often change state before
  they return an error and several properties are about exactly that. \<open>Result\<close> is a sum with the error on the left.
  \<open>u8\<close>, \<open>u32\<close> and \<open>u64\<close> are words and wrap; lengths and indices (\<open>usize\<close>) are naturals. Secret keys are their
  bytes. Randomness, clock readings and file-system faults are arguments. No model has a fuel argument: every loop is
  structural or has a termination proof. In the application an exception is the left of a sum, with the state as it
  is when it is thrown; instants are integers of microseconds with the range of \<open>DateTime\<close>, and \<open>Duration\<close> wraps at 64
  bits. An asynchronous operation runs to its end before the next begins, except where a theorem cuts it short. The storage
  maps keys to the values written rather than to their texts; JSON, UTF-8 and base64 are a parameter (\<open>dart_codec\<close>) with the
  round trips as the predicate \<open>dart_ok\<close>.

  \<^bold>\<open>What is shown.\<close>
  \<^item> Ratchet and conversation: the skipped-key cache is bounded, the skip limit is exact, and in every conversation over a
    lossy reordering network a packet in flight that is within the limits decrypts to what was sent; conversations of at
    most 1000 messages never meet the limits. A theorem and a lemma show how a replayed or oversized-skip message
    desynchronises a chain, because the state is committed before authentication.
  \<^item> Identity, handshake and session: what a verified bundle guarantees, context separation of the signatures,
    freshness of replenished prekeys, agreement of both sides on a root, establishment from any first message, the fate
    of one-time prekeys, and round trips of the stored forms.
  \<^item> Enclave: it refines sessions, and seals every blob under one fixed key and nonce.
  \<^item> Envelope, inbox, safety: round trip, exact padded lengths, opaque failure; the polled window absorbs clock skew;
    safety numbers are symmetric and well formed.
  \<^item> Mesh: bounded memory, at-most-once delivery, hop bounds; a flood among any number of nodes ends after at most one
    accepted reception per node and identifier, and has then reached everyone; so a sealed first message sent over the mesh is read by
    its addressee. The bounded queues share one locale.
  \<^item> Relay: it refines an abstract service (locale \<open>service_refinement\<close>, interpreted for the store and for the HTTP
    handlers), so that sweeps and snapshots never show; under threads it is linearizable, does not deadlock, and its file is
    a consistent prefix of the calls at every moment; exact drop-oldest trimming, first-in first-out mailboxes, one
    dispensation per one-time prekey and upload, restart from snapshots after any interleaving of requests and crashes, failed requests changing nothing, the
    exact rate limit, URL decoding, the command line, a process that comes back up after any earlier lives, and client
    against server end to end. Mesh and relay both interpret the locale
    \<open>message_transport\<close>.
  \<^item> Group: exact framing, and export/import of a client.
  \<^item> C interface: a host that keeps the rules never meets undefined behaviour, and the objects alive are exactly those it
    was handed and has not given back; the four kinds of handles share the locale \<open>handle_table\<close>. A first message crosses
    the interface intact, the two ways of publishing agree, and lists of buffers decode on the host's side.
  \<^item> Directory: one upload serves any number of first contacts in any order of arrival; two theorems show how a repeated
    upload hands out a key twice, and that the example peer accepts a bundle the relay substituted.
  \<^item> Peer and this theory: one message along the whole path, and the answer back.
  \<^item> Impersonation: a first message can be forged in the name of any identity whose public key is known.
  \<^item> Application: a text sent in one application is shown in the other, over the relay with the poll window absorbing
    days offline and skewed clocks, and over the mesh; in every reachable state the storage holds what a restart needs,
    and a restart brings back identity, contacts, sessions and unexpired messages; forged first messages are shown; and
    four theorems on failures: a crash between sending and saving repeats a keystream, a spent one-time prekey comes
    back with a restart, a hostile timer keeps the application from starting, and a poll that breaks off loses mail.

  \<^bold>\<open>Hypotheses.\<close> The cryptographic predicates state functional correctness of the libraries (decryption undoes encryption,
  both ends of an exchange agree, lengths). No computational secrecy is claimed. Freshness of ratchet keys appears as
  distinctness of the public keys drawn.

  \<^bold>\<open>Not modelled.\<close> The user interface of the application, its timers, the switching and stopping of transports, its
  worker isolate and the marshalling of its calls; the sockets under \<open>serve\<close> (the arriving requests are a list, the
  listening socket a parameter); the mutex of \<open>MeshTransport\<close>, held for one whole operation at a time, and poisoned
  mutexes (no code panics while it holds one); pointers into the middle of a block, which the interface never hands out;
  OpenMLS, \<open>ureq\<close>, \<open>tiny_http\<close>, \<open>serde_json\<close> and the cryptographic crates, which are parameters; zeroisation of
  secrets; re-exports, plain accessors and the wrappers of the random number generators.
\<close>

section \<open>One message along the whole path\<close>

text \<open>
  C1: the whole path of a first message. The recipient's keys are in the relay's directory. A peer that knows only the
  recipient's identity can always compose its message (session, wire message, sealed envelope); if the post fits the
  relay's limits, the peer reports success, and a poll of the addressed inbox within the mail retention time yields the
  envelope as the newest mail. The recipient opens it, learns the sender's true identity, decodes the wire message, and
  \<open>Session::respond\<close> returns exactly the plaintext and spends exactly the one-time prekey the relay had served.
\<close>

theorem peer_message_arrives:
  fixes now :: u64
  assumes laws: "sig_ok C" "aead_ok C" "dh_ok C" "kem_ok C" "dh_len C" "aead_tag_len C" "hash_len C" "serde_ok M" "web_ok W"
    and b: "kyber_wf C (kyber b)"
    and keys: "distinct (map (x25519_public C) [signed_prekey_secret b, pr_ratchet r, new'])"
    and lim: "sane_limits (limits st)" "max_message_bytes (limits st) < 2 ^ 32"
    and time: "t \<le> t'" "t' \<le> t + mail_ttl_secs (limits st)"
  defines "opk \<equiv> first_offer C b" and "self \<equiv> generate_account C (pr_account r)"
    and "addr \<equiv> inbox_id C (identity_public C b) (epoch_for_unix now)"
  shows "\<exists>s blob. peer_compose C S M r self (served_bundle C b opk) plain = Inr (s, blob) \<and>
    (postable W (limits st) addr blob \<longrightarrow>
      (\<exists>st' old env m sb.
        peer_send C S M W r (loopback W base t) (identity_public C b) plain now
          (publish st (fst (split_bundle C b)) (snd (split_bundle C b))) = (Inr (self, s), st') \<and>
        fst (relay_receive W (loopback W base t') st' addr) = Inr (old @ [blob]) \<and>
        open_envelope C b blob = Inr env \<and> sender_identity_ed env = identity_public C self \<and>
        message_decode M (payload env) = Inr m \<and>
        session_respond C S new' b m = (Inr (sb, plain), spend opk b)))"
proof -
  let ?st = "publish st (fst (split_bundle C b)) (snd (split_bundle C b))"
  obtain st1 where F: "net_fetch_bundle W (loopback W base t) (identity_public C b) ?st = (Inr (Some (served_bundle C b opk)), st1)"
    "limits st1 = limits st"
    using fetch_published [OF laws(1,9)] unfolding opk_def by blast
  have st: "limits ?st = limits st" by (simp add: publish_def Let_def)
  have off: "offered C b opk" unfolding opk_def by (rule first_offer_offered)
  show ?thesis
    unfolding self_def addr_def
    by (rule sent_message_read [OF laws b off keys _ _ time(1) _ F(1), unfolded st]) (fact lim(1) lim(2) time(2) F(2))+
qed

theorem peer_message_arrives_witness:
  "\<exists>s blob st' old env m sb. peer_send demo_crypto demo_header_serde (serde_of message_fmt) demo_web demo_peer
      (loopback demo_web ''http://relay/'' 10) (identity_public demo_crypto (demo_account 8)) [104, 105] 10
      (publish store_new (fst (split_bundle demo_crypto (demo_account 8))) (snd (split_bundle demo_crypto (demo_account 8)))) =
        (Inr (generate_account demo_crypto (pr_account demo_peer), s), st') \<and>
    fst (relay_receive demo_web (loopback demo_web ''http://relay/'' 20) st'
      (inbox_id demo_crypto (identity_public demo_crypto (demo_account 8)) (epoch_for_unix 10))) = Inr (old @ [blob]) \<and>
    open_envelope demo_crypto (demo_account 8) blob = Inr env \<and>
    message_decode (serde_of message_fmt) (payload env) = Inr m \<and>
    session_respond demo_crypto demo_header_serde [25] (demo_account 8) m =
      (Inr (sb, [104, 105]), spend (first_offer demo_crypto (demo_account 8)) (demo_account 8))"
proof -
  let ?self = "generate_account demo_crypto (pr_account demo_peer)"
  let ?b = "served_bundle demo_crypto (demo_account 8) (first_offer demo_crypto (demo_account 8))"
  let ?addr = "inbox_id demo_crypto (identity_public demo_crypto (demo_account 8)) (epoch_for_unix 10)"
  have keys: "distinct (map (x25519_public demo_crypto) [signed_prekey_secret (demo_account 8), pr_ratchet demo_peer, [25]])"
    by (simp add: demo_account_def generate_with_prekeys_def demo_rng_def demo_crypto_def pad_to_def demo_peer_def)
  have lim: "sane_limits (limits store_new)" "max_message_bytes (limits store_new) < 2 ^ 32"
    "limits store_new = default_limits" "mail_ttl_secs (limits store_new) = 2592000"
    by (simp_all add: store_new_def store_with_limits_def default_limits_def sane_limits_def)
  have post: "postable demo_web (limits store_new) ?addr blob"
    if "peer_compose demo_crypto demo_header_serde (serde_of message_fmt) demo_peer ?self ?b [104, 105] = Inr (s, blob)" for s blob
    using demo_postable [of ?addr blob] demo_first_size [OF that] demo_hash_len
    by (simp add: lim(3) inbox_id_def hash_len_def)
  show ?thesis
    using peer_message_arrives [OF demo_sig_ok demo_aead_ok demo_dh_ok demo_kem_ok demo_dh_len demo_aead_tag_len
        demo_hash_len serde_of_ok [OF message_fmt_ok] demo_web_ok demo_account_wf keys lim(1,2), where t = 10 and t' = 20 and now = 10 and
        S = demo_header_serde and plain = "[104, 105]" and base = "''http://relay/''"] lim(4) post by fastforce
qed

end
